(* ===== verification/Prelude.thy ===== *)
theory Prelude
  imports "HOL-Library.Word" "HOL-Library.AList"
begin

text \<open>
  What every theory of the development shares: the machine integers of the source at their
  width, Rust panics as values, and the generic facts about words, association lists and maps
  the component proofs use.

  Integers.  A \<open>u64\<close> is a \<open>64 word\<close> and a \<open>u8\<close> an \<open>8 word\<close>.  A \<open>usize\<close> only ever holds a
  length, a count or a configuration size in this program and is a \<open>nat\<close>; on the 64-bit
  targets the crate is built for, a cast between \<open>usize\<close> and \<open>u64\<close> keeps the value, so
  \<open>as u64\<close> is \<open>word_of_nat\<close> and \<open>as usize\<close> is \<open>unat\<close>.

  Panics.  Arithmetic that overflows panics in the development profile (the one
  \<open>cargo test\<close> builds), a remainder by zero, an ill-formed slice and
  a failed assertion panic in every profile.
  A computation that may panic returns a value of type \<open>'a res\<close>, whose left injection
  is the panic; \<open>rbind\<close> runs the rest of a body after a computation that may have panicked.
\<close>

unbundle bit_operations_syntax

named_theorems res_simps \<open>inversion of computations that may panic\<close>
named_theorems eval_simps \<open>definitions unfolded to evaluate a concrete run\<close>

section \<open>Machine integers and panics\<close>

type_synonym u8 = "8 word"
type_synonym u64 = "64 word"
type_synonym usize = nat

datatype panic =
    ArithmeticOverflow
  | RemainderByZero
  | SliceOutOfRange
  | IndexOutOfRange
  | AssertionFailed

type_synonym 'a res = "panic + 'a"

definition rbind :: "'a res \<Rightarrow> ('a \<Rightarrow> 'b res) \<Rightarrow> 'b res" where
  "rbind m f = (case m of Inl e \<Rightarrow> Inl e | Inr x \<Rightarrow> f x)"

lemma rbind_Inr [simp]: "rbind (Inr x) f = f x"
  by (simp add: rbind_def)

lemma rbind_Inl [simp]: "rbind (Inl e) f = Inl e"
  by (simp add: rbind_def)

lemma rbind_assoc: "rbind (rbind x f) g = rbind x (\<lambda>a. rbind (f a) g)"
  by (cases x) simp_all

lemma rbind_eq_Inr [res_simps]: "rbind m f = Inr y \<longleftrightarrow> (\<exists>x. m = Inr x \<and> f x = Inr y)"
  by (cases m) auto

lemma rbind_eq_Inl: "rbind m f = Inl e \<longleftrightarrow> m = Inl e \<or> (\<exists>x. m = Inr x \<and> f x = Inl e)"
  by (cases m) auto

lemma rbind_cong [fundef_cong]:
  "m = m' \<Longrightarrow> (\<And>x. m' = Inr x \<Longrightarrow> f x = g x) \<Longrightarrow> rbind m f = rbind m' g"
  by (cases m') auto

text \<open>Checked arithmetic: the sum of two words wraps exactly when it is below a summand.\<close>

definition add_u64 :: "u64 \<Rightarrow> u64 \<Rightarrow> u64 res" where
  "add_u64 a b = (if a + b < a then Inl ArithmeticOverflow else Inr (a + b))"

definition sub_u64 :: "u64 \<Rightarrow> u64 \<Rightarrow> u64 res" where
  "sub_u64 a b = (if a < b then Inl ArithmeticOverflow else Inr (a - b))"

definition sub_usize :: "usize \<Rightarrow> usize \<Rightarrow> usize res" where
  "sub_usize a b = (if a < b then Inl ArithmeticOverflow else Inr (a - b))"

definition rem_u64 :: "u64 \<Rightarrow> u64 \<Rightarrow> u64 res" where
  "rem_u64 a b = (if b = 0 then Inl RemainderByZero else Inr (a mod b))"

text \<open>Rust's \<open>u64::saturating_sub\<close>.\<close>

definition saturating_sub :: "u64 \<Rightarrow> u64 \<Rightarrow> u64" where
  "saturating_sub a b = (if a < b then 0 else a - b)"

text \<open>The slice expression \<open>xs[lo..hi]\<close>.\<close>

definition slice :: "'a list \<Rightarrow> usize \<Rightarrow> usize \<Rightarrow> 'a list res" where
  "slice xs lo hi =
     (if hi < lo \<or> length xs < hi then Inl SliceOutOfRange else Inr (take (hi - lo) (drop lo xs)))"

lemmas arith_res_defs = add_u64_def sub_u64_def sub_usize_def rem_u64_def slice_def

lemma add_u64_Inr_iff:
  "add_u64 a b = Inr c \<longleftrightarrow> c = a + b \<and> unat a + unat b < 2 ^ 64"
proof -
  have "a \<le> a + b \<longleftrightarrow> unat a + unat b < 2 ^ 64"
    using no_olen_add_nat [of a b] by simp
  then show ?thesis by (auto simp: add_u64_def not_less)
qed

lemma add_u64_unat: "add_u64 a b = Inr c \<Longrightarrow> unat c = unat a + unat b"
  by (auto simp: add_u64_Inr_iff unat_word_ariths)

lemma add_u64_less: "add_u64 a 1 = Inr c \<Longrightarrow> a < c"
  by (drule add_u64_unat) (simp add: word_less_nat_alt)

lemma add_u64_less_iff: "add_u64 a 1 = Inr c \<Longrightarrow> x < c \<longleftrightarrow> x \<le> a"
  by (drule add_u64_unat) (simp add: word_less_nat_alt word_le_nat_alt less_Suc_eq_le)

lemma sub_u64_unat: "sub_u64 a b = Inr c \<Longrightarrow> unat c = unat a - unat b \<and> b \<le> a"
  by (auto simp: sub_u64_def not_less unat_sub word_le_nat_alt split: if_splits)

lemma add_u64_Inl: "add_u64 a 1 = Inl e \<longleftrightarrow> a = - 1 \<and> e = ArithmeticOverflow"
proof -
  have "a + 1 < a \<longleftrightarrow> 2 ^ 64 \<le> unat a + 1"
    using no_olen_add_nat [of a 1] by (simp add: not_le [symmetric])
  also have "\<dots> \<longleftrightarrow> a = - 1"
  proof -
    have "unat a < 2 ^ 64" using unsigned_less [of a, where ?'a = nat] by simp
    moreover have "unat (- 1 :: u64) = 2 ^ 64 - 1" by (simp add: unsigned_minus_1_eq_mask mask_eq_exp_minus_1)
    ultimately show ?thesis by (auto simp: word_unat_eq_iff)
  qed
  finally show ?thesis by (auto simp: add_u64_def)
qed

lemma sub_u64_Inl: "sub_u64 a 1 = Inl e \<longleftrightarrow> a = 0 \<and> e = ArithmeticOverflow"
  by (auto simp: sub_u64_def)


lemma slice_Inr_iff:
  "slice xs lo hi = Inr ys \<longleftrightarrow> lo \<le> hi \<and> hi \<le> length xs \<and> ys = take (hi - lo) (drop lo xs)"
  by (auto simp: slice_def not_less)

text \<open>\<open>Vec::get\<close>, and \<open>iter().map(f).collect()\<close> for an \<open>f\<close> that may panic.\<close>

definition vec_get :: "'a list \<Rightarrow> usize \<Rightarrow> 'a option" where
  "vec_get xs i = (if i < length xs then Some (xs ! i) else None)"

fun map_res :: "('a \<Rightarrow> 'b res) \<Rightarrow> 'a list \<Rightarrow> 'b list res" where
  "map_res f [] = Inr []"
| "map_res f (x # xs) = rbind (f x) (\<lambda>y. rbind (map_res f xs) (\<lambda>ys. Inr (y # ys)))"

lemma map_res_Inr_iff:
  "map_res f xs = Inr ys \<longleftrightarrow> list_all2 (\<lambda>x y. f x = Inr y) xs ys"
  by (induction xs arbitrary: ys) (auto simp: rbind_eq_Inr list_all2_Cons1)

lemma vec_get_eq_Some [simp]: "vec_get xs i = Some x \<longleftrightarrow> i < length xs \<and> xs ! i = x"
  by (auto simp: vec_get_def)

lemma vec_get_eq_None [simp]: "vec_get xs i = None \<longleftrightarrow> length xs \<le> i"
  by (auto simp: vec_get_def)

section \<open>Maps and lists\<close>

text \<open>
  A \<open>HashMap\<close> that is only looked up and updated is a map.  Rust's \<open>HashMap::retain\<close>
  keeps the entries whose value satisfies a predicate.
\<close>

definition map_retain :: "('v \<Rightarrow> bool) \<Rightarrow> ('k \<rightharpoonup> 'v) \<Rightarrow> ('k \<rightharpoonup> 'v)" where
  "map_retain P m = (\<lambda>k. case m k of None \<Rightarrow> None | Some v \<Rightarrow> if P v then Some v else None)"

lemma map_retain_eq_Some [simp]: "map_retain P m k = Some v \<longleftrightarrow> m k = Some v \<and> P v"
  by (auto simp: map_retain_def split: option.splits)

lemma map_retain_eq_None [simp]: "map_retain P m k = None \<longleftrightarrow> (\<forall>v. m k = Some v \<longrightarrow> \<not> P v)"
  by (auto simp: map_retain_def split: option.splits)

text \<open>\<open>entry(k).or_insert_with(HashSet::new)\<close>: the set stored under a key, empty if absent.\<close>

definition set_at :: "('k \<rightharpoonup> 'a set) \<Rightarrow> 'k \<Rightarrow> 'a set" where
  "set_at m k = (case m k of None \<Rightarrow> {} | Some A \<Rightarrow> A)"

lemma set_at_upd [simp]: "set_at (m(k \<mapsto> A)) k' = (if k' = k then A else set_at m k')"
  by (simp add: set_at_def)

lemma set_at_empty [simp]: "set_at Map.empty k = {}"
  by (simp add: set_at_def)

lemma card_insert_le_Suc: "finite A \<Longrightarrow> card A \<le> card (insert x A) \<and> card (insert x A) \<le> Suc (card A)"
  by (simp add: card_insert_if)

lemma map_of_update: "map_of (AList.update k v xs) = (map_of xs)(k \<mapsto> v)"
  by (rule update_conv')

lemma prefix_takeD: "length xs \<le> length ys \<Longrightarrow> take (length xs) ys = xs \<Longrightarrow> \<exists>zs. ys = xs @ zs"
  by (metis append_take_drop_id)

end
