(* ===== verification/Types.thy ===== *)
theory Types
  imports Complex_Main Prelude
begin

text \<open>
  The types of \<open>src/src/types/\<close>: node identifiers, client payloads and digests, and the
  interface of the code the crate takes from other crates (SHA-256 of \<open>sha2\<close>, the
  generator of \<open>rand\<close>), which is a parameter of every definition that uses it.
\<close>

type_synonym ViewNumber = u64
type_synonym SequenceNumber = u64

section \<open>Node identifiers\<close>

datatype node_id = NodeId (node_num: u64)

text \<open>The source derives \<open>Ord\<close>: identifiers are ordered by the number they wrap.\<close>

instantiation node_id :: linorder
begin

definition less_eq_node_id :: "node_id \<Rightarrow> node_id \<Rightarrow> bool" where
  "less_eq_node_id a b \<longleftrightarrow> node_num a \<le> node_num b"

definition less_node_id :: "node_id \<Rightarrow> node_id \<Rightarrow> bool" where
  "less_node_id a b \<longleftrightarrow> node_num a < node_num b"

instance
proof
  fix x y z :: node_id
  show "x < y \<longleftrightarrow> x \<le> y \<and> \<not> y \<le> x"
    by (auto simp: less_eq_node_id_def less_node_id_def)
  show "x \<le> x" and "x \<le> y \<Longrightarrow> y \<le> z \<Longrightarrow> x \<le> z" and "x \<le> y \<or> y \<le> x"
    by (auto simp: less_eq_node_id_def)
  show "x \<le> y \<Longrightarrow> y \<le> x \<Longrightarrow> x = y"
    by (auto simp: less_eq_node_id_def intro: node_id.expand)
qed

end

text \<open>The identifiers \<open>0..n\<close> of a cluster, and the peers of a node: everyone but itself.\<close>

definition node_ids :: "usize \<Rightarrow> node_id list" where
  "node_ids n = map (\<lambda>i. NodeId (word_of_nat i)) [0..<n]"

definition peers_of :: "node_id \<Rightarrow> usize \<Rightarrow> node_id list" where
  "peers_of me n = filter (\<lambda>p. p \<noteq> me) (node_ids n)"

lemma length_node_ids [simp]: "length (node_ids n) = n"
  by (simp add: node_ids_def)

lemma nth_node_ids: "i < n \<Longrightarrow> node_ids n ! i = NodeId (word_of_nat i)"
  by (simp add: node_ids_def)

lemma unat_word_of_nat_small: "i < 2 ^ 64 \<Longrightarrow> unat (word_of_nat i :: u64) = i"
  by (simp add: unat_of_nat)

lemma word_of_nat_inj_small:
  assumes "i < 2 ^ 64" and "j < 2 ^ 64" and "word_of_nat i = (word_of_nat j :: u64)"
  shows "i = j"
  using unat_word_of_nat_small [OF assms(1)] unat_word_of_nat_small [OF assms(2)] assms(3) by metis

lemma distinct_node_ids:
  assumes "n < 2 ^ 64"
  shows "distinct (node_ids n)"
proof -
  have "inj_on (\<lambda>i. NodeId (word_of_nat i)) {0..<n}"
  proof (rule inj_onI)
    fix i j
    assume "i \<in> {0..<n}" "j \<in> {0..<n}" "NodeId (word_of_nat i) = NodeId (word_of_nat j)"
    then show "i = j"
      using assms word_of_nat_inj_small [of i j] by (metis atLeastLessThan_iff node_id.inject order.strict_trans)
  qed
  then show ?thesis by (simp add: node_ids_def distinct_map)
qed

lemma mem_node_ids_iff:
  assumes "n < 2 ^ 64"
  shows "NodeId w \<in> set (node_ids n) \<longleftrightarrow> unat w < n"
proof
  assume "NodeId w \<in> set (node_ids n)"
  then obtain i where "i < n" "w = word_of_nat i"
    by (auto simp: node_ids_def)
  then show "unat w < n"
    using assms unat_word_of_nat_small [of i] by simp
next
  assume "unat w < n"
  then show "NodeId w \<in> set (node_ids n)"
    by (auto simp: node_ids_def image_iff intro!: bexI [of _ "unat w"])
qed

lemma set_peers_of [simp]: "set (peers_of me n) = set (node_ids n) - {me}"
  by (auto simp: peers_of_def)

lemma length_peers_of:
  assumes "n < 2 ^ 64" and "me \<in> set (node_ids n)"
  shows "length (peers_of me n) = n - 1"
proof -
  have d: "distinct (peers_of me n)"
    using distinct_node_ids [OF assms(1)] by (simp add: peers_of_def)
  have "length (peers_of me n) = card (set (node_ids n) - {me})"
    using distinct_card [OF d] by simp
  also have "\<dots> = n - 1"
    using assms distinct_card [OF distinct_node_ids [OF assms(1)]] by simp
  finally show ?thesis .
qed

section \<open>Payloads, digests and the external crates\<close>

datatype digest = Digest "u8 list"

datatype payload = Payload "u8 list"

text \<open>
  A value of \<open>f64\<close>: the fault injector only clamps and compares them.  A finite
  double is a rational number; comparisons with NaN are false.
\<close>

datatype f64 = Finite rat | Infinite bool | NaN

fun f64_less :: "f64 \<Rightarrow> f64 \<Rightarrow> bool" where
  "f64_less (Finite a) (Finite b) = (a < b)"
| "f64_less (Finite a) (Infinite pos) = pos"
| "f64_less (Infinite pos) (Finite b) = (\<not> pos)"
| "f64_less (Infinite p) (Infinite q) = (\<not> p \<and> q)"
| "f64_less NaN b = False"
| "f64_less a NaN = False"

text \<open>\<open>f64::clamp\<close>: NaN is returned unchanged.\<close>

definition f64_clamp :: "f64 \<Rightarrow> f64 \<Rightarrow> f64 \<Rightarrow> f64" where
  "f64_clamp x lo hi = (if f64_less x lo then lo else if f64_less hi x then hi else x)"

text \<open>
  The functions of other crates.  \<open>sha256\<close> is \<open>sha2::Sha256\<close> on a whole buffer;
  \<open>gen_f64\<close>, \<open>gen_u64\<close> and \<open>gen_range\<close> are the generator's \<open>gen::<f64>\<close>,
  \<open>gen::<u64>\<close> and \<open>gen_range(lo..=hi)\<close>, each returning the generator's next state;
  \<open>seed_from_u64\<close> is \<open>StdRng::seed_from_u64\<close>.  A generator drawn \<open>from_entropy\<close>
  is an argument of the definition that draws it.
\<close>

record 'rng extern =
  sha256 :: "u8 list \<Rightarrow> u8 list"
  gen_f64 :: "'rng \<Rightarrow> f64 \<times> 'rng"
  gen_u64 :: "'rng \<Rightarrow> u64 \<times> 'rng"
  gen_range :: "u64 \<Rightarrow> u64 \<Rightarrow> 'rng \<Rightarrow> u64 \<times> 'rng"
  seed_from_u64 :: "u64 \<Rightarrow> 'rng"

text \<open>What their documentation promises: a digest has 32 bytes, a range is inclusive.\<close>

definition sha256_ok :: "(u8 list \<Rightarrow> u8 list) \<Rightarrow> bool" where
  "sha256_ok sha \<longleftrightarrow> (\<forall>bs. length (sha bs) = 32)"

definition gen_range_ok :: "(u64 \<Rightarrow> u64 \<Rightarrow> 'rng \<Rightarrow> u64 \<times> 'rng) \<Rightarrow> bool" where
  "gen_range_ok gr \<longleftrightarrow> (\<forall>lo hi r. lo \<le> hi \<longrightarrow> lo \<le> fst (gr lo hi r) \<and> fst (gr lo hi r) \<le> hi)"

fun payload_digest :: "(u8 list \<Rightarrow> u8 list) \<Rightarrow> payload \<Rightarrow> digest" where
  "payload_digest sha (Payload bs) = Digest (sha bs)"

fun payload_len :: "payload \<Rightarrow> usize" where
  "payload_len (Payload bs) = length bs"

fun payload_is_empty :: "payload \<Rightarrow> bool" where
  "payload_is_empty (Payload bs) = (bs = [])"

fun digest_as_bytes :: "digest \<Rightarrow> u8 list" where
  "digest_as_bytes (Digest bs) = bs"

section \<open>Text\<close>

text \<open>Decimal digits of a number, as \<open>write!\<close> prints a \<open>u64\<close> or a \<open>usize\<close>.\<close>

fun show_nat :: "nat \<Rightarrow> string" where
  "show_nat n = (if n < 10 then [char_of (48 + n)] else show_nat (n div 10) @ [char_of (48 + n mod 10)])"

declare show_nat.simps [simp del]

definition show_node_id :: "node_id \<Rightarrow> string" where
  "show_node_id i = ''node-'' @ show_nat (unat (node_num i))"

fun show_bytes_rest :: "u8 list \<Rightarrow> string" where
  "show_bytes_rest [] = '']''"
| "show_bytes_rest (b # bs) = '', '' @ show_nat (unat b) @ show_bytes_rest bs"

text \<open>The \<open>Debug\<close> form of a byte vector: \<open>[104, 105]\<close>.\<close>

fun show_bytes :: "u8 list \<Rightarrow> string" where
  "show_bytes [] = ''[]''"
| "show_bytes (b # bs) = ''['' @ show_nat (unat b) @ show_bytes_rest bs"

end
