(* ===== verification/Network.thy ===== *)
theory Network
  imports Types
begin

text \<open>
  The messages of \<open>src/src/network/mod.rs\<close>: one envelope for the three protocols.  The
  constructors are the source's variants with their fields in order; where two enums of the
  source share a variant name (\<open>NewView\<close>), the constructor carries the protocol's name.
\<close>

datatype pbft_message =
    PrePrepare ViewNumber SequenceNumber digest payload
  | Prepare ViewNumber SequenceNumber digest node_id
  | Commit ViewNumber SequenceNumber digest node_id
  | ViewChange ViewNumber node_id SequenceNumber
  | PbftNewView ViewNumber SequenceNumber

record log_entry =
  le_term :: u64
  le_index :: u64
  le_payload :: payload

datatype raft_message =
    RequestVote u64 node_id u64 u64
  | RequestVoteResponse u64 bool
  | AppendEntries u64 node_id u64 u64 "log_entry list" u64
  | AppendEntriesResponse u64 bool u64

datatype phase_tag = TagPrepare | TagPreCommit | TagCommit

datatype hotstuff_message =
    Propose ViewNumber SequenceNumber digest payload ViewNumber phase_tag
  | Vote ViewNumber SequenceNumber digest phase_tag node_id
  | QuorumCertificate ViewNumber SequenceNumber digest phase_tag usize
  | HsNewView ViewNumber ViewNumber phase_tag node_id

datatype protocol_message =
    Pbft pbft_message
  | Raft raft_message
  | HotStuff hotstuff_message

record network_message =
  msg_from :: node_id
  msg_to :: node_id
  msg_payload :: protocol_message

text \<open>Every node builds its outgoing messages with \<open>msg_to\<close>, signed with its own id.\<close>

definition mk_msg :: "node_id \<Rightarrow> node_id \<Rightarrow> protocol_message \<Rightarrow> network_message" where
  "mk_msg me dest m = \<lparr>msg_from = me, msg_to = dest, msg_payload = m\<rparr>"

lemma mk_msg_simps [simp]:
  "msg_from (mk_msg me dest m) = me"
  "msg_to (mk_msg me dest m) = dest"
  "msg_payload (mk_msg me dest m) = m"
  by (simp_all add: mk_msg_def)

text \<open>A broadcast sends one copy to each peer, in the order of the peer list.\<close>

definition broadcast :: "node_id \<Rightarrow> node_id list \<Rightarrow> protocol_message \<Rightarrow> network_message list" where
  "broadcast me peers m = map (\<lambda>p. mk_msg me p m) peers"

lemma length_broadcast [simp]: "length (broadcast me peers m) = length peers"
  by (simp add: broadcast_def)

lemma mem_broadcast_iff [simp]:
  "x \<in> set (broadcast me peers m) \<longleftrightarrow> (\<exists>p\<in>set peers. x = mk_msg me p m)"
  by (auto simp: broadcast_def)

end
