(* ===== verification/Consensus.thy ===== *)
theory Consensus
  imports Network
begin

text \<open>
  The trait \<open>ConsensusNode\<close> of \<open>src/src/consensus/mod.rs\<close>.  A value of type
  \<open>dyn ConsensusNode\<close> is a table of the trait's methods and a state they work on: the
  record \<open>vtable\<close> holds the methods, and the cluster is written over any table.  A method
  takes the node's state and returns the new one; each runs under the node's mutex, so one
  call is one atomic step.

  The locale \<open>consensus_node\<close> is the contract of the trait: what the cluster may rely on
  whatever the protocol.  Each protocol's theory interprets it on its own methods.
\<close>

section \<open>The trait\<close>

datatype propose_result = Accepted | NotLeader "node_id option"

record committed_entry =
  ce_sequence :: SequenceNumber
  ce_payload :: payload

record 'n vtable =
  vt_id :: "'n \<Rightarrow> node_id"
  vt_cluster_size :: "'n \<Rightarrow> usize"
  vt_fault_tolerance :: "'n \<Rightarrow> usize res"
  vt_peers :: "'n \<Rightarrow> node_id list"
  vt_propose :: "'n \<Rightarrow> payload \<Rightarrow> ('n \<times> propose_result \<times> network_message list) res"
  vt_handle_message :: "'n \<Rightarrow> network_message \<Rightarrow> ('n \<times> network_message list) res"
  vt_tick :: "'n \<Rightarrow> ('n \<times> network_message list) res"
  vt_poll_committed :: "'n \<Rightarrow> 'n \<times> committed_entry list"
  vt_leader :: "'n \<Rightarrow> node_id option res"

definition vt_is_leader :: "'n vtable \<Rightarrow> 'n \<Rightarrow> bool res" where
  "vt_is_leader vt nd = rbind (vt_leader vt nd) (\<lambda>l. Inr (l = Some (vt_id vt nd)))"

section \<open>Runs of one node\<close>

datatype node_op = OpPropose payload | OpHandle network_message | OpTick | OpPoll

text \<open>One call of a method: the next state, the messages sent, the entries handed out.\<close>

fun node_exec :: "'n vtable \<Rightarrow> 'n \<Rightarrow> node_op \<Rightarrow> ('n \<times> network_message list \<times> committed_entry list) res" where
  "node_exec vt nd (OpPropose p) = rbind (vt_propose vt nd p) (\<lambda>(nd', r, out). Inr (nd', out, []))"
| "node_exec vt nd (OpHandle m) = rbind (vt_handle_message vt nd m) (\<lambda>(nd', out). Inr (nd', out, []))"
| "node_exec vt nd OpTick = rbind (vt_tick vt nd) (\<lambda>(nd', out). Inr (nd', out, []))"
| "node_exec vt nd OpPoll = (case vt_poll_committed vt nd of (nd', es) \<Rightarrow> Inr (nd', [], es))"

fun node_run :: "'n vtable \<Rightarrow> 'n \<Rightarrow> node_op list \<Rightarrow> ('n \<times> network_message list \<times> committed_entry list) res" where
  "node_run vt nd [] = Inr (nd, [], [])"
| "node_run vt nd (x # xs) =
     rbind (node_exec vt nd x) (\<lambda>(nd', out, es).
     rbind (node_run vt nd' xs) (\<lambda>(nd'', out', es'). Inr (nd'', out @ out', es @ es')))"

definition handle_all :: "network_message list \<Rightarrow> node_op list" where
  "handle_all ms = map OpHandle ms"

lemma node_run_append:
  "node_run vt nd (xs @ ys) =
     rbind (node_run vt nd xs) (\<lambda>(nd', out, es).
     rbind (node_run vt nd' ys) (\<lambda>(nd'', out', es'). Inr (nd'', out @ out', es @ es')))"
proof (induction xs arbitrary: nd)
  case Nil
  then show ?case by (cases "node_run vt nd ys") auto
next
  case (Cons x xs)
  show ?case
  proof (cases "node_exec vt nd x")
    case (Inr r)
    obtain nd1 out1 es1 where r: "r = (nd1, out1, es1)" by (cases r)
    show ?thesis using Inr r Cons.IH [of nd1] by (auto simp: rbind_def split: sum.splits)
  qed simp
qed

section \<open>The contract\<close>

locale consensus_node =
  fixes vt :: "'n vtable"
    and wf :: "'n \<Rightarrow> bool"
    and committed :: "'n \<Rightarrow> committed_entry list"
  assumes propose_id: "vt_propose vt nd p = Inr (nd', r, out) \<Longrightarrow> vt_id vt nd' = vt_id vt nd"
    and handle_id: "vt_handle_message vt nd m = Inr (nd', out) \<Longrightarrow> vt_id vt nd' = vt_id vt nd"
    and tick_id: "vt_tick vt nd = Inr (nd', out) \<Longrightarrow> vt_id vt nd' = vt_id vt nd"
    and poll_id: "vt_id vt (fst (vt_poll_committed vt nd)) = vt_id vt nd"
    and propose_wf: "wf nd \<Longrightarrow> vt_propose vt nd p = Inr (nd', r, out) \<Longrightarrow> wf nd'"
    and handle_wf: "wf nd \<Longrightarrow> vt_handle_message vt nd m = Inr (nd', out) \<Longrightarrow> wf nd'"
    and tick_wf: "wf nd \<Longrightarrow> vt_tick vt nd = Inr (nd', out) \<Longrightarrow> wf nd'"
    and poll_wf: "wf nd \<Longrightarrow> wf (fst (vt_poll_committed vt nd))"
    and propose_signed: "vt_propose vt nd p = Inr (nd', r, out) \<Longrightarrow> \<forall>x\<in>set out. msg_from x = vt_id vt nd"
    and handle_signed: "vt_handle_message vt nd m = Inr (nd', out) \<Longrightarrow> \<forall>x\<in>set out. msg_from x = vt_id vt nd"
    and tick_signed: "vt_tick vt nd = Inr (nd', out) \<Longrightarrow> \<forall>x\<in>set out. msg_from x = vt_id vt nd"
    and propose_rejected: "vt_propose vt nd p = Inr (nd', NotLeader l, out) \<Longrightarrow> nd' = nd \<and> out = []"
    and propose_committed: "vt_propose vt nd p = Inr (nd', r, out) \<Longrightarrow> committed nd' = committed nd"
    and handle_committed: "vt_handle_message vt nd m = Inr (nd', out) \<Longrightarrow> \<exists>es. committed nd' = committed nd @ es"
    and tick_committed: "vt_tick vt nd = Inr (nd', out) \<Longrightarrow> committed nd' = committed nd"
    and poll_drains: "snd (vt_poll_committed vt nd) = committed nd"
    and poll_empties: "committed (fst (vt_poll_committed vt nd)) = []"
begin

lemma exec_wf: "wf nd \<Longrightarrow> node_exec vt nd x = Inr (nd', out, es) \<Longrightarrow> wf nd'"
  using poll_wf [of nd]
  by (cases x) (auto simp: res_simps split: prod.splits dest: propose_wf handle_wf tick_wf)

lemma exec_id: "node_exec vt nd x = Inr (nd', out, es) \<Longrightarrow> vt_id vt nd' = vt_id vt nd"
  using poll_id [of nd]
  by (cases x) (auto simp: res_simps split: prod.splits dest: propose_id handle_id tick_id)

lemma exec_signed: "node_exec vt nd x = Inr (nd', out, es) \<Longrightarrow> \<forall>m\<in>set out. msg_from m = vt_id vt nd"
  by (cases x) (auto simp: res_simps split: prod.splits dest: propose_signed handle_signed tick_signed)

lemma exec_committed:
  "node_exec vt nd x = Inr (nd', out, es) \<Longrightarrow> \<exists>new. committed nd @ new = es @ committed nd'"
  using poll_drains [of nd] poll_empties [of nd]
  by (cases x) (auto simp: res_simps split: prod.splits
      dest: propose_committed handle_committed tick_committed)

text \<open>What one call keeps, every run keeps.\<close>

lemma run_wf: "wf nd \<Longrightarrow> node_run vt nd xs = Inr (nd', out, es) \<Longrightarrow> wf nd'"
  by (induction xs arbitrary: nd out es) (auto simp: res_simps split: prod.splits dest: exec_wf)

lemma run_id: "node_run vt nd xs = Inr (nd', out, es) \<Longrightarrow> vt_id vt nd' = vt_id vt nd"
  by (induction xs arbitrary: nd out es) (auto simp: res_simps split: prod.splits dest: exec_id)

lemma run_signed: "node_run vt nd xs = Inr (nd', out, es) \<Longrightarrow> \<forall>m\<in>set out. msg_from m = vt_id vt nd"
proof (induction xs arbitrary: nd out es)
  case Nil
  then show ?case by simp
next
  case (Cons x xs)
  then obtain nd1 out1 es1 out2 es2 where
    x: "node_exec vt nd x = Inr (nd1, out1, es1)" and
    xs: "node_run vt nd1 xs = Inr (nd', out2, es2)" and out: "out = out1 @ out2"
    by (auto simp: res_simps split: prod.splits)
  from exec_signed [OF x] Cons.IH [OF xs] exec_id [OF x] out show ?case by auto
qed

text \<open>
  Polling neither loses nor repeats an entry: what a run has handed out, followed by what is
  still held, extends what was held before.
\<close>

lemma run_committed:
  "node_run vt nd xs = Inr (nd', out, es) \<Longrightarrow> \<exists>new. committed nd @ new = es @ committed nd'"
proof (induction xs arbitrary: nd out es)
  case Nil
  then show ?case by simp
next
  case (Cons x xs)
  then obtain nd1 out1 es1 out2 es2 where
    x: "node_exec vt nd x = Inr (nd1, out1, es1)" and
    xs: "node_run vt nd1 xs = Inr (nd', out2, es2)" and es: "es = es1 @ es2"
    by (auto simp: res_simps split: prod.splits)
  from exec_committed [OF x] obtain new1 where "committed nd @ new1 = es1 @ committed nd1" ..
  moreover from Cons.IH [OF xs] obtain new2 where "committed nd1 @ new2 = es2 @ committed nd'" ..
  ultimately have "committed nd @ (new1 @ new2) = es @ committed nd'"
    using es by (metis append.assoc)
  then show ?case ..
qed

end

end
