(* ===== verification/PbftNode.thy ===== *)
theory PbftNode
  imports Consensus
begin

text \<open>
  PBFT: \<open>src/src/consensus/pbft/mod.rs\<close> (phases and slots) and \<open>state.rs\<close> (the
  node).  One definition per method, and one per message arm of \<open>handle_message\<close>.  A
  method that updates the node returns the new node; the mutex-protected \<open>PbftState\<close> and
  the atomic \<open>current_view\<close> are fields of it.  Log lines are left out.
\<close>

section \<open>State\<close>

datatype pbft_phase = Idle | PrePrepared | Prepared | Committed

record pbft_slot =
  ps_view :: ViewNumber
  ps_sequence :: SequenceNumber
  ps_phase :: pbft_phase
  ps_prepare_voters :: "node_id set"
  ps_commit_voters :: "node_id set"

definition pbft_slot_new :: "ViewNumber \<Rightarrow> SequenceNumber \<Rightarrow> pbft_slot" where
  "pbft_slot_new v s =
     \<lparr>ps_view = v, ps_sequence = s, ps_phase = Idle, ps_prepare_voters = {}, ps_commit_voters = {}\<rparr>"

definition PBFT_VIEW_CHANGE_TIMEOUT :: u64 where
  "PBFT_VIEW_CHANGE_TIMEOUT = 40"

record pbft_state =
  pb_view :: ViewNumber
  pb_next_sequence :: SequenceNumber
  pb_slots :: "SequenceNumber \<rightharpoonup> pbft_slot"
  pb_pending_payloads :: "SequenceNumber \<rightharpoonup> payload"
  pb_committed :: "committed_entry list"
  pb_view_change_timeout :: u64
  pb_view_change_in_progress :: bool
  pb_view_change_votes :: "ViewNumber \<rightharpoonup> node_id set"
  pb_highest_committed_seq :: SequenceNumber
  pb_primary_active :: bool

record pbft_node =
  pn_id :: node_id
  pn_cluster_size :: usize
  pn_peer_ids :: "node_id list"
  pn_current_view :: u64
  pn_state :: pbft_state

definition pbft_new :: "node_id \<Rightarrow> usize \<Rightarrow> pbft_node" where
  "pbft_new i n =
     \<lparr>pn_id = i, pn_cluster_size = n, pn_peer_ids = peers_of i n, pn_current_view = 0,
      pn_state =
        \<lparr>pb_view = 0, pb_next_sequence = 1, pb_slots = Map.empty, pb_pending_payloads = Map.empty,
         pb_committed = [], pb_view_change_timeout = PBFT_VIEW_CHANGE_TIMEOUT,
         pb_view_change_in_progress = False, pb_view_change_votes = Map.empty,
         pb_highest_committed_seq = 0, pb_primary_active = False\<rparr>\<rparr>"

section \<open>Helpers\<close>

definition pbft_primary_for_view :: "pbft_node \<Rightarrow> ViewNumber \<Rightarrow> node_id res" where
  "pbft_primary_for_view nd v =
     rbind (rem_u64 v (word_of_nat (pn_cluster_size nd))) (\<lambda>k. Inr (NodeId k))"

definition pbft_fault_tolerance :: "pbft_node \<Rightarrow> usize res" where
  "pbft_fault_tolerance nd = rbind (sub_usize (pn_cluster_size nd) 1) (\<lambda>k. Inr (k div 3))"

definition pbft_quorum :: "pbft_node \<Rightarrow> usize res" where
  "pbft_quorum nd = rbind (sub_usize (pn_cluster_size nd) 1) (\<lambda>k. let f = k div 3 in Inr (2 * f + 1))"

definition pbft_prepare_threshold :: "pbft_node \<Rightarrow> usize res" where
  "pbft_prepare_threshold nd = rbind (sub_usize (pn_cluster_size nd) 1) (\<lambda>k. let f = k div 3 in Inr (2 * f))"

definition broadcast_pbft :: "pbft_node \<Rightarrow> pbft_message \<Rightarrow> network_message list" where
  "broadcast_pbft nd m = broadcast (pn_id nd) (pn_peer_ids nd) (Pbft m)"

definition pbft_enter_new_view :: "pbft_state \<Rightarrow> ViewNumber \<Rightarrow> pbft_state" where
  "pbft_enter_new_view st new_view =
     st\<lparr>pb_view := new_view,
        pb_view_change_in_progress := False,
        pb_view_change_timeout := PBFT_VIEW_CHANGE_TIMEOUT,
        pb_primary_active := False,
        pb_slots := map_retain (\<lambda>slot. ps_phase slot = Committed) (pb_slots st),
        pb_pending_payloads := Map.empty\<rparr>"

section \<open>Proposing\<close>

definition pbft_propose ::
  "(u8 list \<Rightarrow> u8 list) \<Rightarrow> pbft_node \<Rightarrow> payload \<Rightarrow> (pbft_node \<times> propose_result \<times> network_message list) res" where
  "pbft_propose sha nd p =
     (let st = pn_state nd in
      rbind (pbft_primary_for_view nd (pb_view st)) (\<lambda>primary.
      if primary \<noteq> pn_id nd then Inr (nd, NotLeader (Some primary), [])
      else if pb_view_change_in_progress st then Inr (nd, NotLeader None, [])
      else
        let sq = pb_next_sequence st in
        rbind (add_u64 sq 1) (\<lambda>next.
        let v = pb_view st;
            d = payload_digest sha p;
            slot = (pbft_slot_new v sq)\<lparr>ps_phase := PrePrepared\<rparr>;
            st' = st\<lparr>pb_next_sequence := next,
                     pb_slots := (pb_slots st)(sq \<mapsto> slot),
                     pb_pending_payloads := (pb_pending_payloads st)(sq \<mapsto> p)\<rparr>
        in Inr (nd\<lparr>pn_state := st'\<rparr>, Accepted,
                broadcast_pbft nd (PrePrepare v sq d p) @
                broadcast_pbft nd (Prepare v sq d (pn_id nd))))))"

section \<open>Handling a message, arm by arm\<close>

definition pbft_on_pre_prepare ::
  "pbft_node \<Rightarrow> ViewNumber \<Rightarrow> SequenceNumber \<Rightarrow> digest \<Rightarrow> payload \<Rightarrow> (pbft_node \<times> network_message list) res" where
  "pbft_on_pre_prepare nd v sq d p =
     (let st = pn_state nd in
      if v \<noteq> pb_view st \<or> pb_view_change_in_progress st then Inr (nd, [])
      else
        let slot = (pbft_slot_new v sq)\<lparr>ps_phase := PrePrepared\<rparr>;
            st' = st\<lparr>pb_primary_active := True,
                     pb_view_change_timeout := PBFT_VIEW_CHANGE_TIMEOUT,
                     pb_slots := (pb_slots st)(sq \<mapsto> slot),
                     pb_pending_payloads := (pb_pending_payloads st)(sq \<mapsto> p)\<rparr>
        in Inr (nd\<lparr>pn_state := st'\<rparr>, broadcast_pbft nd (Prepare v sq d (pn_id nd))))"

definition pbft_on_prepare ::
  "pbft_node \<Rightarrow> ViewNumber \<Rightarrow> SequenceNumber \<Rightarrow> digest \<Rightarrow> node_id \<Rightarrow> (pbft_node \<times> network_message list) res" where
  "pbft_on_prepare nd v sq d replica =
     (let st = pn_state nd in
      if v \<noteq> pb_view st then Inr (nd, [])
      else case pb_slots st sq of
        None \<Rightarrow> Inr (nd, [])
      | Some slot \<Rightarrow>
          if ps_phase slot \<noteq> PrePrepared then Inr (nd, [])
          else
            let slot1 = slot\<lparr>ps_prepare_voters := insert replica (ps_prepare_voters slot)\<rparr> in
            rbind (pbft_prepare_threshold nd) (\<lambda>threshold.
            if threshold \<le> card (ps_prepare_voters slot1) then
              let slot2 = slot1\<lparr>ps_phase := Prepared,
                                ps_commit_voters := insert (pn_id nd) (ps_commit_voters slot1)\<rparr>
              in Inr (nd\<lparr>pn_state := st\<lparr>pb_slots := (pb_slots st)(sq \<mapsto> slot2)\<rparr>\<rparr>,
                      broadcast_pbft nd (Commit v sq d (pn_id nd)))
            else Inr (nd\<lparr>pn_state := st\<lparr>pb_slots := (pb_slots st)(sq \<mapsto> slot1)\<rparr>\<rparr>, [])))"

text \<open>The part of the commit arm that runs when the quorum is reached.\<close>

definition pbft_commit_slot :: "pbft_state \<Rightarrow> SequenceNumber \<Rightarrow> pbft_slot \<Rightarrow> pbft_state" where
  "pbft_commit_slot st sq slot =
     (let st1 = st\<lparr>pb_slots := (pb_slots st)(sq \<mapsto> slot\<lparr>ps_phase := Committed\<rparr>),
                   pb_highest_committed_seq :=
                     (if pb_highest_committed_seq st < sq then sq else pb_highest_committed_seq st)\<rparr>
      in case pb_pending_payloads st1 sq of
           None \<Rightarrow> st1
         | Some p \<Rightarrow> st1\<lparr>pb_pending_payloads := (pb_pending_payloads st1)(sq := None),
                         pb_committed := pb_committed st1 @ [\<lparr>ce_sequence = sq, ce_payload = p\<rparr>]\<rparr>)"

definition pbft_on_commit ::
  "pbft_node \<Rightarrow> ViewNumber \<Rightarrow> SequenceNumber \<Rightarrow> digest \<Rightarrow> node_id \<Rightarrow> (pbft_node \<times> network_message list) res" where
  "pbft_on_commit nd v sq d replica =
     (let st = pn_state nd in
      if v \<noteq> pb_view st then Inr (nd, [])
      else case pb_slots st sq of
        None \<Rightarrow> Inr (nd, [])
      | Some slot \<Rightarrow>
          if ps_phase slot = Prepared \<or> ps_phase slot = PrePrepared then
            let slot1 = slot\<lparr>ps_commit_voters := insert replica (ps_commit_voters slot)\<rparr> in
            rbind (pbft_quorum nd) (\<lambda>quorum.
            if quorum \<le> card (ps_commit_voters slot1) \<and> ps_phase slot1 \<noteq> Committed
            then Inr (nd\<lparr>pn_state := pbft_commit_slot st sq slot1\<rparr>, [])
            else Inr (nd\<lparr>pn_state := st\<lparr>pb_slots := (pb_slots st)(sq \<mapsto> slot1)\<rparr>\<rparr>, []))
          else Inr (nd, []))"

text \<open>Becoming the primary of a new view, the block both branches of the arm below end in.\<close>

definition pbft_lead_new_view :: "pbft_node \<Rightarrow> pbft_state \<Rightarrow> ViewNumber \<Rightarrow> (pbft_node \<times> network_message list) res" where
  "pbft_lead_new_view nd st new_view =
     (let st1 = pbft_enter_new_view st new_view in
      rbind (add_u64 (pb_highest_committed_seq st1) 1) (\<lambda>next.
      Inr (nd\<lparr>pn_state := st1\<lparr>pb_next_sequence := next\<rparr>, pn_current_view := new_view\<rparr>,
           broadcast_pbft nd (PbftNewView new_view next))))"

definition pbft_on_view_change ::
  "pbft_node \<Rightarrow> ViewNumber \<Rightarrow> node_id \<Rightarrow> SequenceNumber \<Rightarrow> (pbft_node \<times> network_message list) res" where
  "pbft_on_view_change nd new_view replica last_committed_seq =
     (let st = pn_state nd in
      if new_view \<le> pb_view st then Inr (nd, [])
      else
        let votes = insert replica (set_at (pb_view_change_votes st) new_view) in
        rbind (pbft_quorum nd) (\<lambda>quorum.
        rbind (pbft_primary_for_view nd new_view) (\<lambda>primary.
        if pn_id nd \<notin> votes then
          let votes' = insert (pn_id nd) votes;
              st1 = st\<lparr>pb_view_change_votes := (pb_view_change_votes st)(new_view \<mapsto> votes')\<rparr>;
              outgoing = broadcast_pbft nd (ViewChange new_view (pn_id nd) (pb_highest_committed_seq st1))
          in if quorum \<le> card votes' \<and> primary = pn_id nd
             then rbind (pbft_lead_new_view nd st1 new_view) (\<lambda>(nd', out). Inr (nd', outgoing @ out))
             else Inr (nd\<lparr>pn_state := st1\<rparr>, outgoing)
        else
          let st1 = st\<lparr>pb_view_change_votes := (pb_view_change_votes st)(new_view \<mapsto> votes)\<rparr>
          in if quorum \<le> card votes \<and> primary = pn_id nd
             then pbft_lead_new_view nd st1 new_view
             else Inr (nd\<lparr>pn_state := st1\<rparr>, []))))"

definition pbft_on_new_view :: "pbft_node \<Rightarrow> ViewNumber \<Rightarrow> SequenceNumber \<Rightarrow> (pbft_node \<times> network_message list) res" where
  "pbft_on_new_view nd new_view next_sequence =
     (let st = pn_state nd in
      if new_view \<le> pb_view st then Inr (nd, [])
      else Inr (nd\<lparr>pn_state := (pbft_enter_new_view st new_view)\<lparr>pb_next_sequence := next_sequence\<rparr>,
                   pn_current_view := new_view\<rparr>, []))"

definition pbft_handle_message :: "pbft_node \<Rightarrow> network_message \<Rightarrow> (pbft_node \<times> network_message list) res" where
  "pbft_handle_message nd msg =
     (case msg_payload msg of
        Pbft m \<Rightarrow>
          (case m of
             PrePrepare v sq d p \<Rightarrow> pbft_on_pre_prepare nd v sq d p
           | Prepare v sq d replica \<Rightarrow> pbft_on_prepare nd v sq d replica
           | Commit v sq d replica \<Rightarrow> pbft_on_commit nd v sq d replica
           | ViewChange new_view replica last_seq \<Rightarrow> pbft_on_view_change nd new_view replica last_seq
           | PbftNewView v next_seq \<Rightarrow> pbft_on_new_view nd v next_seq)
      | Raft _ \<Rightarrow> Inr (nd, [])
      | HotStuff _ \<Rightarrow> Inr (nd, []))"

section \<open>Ticking, polling, the leader\<close>

definition pbft_tick :: "pbft_node \<Rightarrow> (pbft_node \<times> network_message list) res" where
  "pbft_tick nd =
     (let st = pn_state nd in
      rbind (pbft_primary_for_view nd (pb_view st)) (\<lambda>primary.
      if primary = pn_id nd then Inr (nd, [])
      else if pb_view_change_in_progress st then Inr (nd, [])
      else if pb_view_change_timeout st = 0 then
        rbind (add_u64 (pb_view st) 1) (\<lambda>new_view.
        let votes = insert (pn_id nd) (set_at (pb_view_change_votes st) new_view);
            st' = st\<lparr>pb_view_change_in_progress := True,
                     pb_view_change_votes := (pb_view_change_votes st)(new_view \<mapsto> votes)\<rparr>
        in Inr (nd\<lparr>pn_state := st'\<rparr>,
                broadcast_pbft nd (ViewChange new_view (pn_id nd) (pb_highest_committed_seq st))))
      else
        rbind (sub_u64 (pb_view_change_timeout st) 1) (\<lambda>t.
        Inr (nd\<lparr>pn_state := st\<lparr>pb_view_change_timeout := t\<rparr>\<rparr>, []))))"

definition pbft_poll_committed :: "pbft_node \<Rightarrow> pbft_node \<times> committed_entry list" where
  "pbft_poll_committed nd = (nd\<lparr>pn_state := (pn_state nd)\<lparr>pb_committed := []\<rparr>\<rparr>, pb_committed (pn_state nd))"

definition pbft_leader :: "pbft_node \<Rightarrow> node_id option res" where
  "pbft_leader nd = rbind (pbft_primary_for_view nd (pn_current_view nd)) (\<lambda>p. Inr (Some p))"

definition pbft_vtable :: "(u8 list \<Rightarrow> u8 list) \<Rightarrow> pbft_node vtable" where
  "pbft_vtable sha =
     \<lparr>vt_id = pn_id, vt_cluster_size = pn_cluster_size, vt_fault_tolerance = pbft_fault_tolerance,
      vt_peers = pn_peer_ids, vt_propose = pbft_propose sha, vt_handle_message = pbft_handle_message,
      vt_tick = pbft_tick, vt_poll_committed = pbft_poll_committed, vt_leader = pbft_leader\<rparr>"

lemmas pbft_handler_defs =
  pbft_on_pre_prepare_def pbft_on_prepare_def pbft_on_commit_def pbft_on_view_change_def
  pbft_on_new_view_def pbft_commit_slot_def pbft_lead_new_view_def pbft_enter_new_view_def

lemmas pbft_eval =
  pbft_handler_defs pbft_handle_message_def pbft_propose_def pbft_tick_def pbft_poll_committed_def
  pbft_primary_for_view_def pbft_quorum_def pbft_prepare_threshold_def pbft_slot_new_def
  pbft_new_def broadcast_pbft_def broadcast_def arith_res_defs map_retain_def set_at_def Let_def

end
