(* ===== verification/Fault.thy ===== *)
theory Fault
  imports Network
begin

text \<open>
  Fault injection: \<open>src/src/cluster/fault.rs\<close>.  A \<open>FaultConfig\<close> drops messages
  (isolated nodes, partitions, at random) and tampers with the messages of Byzantine nodes.
  Its random generator is a value of the external type \<open>'rng\<close>; every draw returns the
  generator's next state.
\<close>

section \<open>Configuration\<close>

datatype message_phase =
    PbftPrePrepare | PbftPrepare | PbftCommit
  | RaftAppendEntries | RaftRequestVote
  | HotStuffPropose | HotStuffVote | HotStuffQC

datatype byzantine_behavior = CorruptDigest | Equivocate | SelectiveDrop "message_phase list"

record 'rng fault_config =
  fc_drop_rate :: f64
  fc_partitions :: "(node_id \<times> node_id) set"
  fc_isolated_nodes :: "node_id set"
  fc_byzantine_nodes :: "node_id \<rightharpoonup> byzantine_behavior list"
  fc_rng :: 'rng

definition fault_default :: "'rng \<Rightarrow> 'rng fault_config" where
  "fault_default entropy =
     \<lparr>fc_drop_rate = Finite 0, fc_partitions = {}, fc_isolated_nodes = {},
      fc_byzantine_nodes = Map.empty, fc_rng = entropy\<rparr>"

definition fault_with_seed :: "'rng extern \<Rightarrow> u64 \<Rightarrow> 'rng fault_config" where
  "fault_with_seed X seed = fault_default (seed_from_u64 X seed)"

definition with_drop_rate :: "'rng fault_config \<Rightarrow> f64 \<Rightarrow> 'rng fault_config" where
  "with_drop_rate fc rate = fc\<lparr>fc_drop_rate := f64_clamp rate (Finite 0) (Finite 1)\<rparr>"

definition with_partition :: "'rng fault_config \<Rightarrow> node_id \<Rightarrow> node_id \<Rightarrow> 'rng fault_config" where
  "with_partition fc a b = fc\<lparr>fc_partitions := insert (b, a) (insert (a, b) (fc_partitions fc))\<rparr>"

definition with_isolated :: "'rng fault_config \<Rightarrow> node_id \<Rightarrow> 'rng fault_config" where
  "with_isolated fc i = fc\<lparr>fc_isolated_nodes := insert i (fc_isolated_nodes fc)\<rparr>"

definition is_isolated :: "'rng fault_config \<Rightarrow> node_id \<Rightarrow> bool" where
  "is_isolated fc i \<longleftrightarrow> i \<in> fc_isolated_nodes fc"

definition with_byzantine :: "'rng fault_config \<Rightarrow> node_id \<Rightarrow> byzantine_behavior list \<Rightarrow> 'rng fault_config" where
  "with_byzantine fc i bs = fc\<lparr>fc_byzantine_nodes := (fc_byzantine_nodes fc)(i \<mapsto> bs)\<rparr>"

definition is_byzantine :: "'rng fault_config \<Rightarrow> node_id \<Rightarrow> bool" where
  "is_byzantine fc i \<longleftrightarrow> fc_byzantine_nodes fc i \<noteq> None"

section \<open>Delivery\<close>

definition should_deliver :: "'rng extern \<Rightarrow> 'rng fault_config \<Rightarrow> network_message \<Rightarrow> 'rng fault_config \<times> bool" where
  "should_deliver X fc msg =
     (if msg_from msg \<in> fc_isolated_nodes fc \<or> msg_to msg \<in> fc_isolated_nodes fc then (fc, False)
      else if (msg_from msg, msg_to msg) \<in> fc_partitions fc then (fc, False)
      else if f64_less (Finite 0) (fc_drop_rate fc) then
        (case gen_f64 X (fc_rng fc) of
           (roll, rng') \<Rightarrow> (fc\<lparr>fc_rng := rng'\<rparr>, \<not> f64_less roll (fc_drop_rate fc)))
      else (fc, True))"

section \<open>Tampering\<close>

text \<open>\<open>bytes[0] ^= 0xFF\<close> on the 32 bytes of a digest.\<close>

fun flip_first_byte :: "digest \<Rightarrow> digest" where
  "flip_first_byte (Digest (b # bs)) = Digest ((b XOR 255) # bs)"
| "flip_first_byte (Digest []) = Digest []"

fun corrupt_payload_digest :: "protocol_message \<Rightarrow> protocol_message" where
  "corrupt_payload_digest (Pbft (PrePrepare v sq d p)) = Pbft (PrePrepare v sq (flip_first_byte d) p)"
| "corrupt_payload_digest (Pbft (Prepare v sq d i)) = Pbft (Prepare v sq (flip_first_byte d) i)"
| "corrupt_payload_digest (Pbft (Commit v sq d i)) = Pbft (Commit v sq (flip_first_byte d) i)"
| "corrupt_payload_digest (HotStuff (Propose v sq d p jv jp)) = HotStuff (Propose v sq (flip_first_byte d) p jv jp)"
| "corrupt_payload_digest (HotStuff (Vote v sq d ph i)) = HotStuff (Vote v sq (flip_first_byte d) ph i)"
| "corrupt_payload_digest (HotStuff (QuorumCertificate v sq d ph c)) = HotStuff (QuorumCertificate v sq (flip_first_byte d) ph c)"
| "corrupt_payload_digest m = m"

definition corrupt_digest :: "network_message \<Rightarrow> network_message" where
  "corrupt_digest msg = msg\<lparr>msg_payload := corrupt_payload_digest (msg_payload msg)\<rparr>"

fun alt_payload :: "payload \<Rightarrow> payload" where
  "alt_payload (Payload bs) = Payload (bs @ [255])"

fun equivocate_payload :: "(u8 list \<Rightarrow> u8 list) \<Rightarrow> protocol_message \<Rightarrow> protocol_message" where
  "equivocate_payload sha (Pbft (PrePrepare v sq d p)) =
     Pbft (PrePrepare v sq (payload_digest sha (alt_payload p)) (alt_payload p))"
| "equivocate_payload sha (Raft (AppendEntries t l pli plt es lc)) =
     Raft (AppendEntries t l pli plt (map (\<lambda>e. e\<lparr>le_payload := alt_payload (le_payload e)\<rparr>) es) lc)"
| "equivocate_payload sha (HotStuff (Propose v sq d p jv jp)) =
     HotStuff (Propose v sq (payload_digest sha (alt_payload p)) (alt_payload p) jv jp)"
| "equivocate_payload sha m = m"

definition equivocate :: "(u8 list \<Rightarrow> u8 list) \<Rightarrow> network_message \<Rightarrow> network_message list" where
  "equivocate sha msg =
     (if node_num (msg_to msg) mod 2 = 0 then [msg]
      else [msg\<lparr>msg_payload := equivocate_payload sha (msg_payload msg)\<rparr>])"

fun phase_of :: "protocol_message \<Rightarrow> message_phase option" where
  "phase_of (Pbft (PrePrepare v sq d p)) = Some PbftPrePrepare"
| "phase_of (Pbft (Prepare v sq d i)) = Some PbftPrepare"
| "phase_of (Pbft (Commit v sq d i)) = Some PbftCommit"
| "phase_of (Pbft _) = None"
| "phase_of (Raft (AppendEntries t l pli plt es lc)) = Some RaftAppendEntries"
| "phase_of (Raft (RequestVote t c li lt)) = Some RaftRequestVote"
| "phase_of (Raft _) = None"
| "phase_of (HotStuff (Propose v sq d p jv jp)) = Some HotStuffPropose"
| "phase_of (HotStuff (Vote v sq d ph i)) = Some HotStuffVote"
| "phase_of (HotStuff (QuorumCertificate v sq d ph c)) = Some HotStuffQC"
| "phase_of (HotStuff (HsNewView nv hv hp i)) = None"

definition matches_phase :: "network_message \<Rightarrow> message_phase list \<Rightarrow> bool" where
  "matches_phase msg phases =
     (case phase_of (msg_payload msg) of None \<Rightarrow> False | Some ph \<Rightarrow> ph \<in> set phases)"

fun tamper_one :: "(u8 list \<Rightarrow> u8 list) \<Rightarrow> byzantine_behavior \<Rightarrow> network_message \<Rightarrow> network_message list" where
  "tamper_one sha CorruptDigest m = [corrupt_digest m]"
| "tamper_one sha Equivocate m = equivocate sha m"
| "tamper_one sha (SelectiveDrop phases) m = (if matches_phase m phases then [] else [m])"

fun tamper_all :: "(u8 list \<Rightarrow> u8 list) \<Rightarrow> byzantine_behavior list \<Rightarrow> network_message list \<Rightarrow> network_message list" where
  "tamper_all sha [] ms = ms"
| "tamper_all sha (b # bs) ms = tamper_all sha bs (concat (map (tamper_one sha b) ms))"

definition tamper :: "(u8 list \<Rightarrow> u8 list) \<Rightarrow> 'rng fault_config \<Rightarrow> network_message \<Rightarrow> network_message list" where
  "tamper sha fc msg =
     (case fc_byzantine_nodes fc (msg_from msg) of
        None \<Rightarrow> [msg]
      | Some behaviors \<Rightarrow> tamper_all sha behaviors [msg])"

section \<open>What the injector can do\<close>

text \<open>Configurations whose Byzantine nodes at most corrupt digests and drop messages.\<close>

definition no_equivocation :: "'rng fault_config \<Rightarrow> bool" where
  "no_equivocation fc \<longleftrightarrow> (\<forall>i bs. fc_byzantine_nodes fc i = Some bs \<longrightarrow> Equivocate \<notin> set bs)"

lemma no_equivocation_default [simp]: "no_equivocation (fault_default entropy)"
  by (simp add: no_equivocation_def fault_default_def)

lemma no_equivocation_honest: "fc_byzantine_nodes fc = Map.empty \<Longrightarrow> no_equivocation fc"
  by (simp add: no_equivocation_def)

lemma should_deliver_frame:
  "should_deliver X fc msg = (fc', ok) \<Longrightarrow>
     fc_byzantine_nodes fc' = fc_byzantine_nodes fc \<and> fc_isolated_nodes fc' = fc_isolated_nodes fc \<and>
     fc_partitions fc' = fc_partitions fc \<and> fc_drop_rate fc' = fc_drop_rate fc"
  by (auto simp: should_deliver_def split: if_splits prod.splits)

lemma tamper_honest: "\<not> is_byzantine fc (msg_from msg) \<Longrightarrow> tamper sha fc msg = [msg]"
  by (simp add: tamper_def is_byzantine_def)

lemma tamper_one_at_most_one: "length (tamper_one sha b m) \<le> 1"
  by (cases b) (auto simp: equivocate_def)

lemma tamper_one_envelope:
  "x \<in> set (tamper_one sha b m) \<Longrightarrow> msg_from x = msg_from m \<and> msg_to x = msg_to m"
  by (cases b) (auto simp: equivocate_def corrupt_digest_def split: if_splits)

lemma tamper_all_at_most_one:
  "length ms \<le> 1 \<Longrightarrow> length (tamper_all sha bs ms) \<le> 1"
proof (induction bs arbitrary: ms)
  case (Cons b bs)
  have "length (concat (map (tamper_one sha b) ms)) \<le> 1"
    using Cons.prems tamper_one_at_most_one [of sha b] by (cases ms) auto
  from Cons.IH [OF this] show ?case by simp
qed simp

lemma tamper_all_envelope:
  "(\<forall>x\<in>set ms. msg_from x = i \<and> msg_to x = j) \<Longrightarrow> x \<in> set (tamper_all sha bs ms) \<Longrightarrow>
     msg_from x = i \<and> msg_to x = j"
proof (induction bs arbitrary: ms)
  case (Cons b bs)
  then show ?case
    by (auto intro!: Cons.IH [of "concat (map (tamper_one sha b) ms)"] dest!: tamper_one_envelope)
qed simp

lemma tamper_at_most_one: "length (tamper sha fc msg) \<le> 1"
  using tamper_all_at_most_one [of "[msg]"] by (auto simp: tamper_def split: option.splits)

lemma tamper_envelope:
  "x \<in> set (tamper sha fc msg) \<Longrightarrow> msg_from x = msg_from msg \<and> msg_to x = msg_to msg"
  using tamper_all_envelope [of "[msg]" "msg_from msg" "msg_to msg" x sha]
  by (auto simp: tamper_def split: option.splits)

end
