(* ===== verification/CommitLog.thy ===== *)
theory CommitLog
  imports Consensus
begin

text \<open>
  The safety checker: \<open>src/src/cluster/invariant.rs\<close>.  A \<open>HashMap\<close> that the checks
  iterate over is an association list with distinct keys, in the order of the iteration, and the
  set of honest nodes is the list of its elements in the order of the iteration: Rust leaves both
  orders open, so a statement for every list is a statement for every order.
\<close>

record commit_log =
  lg_proposed :: "payload list"
  lg_commits :: "(node_id \<times> committed_entry list) list"

datatype check_result = Pass | Fail string

record invariant_result =
  ir_agreement :: check_result
  ir_validity :: check_result
  ir_integrity :: check_result
  ir_termination :: check_result
  ir_total_order :: check_result

definition commit_log_new :: commit_log where
  "commit_log_new = \<lparr>lg_proposed = [], lg_commits = []\<rparr>"

text \<open>\<open>entry(k).or_default()\<close>: the list stored under a key, empty if absent.\<close>

definition list_at :: "('k \<times> 'a list) list \<Rightarrow> 'k \<Rightarrow> 'a list" where
  "list_at m k = (case map_of m k of None \<Rightarrow> [] | Some xs \<Rightarrow> xs)"

definition record_proposal :: "commit_log \<Rightarrow> payload \<Rightarrow> commit_log" where
  "record_proposal lg p = lg\<lparr>lg_proposed := lg_proposed lg @ [p]\<rparr>"

definition record_commits :: "commit_log \<Rightarrow> node_id \<Rightarrow> committed_entry list \<Rightarrow> commit_log" where
  "record_commits lg i es = lg\<lparr>lg_commits := AList.update i (list_at (lg_commits lg) i @ es) (lg_commits lg)\<rparr>"

fun bytes_of :: "payload \<Rightarrow> u8 list" where
  "bytes_of (Payload bs) = bs"

section \<open>Agreement\<close>

definition agreement_push ::
  "node_id \<Rightarrow> (u64 \<times> (node_id \<times> payload) list) list \<Rightarrow> committed_entry \<Rightarrow> (u64 \<times> (node_id \<times> payload) list) list" where
  "agreement_push i acc e = AList.update (ce_sequence e) (list_at acc (ce_sequence e) @ [(i, ce_payload e)]) acc"

fun agreement_collect ::
  "node_id list \<Rightarrow> (node_id \<times> committed_entry list) list \<Rightarrow> (u64 \<times> (node_id \<times> payload) list) list
     \<Rightarrow> (u64 \<times> (node_id \<times> payload) list) list" where
  "agreement_collect honest [] acc = acc"
| "agreement_collect honest ((i, es) # rest) acc =
     (if i \<notin> set honest then agreement_collect honest rest acc
      else agreement_collect honest rest (foldl (agreement_push i) acc es))"

definition agreement_message :: "u64 \<Rightarrow> node_id \<Rightarrow> payload \<Rightarrow> node_id \<Rightarrow> payload \<Rightarrow> string" where
  "agreement_message sq i p j q =
     ''Agreement violated at sequence '' @ show_nat (unat sq) @ '': node '' @ show_node_id i @
     '' committed '' @ show_bytes (bytes_of p) @ '' but node '' @ show_node_id j @
     '' committed '' @ show_bytes (bytes_of q)"

fun agreement_scan :: "(u64 \<times> (node_id \<times> payload) list) list \<Rightarrow> check_result" where
  "agreement_scan [] = Pass"
| "agreement_scan ((sq, ps) # rest) =
     (case ps of
        first # others \<Rightarrow>
          if others = [] then agreement_scan rest
          else (case find (\<lambda>np. snd np \<noteq> snd first) others of
                  Some (j, q) \<Rightarrow> Fail (agreement_message sq (fst first) (snd first) j q)
                | None \<Rightarrow> agreement_scan rest)
      | [] \<Rightarrow> agreement_scan rest)"

definition check_agreement :: "commit_log \<Rightarrow> node_id list \<Rightarrow> check_result" where
  "check_agreement lg honest = agreement_scan (agreement_collect honest (lg_commits lg) [])"

section \<open>Validity and integrity\<close>

definition validity_message :: "node_id \<Rightarrow> payload \<Rightarrow> string" where
  "validity_message i p =
     ''Validity violated: node '' @ show_node_id i @ '' committed '' @ show_bytes (bytes_of p) @
     '' which was never proposed''"

fun validity_scan :: "payload list \<Rightarrow> node_id list \<Rightarrow> (node_id \<times> committed_entry list) list \<Rightarrow> check_result" where
  "validity_scan proposed honest [] = Pass"
| "validity_scan proposed honest ((i, es) # rest) =
     (if i \<notin> set honest then validity_scan proposed honest rest
      else case find (\<lambda>e. ce_payload e \<notin> set proposed) es of
             Some e \<Rightarrow> Fail (validity_message i (ce_payload e))
           | None \<Rightarrow> validity_scan proposed honest rest)"

definition check_validity :: "commit_log \<Rightarrow> node_id list \<Rightarrow> check_result" where
  "check_validity lg honest = validity_scan (lg_proposed lg) honest (lg_commits lg)"

text \<open>The first entry whose sequence was seen before, with the set \<open>seen\<close> as the loop has it.\<close>

fun first_repeat :: "u64 set \<Rightarrow> committed_entry list \<Rightarrow> u64 option" where
  "first_repeat seen [] = None"
| "first_repeat seen (e # es) =
     (if ce_sequence e \<in> seen then Some (ce_sequence e) else first_repeat (insert (ce_sequence e) seen) es)"

definition integrity_message :: "node_id \<Rightarrow> u64 \<Rightarrow> string" where
  "integrity_message i sq =
     ''Integrity violated: node '' @ show_node_id i @ '' committed sequence '' @ show_nat (unat sq) @
     '' more than once''"

fun integrity_scan :: "node_id list \<Rightarrow> (node_id \<times> committed_entry list) list \<Rightarrow> check_result" where
  "integrity_scan honest [] = Pass"
| "integrity_scan honest ((i, es) # rest) =
     (if i \<notin> set honest then integrity_scan honest rest
      else case first_repeat {} es of
             Some sq \<Rightarrow> Fail (integrity_message i sq)
           | None \<Rightarrow> integrity_scan honest rest)"

definition check_integrity :: "commit_log \<Rightarrow> node_id list \<Rightarrow> check_result" where
  "check_integrity lg honest = integrity_scan honest (lg_commits lg)"

section \<open>Termination and total order\<close>

definition termination_message :: "node_id \<Rightarrow> usize \<Rightarrow> usize \<Rightarrow> string" where
  "termination_message i count expected =
     ''Termination violated: honest node '' @ show_node_id i @ '' committed '' @ show_nat count @
     '' entries, expected '' @ show_nat expected"

definition commit_count :: "commit_log \<Rightarrow> node_id \<Rightarrow> usize" where
  "commit_count lg i = (case map_of (lg_commits lg) i of None \<Rightarrow> 0 | Some es \<Rightarrow> length es)"

definition check_termination :: "commit_log \<Rightarrow> usize \<Rightarrow> node_id list \<Rightarrow> check_result" where
  "check_termination lg expected honest =
     (case find (\<lambda>i. commit_count lg i \<noteq> expected) honest of
        Some i \<Rightarrow> Fail (termination_message i (commit_count lg i) expected)
      | None \<Rightarrow> Pass)"

definition orderings :: "commit_log \<Rightarrow> node_id list \<Rightarrow> (node_id \<times> u64 list) list" where
  "orderings lg honest =
     List.map_filter (\<lambda>i. map_option (\<lambda>es. (i, map ce_sequence es)) (map_of (lg_commits lg) i)) honest"

definition total_order_message :: "node_id \<Rightarrow> u64 \<Rightarrow> usize \<Rightarrow> node_id \<Rightarrow> u64 \<Rightarrow> string" where
  "total_order_message i a k j b =
     ''Total order violated: node '' @ show_node_id i @ '' has sequence '' @ show_nat (unat a) @
     '' at position '' @ show_nat k @ '' but node '' @ show_node_id j @ '' has sequence '' @
     show_nat (unat b) @ '' at that position''"

fun total_order_scan :: "node_id \<times> u64 list \<Rightarrow> (node_id \<times> u64 list) list \<Rightarrow> check_result" where
  "total_order_scan ref [] = Pass"
| "total_order_scan ref ((j, ord) # rest) =
     (case find (\<lambda>k. snd ref ! k \<noteq> ord ! k) [0..<min (length (snd ref)) (length ord)] of
        Some k \<Rightarrow> Fail (total_order_message (fst ref) (snd ref ! k) k j (ord ! k))
      | None \<Rightarrow> total_order_scan ref rest)"

definition check_total_order :: "commit_log \<Rightarrow> node_id list \<Rightarrow> check_result" where
  "check_total_order lg honest =
     (case orderings lg honest of
        [] \<Rightarrow> Pass
      | ref # others \<Rightarrow> if others = [] then Pass else total_order_scan ref others)"

definition check_log :: "commit_log \<Rightarrow> usize \<Rightarrow> node_id list \<Rightarrow> invariant_result" where
  "check_log lg expected honest =
     \<lparr>ir_agreement = check_agreement lg honest,
      ir_validity = check_validity lg honest,
      ir_integrity = check_integrity lg honest,
      ir_termination = check_termination lg expected honest,
      ir_total_order = check_total_order lg honest\<rparr>"

end
