(* ===== verification/Cluster.thy ===== *)
theory Cluster
  imports Fault CommitLog
begin

text \<open>
  The orchestrator: \<open>src/src/cluster/mod.rs\<close>.  A cluster is a list of nodes of one
  protocol (their trait object is the method table \<open>vt\<close>), a queue of messages, a fault
  configuration, counters and the commit log.  \<open>step\<close> delivers everything that is pending,
  one message after the other in queue order, and queues what the nodes answer.
\<close>

section \<open>State\<close>

record cluster_stats =
  cs_messages_sent :: u64
  cs_messages_delivered :: u64
  cs_messages_dropped :: u64
  cs_messages_tampered :: u64
  cs_total_steps :: u64

definition cluster_stats_default :: cluster_stats where
  "cluster_stats_default =
     \<lparr>cs_messages_sent = 0, cs_messages_delivered = 0, cs_messages_dropped = 0,
      cs_messages_tampered = 0, cs_total_steps = 0\<rparr>"

record ('n, 'rng) cluster =
  cl_nodes :: "'n list"
  cl_pending :: "network_message list"
  cl_faults :: "'rng fault_config"
  cl_stats :: cluster_stats
  cl_commit_log :: commit_log

definition cluster_of :: "'n list \<Rightarrow> 'rng fault_config \<Rightarrow> ('n, 'rng) cluster" where
  "cluster_of nodes faults =
     \<lparr>cl_nodes = nodes, cl_pending = [], cl_faults = faults, cl_stats = cluster_stats_default,
      cl_commit_log = commit_log_new\<rparr>"

definition set_faults :: "('n, 'rng) cluster \<Rightarrow> 'rng fault_config \<Rightarrow> ('n, 'rng) cluster" where
  "set_faults c faults = c\<lparr>cl_faults := faults\<rparr>"

definition clear_faults :: "'rng \<Rightarrow> ('n, 'rng) cluster \<Rightarrow> ('n, 'rng) cluster" where
  "clear_faults entropy c = c\<lparr>cl_faults := fault_default entropy\<rparr>"

definition enqueue :: "('n, 'rng) cluster \<Rightarrow> network_message list \<Rightarrow> ('n, 'rng) cluster" where
  "enqueue c ms = c\<lparr>cl_pending := cl_pending c @ ms\<rparr>"

text \<open>\<open>self.nodes.iter().position(|n| n.id() == i)\<close>.\<close>

fun node_position :: "'n vtable \<Rightarrow> 'n list \<Rightarrow> node_id \<Rightarrow> nat option" where
  "node_position vt [] i = None"
| "node_position vt (nd # nds) i =
     (if vt_id vt nd = i then Some 0 else map_option Suc (node_position vt nds i))"

section \<open>Proposing\<close>

text \<open>The loop over the node indices that are left to try.\<close>

fun propose_loop ::
  "'n vtable \<Rightarrow> ('n, 'rng) cluster \<Rightarrow> payload \<Rightarrow> nat list \<Rightarrow> (('n, 'rng) cluster \<times> propose_result) res" where
  "propose_loop vt c p [] = Inr (c, NotLeader None)"
| "propose_loop vt c p (i # is) =
     (let nd = cl_nodes c ! i in
      if is_isolated (cl_faults c) (vt_id vt nd) then propose_loop vt c p is
      else
        rbind (vt_propose vt nd p) (\<lambda>(nd', result, outgoing).
        let c1 = c\<lparr>cl_nodes := (cl_nodes c)[i := nd']\<rparr> in
        case result of
          Accepted \<Rightarrow> Inr (enqueue c1 outgoing, Accepted)
        | NotLeader None \<Rightarrow> propose_loop vt c1 p is
        | NotLeader (Some leader) \<Rightarrow>
            (case node_position vt (cl_nodes c1) leader of
               None \<Rightarrow> propose_loop vt c1 p is
             | Some idx \<Rightarrow>
                 rbind (vt_propose vt (cl_nodes c1 ! idx) p) (\<lambda>(nd2, r, out).
                 Inr (enqueue (c1\<lparr>cl_nodes := (cl_nodes c1)[idx := nd2]\<rparr>) out, r)))))"

definition cluster_propose ::
  "'n vtable \<Rightarrow> ('n, 'rng) cluster \<Rightarrow> payload \<Rightarrow> (('n, 'rng) cluster \<times> propose_result) res" where
  "cluster_propose vt c p =
     propose_loop vt (c\<lparr>cl_commit_log := record_proposal (cl_commit_log c) p\<rparr>) p [0..<length (cl_nodes c)]"

section \<open>Delivering\<close>

text \<open>Counters: each \<open>+= 1\<close> on a statistic.\<close>

definition count_sent :: "('n, 'rng) cluster \<Rightarrow> ('n, 'rng) cluster res" where
  "count_sent c = rbind (add_u64 (cs_messages_sent (cl_stats c)) 1)
     (\<lambda>k. Inr (c\<lparr>cl_stats := (cl_stats c)\<lparr>cs_messages_sent := k\<rparr>\<rparr>))"

definition count_dropped :: "('n, 'rng) cluster \<Rightarrow> ('n, 'rng) cluster res" where
  "count_dropped c = rbind (add_u64 (cs_messages_dropped (cl_stats c)) 1)
     (\<lambda>k. Inr (c\<lparr>cl_stats := (cl_stats c)\<lparr>cs_messages_dropped := k\<rparr>\<rparr>))"

definition count_delivered :: "('n, 'rng) cluster \<Rightarrow> ('n, 'rng) cluster res" where
  "count_delivered c = rbind (add_u64 (cs_messages_delivered (cl_stats c)) 1)
     (\<lambda>k. Inr (c\<lparr>cl_stats := (cl_stats c)\<lparr>cs_messages_delivered := k\<rparr>\<rparr>))"

definition count_tampered :: "('n, 'rng) cluster \<Rightarrow> ('n, 'rng) cluster res" where
  "count_tampered c = rbind (add_u64 (cs_messages_tampered (cl_stats c)) 1)
     (\<lambda>k. Inr (c\<lparr>cl_stats := (cl_stats c)\<lparr>cs_messages_tampered := k\<rparr>\<rparr>))"

definition count_step :: "('n, 'rng) cluster \<Rightarrow> ('n, 'rng) cluster res" where
  "count_step c = rbind (add_u64 (cs_total_steps (cl_stats c)) 1)
     (\<lambda>k. Inr (c\<lparr>cl_stats := (cl_stats c)\<lparr>cs_total_steps := k\<rparr>\<rparr>))"

text \<open>The inner loop of \<open>step\<close>, over the messages tampering left.\<close>

fun deliver_tampered ::
  "'n vtable \<Rightarrow> bool \<Rightarrow> ('n, 'rng) cluster \<Rightarrow> network_message list \<Rightarrow> (('n, 'rng) cluster \<times> network_message list) res" where
  "deliver_tampered vt is_byz c [] = Inr (c, [])"
| "deliver_tampered vt is_byz c (m # ms) =
     rbind (if is_byz then count_tampered c else Inr c) (\<lambda>c1.
     case node_position vt (cl_nodes c1) (msg_to m) of
       None \<Rightarrow> deliver_tampered vt is_byz c1 ms
     | Some idx \<Rightarrow>
         rbind (count_delivered c1) (\<lambda>c2.
         rbind (vt_handle_message vt (cl_nodes c2 ! idx) m) (\<lambda>(nd', outgoing).
         rbind (deliver_tampered vt is_byz (c2\<lparr>cl_nodes := (cl_nodes c2)[idx := nd']\<rparr>) ms) (\<lambda>(c3, out).
         Inr (c3, outgoing @ out)))))"

text \<open>The body of the outer loop: one message that was pending.\<close>

definition deliver_one ::
  "'rng extern \<Rightarrow> 'n vtable \<Rightarrow> ('n, 'rng) cluster \<Rightarrow> network_message \<Rightarrow> (('n, 'rng) cluster \<times> network_message list) res" where
  "deliver_one X vt c msg =
     rbind (count_sent c) (\<lambda>c1.
     case should_deliver X (cl_faults c1) msg of (faults', ok) \<Rightarrow>
       let c2 = c1\<lparr>cl_faults := faults'\<rparr> in
       if \<not> ok then rbind (count_dropped c2) (\<lambda>c3. Inr (c3, []))
       else
         let is_byz = is_byzantine (cl_faults c2) (msg_from msg);
             tampered = tamper (sha256 X) (cl_faults c2) msg
         in if tampered = [] then rbind (count_dropped c2) (\<lambda>c3. Inr (c3, []))
            else deliver_tampered vt is_byz c2 tampered)"

fun deliver_all ::
  "'rng extern \<Rightarrow> 'n vtable \<Rightarrow> ('n, 'rng) cluster \<Rightarrow> network_message list \<Rightarrow> (('n, 'rng) cluster \<times> network_message list) res" where
  "deliver_all X vt c [] = Inr (c, [])"
| "deliver_all X vt c (m # ms) =
     rbind (deliver_one X vt c m) (\<lambda>(c1, out).
     rbind (deliver_all X vt c1 ms) (\<lambda>(c2, out'). Inr (c2, out @ out')))"

definition cluster_step :: "'rng extern \<Rightarrow> 'n vtable \<Rightarrow> ('n, 'rng) cluster \<Rightarrow> ('n, 'rng) cluster res" where
  "cluster_step X vt c =
     rbind (deliver_all X vt (c\<lparr>cl_pending := []\<rparr>) (cl_pending c)) (\<lambda>(c1, new_messages).
     rbind (count_step c1) (\<lambda>c2.
     Inr (enqueue c2 new_messages)))"

text \<open>The loop \<open>while !pending.is_empty() && steps < max_steps\<close>; the result counts the steps.\<close>

fun run_to_completion :: "'rng extern \<Rightarrow> 'n vtable \<Rightarrow> ('n, 'rng) cluster \<Rightarrow> usize \<Rightarrow> (('n, 'rng) cluster \<times> usize) res" where
  "run_to_completion X vt c 0 = Inr (c, 0)"
| "run_to_completion X vt c (Suc k) =
     (if cl_pending c = [] then Inr (c, 0)
      else rbind (cluster_step X vt c) (\<lambda>c1.
           rbind (run_to_completion X vt c1 k) (\<lambda>(c2, steps). Inr (c2, Suc steps))))"

section \<open>Ticking, collecting, checking\<close>

fun tick_loop :: "'n vtable \<Rightarrow> ('n, 'rng) cluster \<Rightarrow> nat list \<Rightarrow> ('n, 'rng) cluster res" where
  "tick_loop vt c [] = Inr c"
| "tick_loop vt c (i # is) =
     rbind (vt_tick vt (cl_nodes c ! i)) (\<lambda>(nd', outgoing).
     tick_loop vt (enqueue (c\<lparr>cl_nodes := (cl_nodes c)[i := nd']\<rparr>) outgoing) is)"

definition cluster_tick :: "'n vtable \<Rightarrow> ('n, 'rng) cluster \<Rightarrow> ('n, 'rng) cluster res" where
  "cluster_tick vt c = tick_loop vt c [0..<length (cl_nodes c)]"

fun collect_loop ::
  "'n vtable \<Rightarrow> bool \<Rightarrow> ('n, 'rng) cluster \<Rightarrow> nat list \<Rightarrow> ('n, 'rng) cluster \<times> (node_id \<times> committed_entry list) list" where
  "collect_loop vt recording c [] = (c, [])"
| "collect_loop vt recording c (i # is) =
     (case vt_poll_committed vt (cl_nodes c ! i) of
        (nd', es) \<Rightarrow>
          let me = vt_id vt nd';
              c1 = c\<lparr>cl_nodes := (cl_nodes c)[i := nd']\<rparr>
          in if es = [] then collect_loop vt recording c1 is
             else let c2 = (if recording
                            then c1\<lparr>cl_commit_log := record_commits (cl_commit_log c1) me es\<rparr> else c1)
                  in case collect_loop vt recording c2 is of (c3, results) \<Rightarrow> (c3, (me, es) # results))"

definition collect_committed ::
  "'n vtable \<Rightarrow> ('n, 'rng) cluster \<Rightarrow> ('n, 'rng) cluster \<times> (node_id \<times> committed_entry list) list" where
  "collect_committed vt c = collect_loop vt False c [0..<length (cl_nodes c)]"

definition collect_and_record_commits ::
  "'n vtable \<Rightarrow> ('n, 'rng) cluster \<Rightarrow> ('n, 'rng) cluster \<times> (node_id \<times> committed_entry list) list" where
  "collect_and_record_commits vt c = collect_loop vt True c [0..<length (cl_nodes c)]"

definition honest_nodes :: "('n, 'rng) cluster \<Rightarrow> node_id list" where
  "honest_nodes c =
     filter (\<lambda>i. \<not> is_byzantine (cl_faults c) i \<and> \<not> is_isolated (cl_faults c) i) (node_ids (length (cl_nodes c)))"

text \<open>
  The honest nodes are collected into a hash set; \<open>iter\<close> is the order in which that set
  yields its elements, a permutation Rust leaves open.
\<close>

definition check_invariants ::
  "(node_id list \<Rightarrow> node_id list) \<Rightarrow> ('n, 'rng) cluster \<Rightarrow> usize \<Rightarrow> invariant_result" where
  "check_invariants iter c expected = check_log (cl_commit_log c) expected (iter (honest_nodes c))"

fun find_leader :: "'n vtable \<Rightarrow> 'rng fault_config \<Rightarrow> 'n list \<Rightarrow> node_id option res" where
  "find_leader vt faults [] = Inr None"
| "find_leader vt faults (nd # nds) =
     rbind (vt_is_leader vt nd) (\<lambda>l.
     if l \<and> \<not> is_isolated faults (vt_id vt nd) then Inr (Some (vt_id vt nd)) else find_leader vt faults nds)"

fun wait_for_leader ::
  "'rng extern \<Rightarrow> 'n vtable \<Rightarrow> ('n, 'rng) cluster \<Rightarrow> usize \<Rightarrow> (('n, 'rng) cluster \<times> node_id option) res" where
  "wait_for_leader X vt c 0 = Inr (c, None)"
| "wait_for_leader X vt c (Suc k) =
     rbind (cluster_tick vt c) (\<lambda>c1.
     rbind (run_to_completion X vt c1 100) (\<lambda>(c2, steps).
     rbind (find_leader vt (cl_faults c2) (cl_nodes c2)) (\<lambda>l.
     case l of Some i \<Rightarrow> Inr (c2, Some i) | None \<Rightarrow> wait_for_leader X vt c2 k)))"

definition cluster_size :: "('n, 'rng) cluster \<Rightarrow> usize" where
  "cluster_size c = length (cl_nodes c)"

end
