(* ===== verification/CheckSpec.thy ===== *)
theory CheckSpec
  imports CommitLog
begin

text \<open>
  What the five checks decide.  Each is an executable scan over association lists; the abstract
  specification of each is a sentence about the set of commits, and the lemmas show that a check
  passes exactly when its sentence holds, for every order in which the log and the set of honest
  nodes may be iterated.  The exception is the total-order check, which compares every node with
  the first one only: it is characterised by what it compares.
\<close>

section \<open>The sentences\<close>

definition log_entry_of :: "commit_log \<Rightarrow> node_id \<Rightarrow> committed_entry \<Rightarrow> bool" where
  "log_entry_of lg i e \<longleftrightarrow> (\<exists>es. (i, es) \<in> set (lg_commits lg) \<and> e \<in> set es)"

definition log_agreement :: "commit_log \<Rightarrow> node_id set \<Rightarrow> bool" where
  "log_agreement lg H \<longleftrightarrow>
     (\<forall>i\<in>H. \<forall>j\<in>H. \<forall>e e'. log_entry_of lg i e \<longrightarrow> log_entry_of lg j e' \<longrightarrow>
        ce_sequence e = ce_sequence e' \<longrightarrow> ce_payload e = ce_payload e')"

definition log_validity :: "commit_log \<Rightarrow> node_id set \<Rightarrow> bool" where
  "log_validity lg H \<longleftrightarrow> (\<forall>i\<in>H. \<forall>e. log_entry_of lg i e \<longrightarrow> ce_payload e \<in> set (lg_proposed lg))"

definition log_integrity :: "commit_log \<Rightarrow> node_id set \<Rightarrow> bool" where
  "log_integrity lg H \<longleftrightarrow> (\<forall>(i, es)\<in>set (lg_commits lg). i \<in> H \<longrightarrow> distinct (map ce_sequence es))"

definition log_termination :: "commit_log \<Rightarrow> usize \<Rightarrow> node_id set \<Rightarrow> bool" where
  "log_termination lg expected H \<longleftrightarrow> (\<forall>i\<in>H. commit_count lg i = expected)"

text \<open>Two orderings agree wherever both have a position.\<close>

definition orders_agree :: "u64 list \<Rightarrow> u64 list \<Rightarrow> bool" where
  "orders_agree xs ys \<longleftrightarrow> (\<forall>k < min (length xs) (length ys). xs ! k = ys ! k)"

section \<open>Agreement\<close>

lemma list_at_update: "list_at (AList.update k v m) k' = (if k' = k then v else list_at m k')"
  by (simp add: list_at_def map_of_update)

lemma list_at_eq_Some: "map_of m k = Some xs \<Longrightarrow> list_at m k = xs"
  by (simp add: list_at_def)

lemma list_at_all: "P [] \<Longrightarrow> (\<forall>xs. map_of m k = Some xs \<longrightarrow> P xs) \<longleftrightarrow> P (list_at m k)"
  by (cases "map_of m k") (simp_all add: list_at_def)

lemma list_at_push:
  "list_at (foldl (agreement_push i) acc es) sq =
     list_at acc sq @ map (\<lambda>e. (i, ce_payload e)) (filter (\<lambda>e. ce_sequence e = sq) es)"
  by (induction es arbitrary: acc) (simp_all add: agreement_push_def list_at_update)

lemma distinct_push:
  "distinct (map fst acc) \<Longrightarrow> distinct (map fst (foldl (agreement_push i) acc es))"
  by (induction es arbitrary: acc) (simp_all add: agreement_push_def distinct_update)

lemma distinct_collect:
  "distinct (map fst acc) \<Longrightarrow> distinct (map fst (agreement_collect honest commits acc))"
  by (induction honest commits acc rule: agreement_collect.induct) (simp_all add: distinct_push)

lemma set_list_at_collect:
  "(i, p) \<in> set (list_at (agreement_collect honest commits acc) sq) \<longleftrightarrow>
     (i, p) \<in> set (list_at acc sq) \<or>
     i \<in> set honest \<and> (\<exists>es. (i, es) \<in> set commits \<and> (\<exists>e\<in>set es. ce_sequence e = sq \<and> ce_payload e = p))"
proof (induction honest commits acc rule: agreement_collect.induct)
  case (2 honest j es rest acc)
  show ?case
    by (cases "j \<in> set honest") (use 2 in \<open>auto simp: list_at_push\<close>)
qed simp

text \<open>All payloads recorded for a sequence number are the same.\<close>

definition uniform :: "(node_id \<times> payload) list \<Rightarrow> bool" where
  "uniform xs \<longleftrightarrow> (\<forall>x\<in>set xs. \<forall>y\<in>set xs. snd x = snd y)"

lemma uniform_Nil [simp]: "uniform []"
  by (simp add: uniform_def)

lemma uniform_Cons [simp]: "uniform (x # xs) \<longleftrightarrow> find (\<lambda>np. snd np \<noteq> snd x) xs = None"
proof -
  have "uniform (x # xs) \<longleftrightarrow> (\<forall>y\<in>set xs. snd y = snd x)"
  proof
    assume "uniform (x # xs)"
    then show "\<forall>y\<in>set xs. snd y = snd x"
      unfolding uniform_def by (meson list.set_intros)
  next
    assume "\<forall>y\<in>set xs. snd y = snd x"
    then have eq: "snd y = snd x" if "y \<in> set (x # xs)" for y using that by auto
    show "uniform (x # xs)"
      unfolding uniform_def by (intro ballI, rule trans [OF eq eq [symmetric]])
  qed
  then show ?thesis by (auto simp: find_None_iff)
qed

lemma agreement_scan_Pass: "agreement_scan acc = Pass \<longleftrightarrow> (\<forall>x\<in>set acc. uniform (snd x))"
proof (induction acc)
  case (Cons a rest)
  obtain sq xs where a: "a = (sq, xs)" by (cases a)
  show ?case
  proof (cases xs)
    case Nil
    then show ?thesis using Cons a by simp
  next
    case (Cons x others)
    then show ?thesis
      using \<open>agreement_scan rest = Pass \<longleftrightarrow> _\<close> a
      by (cases "others = []"; cases "find (\<lambda>np. snd np \<noteq> snd x) others") auto
  qed
qed simp

lemma check_agreement_Pass: "check_agreement lg honest = Pass \<longleftrightarrow> log_agreement lg (set honest)"
proof -
  let ?acc = "agreement_collect honest (lg_commits lg) []"
  have "distinct (map fst ?acc)" by (simp add: distinct_collect)
  then have mem: "(sq, xs) \<in> set ?acc \<longleftrightarrow> map_of ?acc sq = Some xs" for sq xs by simp
  have at: "(i, p) \<in> set (list_at ?acc sq) \<longleftrightarrow>
      i \<in> set honest \<and> (\<exists>e. log_entry_of lg i e \<and> ce_sequence e = sq \<and> ce_payload e = p)" for i p sq
    by (subst set_list_at_collect) (auto simp: list_at_def log_entry_of_def)
  have "check_agreement lg honest = Pass \<longleftrightarrow> (\<forall>sq xs. map_of ?acc sq = Some xs \<longrightarrow> uniform xs)"
    unfolding check_agreement_def agreement_scan_Pass Ball_def [of "set ?acc"] split_paired_All mem by simp
  also have "\<dots> \<longleftrightarrow> (\<forall>sq. uniform (list_at ?acc sq))"
    by (simp only: list_at_all [of uniform, OF uniform_Nil])
  also have "\<dots> \<longleftrightarrow> log_agreement lg (set honest)"
    unfolding log_agreement_def uniform_def Ball_def split_paired_All at by (simp, blast)
  finally show ?thesis .
qed

section \<open>Validity, integrity, termination\<close>

lemma validity_scan_Pass:
  "validity_scan proposed honest commits = Pass \<longleftrightarrow>
     (\<forall>(i, es)\<in>set commits. i \<in> set honest \<longrightarrow> (\<forall>e\<in>set es. ce_payload e \<in> set proposed))"
  by (induction proposed honest commits rule: validity_scan.induct)
    (auto split: option.splits simp: find_None_iff find_Some_iff)

lemma check_validity_Pass: "check_validity lg honest = Pass \<longleftrightarrow> log_validity lg (set honest)"
  unfolding check_validity_def validity_scan_Pass log_validity_def log_entry_of_def by fast

lemma first_repeat_None: "first_repeat seen es = None \<longleftrightarrow>
     distinct (map ce_sequence es) \<and> seen \<inter> ce_sequence ` set es = {}"
  by (induction seen es rule: first_repeat.induct) auto

lemma check_integrity_Pass: "check_integrity lg honest = Pass \<longleftrightarrow> log_integrity lg (set honest)"
proof -
  have "integrity_scan honest commits = Pass \<longleftrightarrow>
      (\<forall>(i, es)\<in>set commits. i \<in> set honest \<longrightarrow> distinct (map ce_sequence es))" for commits
  proof (induction honest commits rule: integrity_scan.induct)
    case (2 honest i es rest)
    then show ?case
      using first_repeat_None [of "{}" es] by (auto split: option.splits)
  qed simp
  then show ?thesis by (simp add: check_integrity_def log_integrity_def)
qed

lemma check_termination_Pass:
  "check_termination lg expected honest = Pass \<longleftrightarrow> log_termination lg expected (set honest)"
  by (auto simp: check_termination_def log_termination_def find_None_iff find_Some_iff split: option.splits)

section \<open>Total order\<close>

lemma total_order_scan_Pass:
  "total_order_scan ref ords = Pass \<longleftrightarrow> (\<forall>(j, ord)\<in>set ords. orders_agree (snd ref) ord)"
  by (induction ref ords rule: total_order_scan.induct)
    (auto split: option.splits simp: find_None_iff find_Some_iff orders_agree_def)

lemma check_total_order_Pass:
  "check_total_order lg honest = Pass \<longleftrightarrow>
     (\<forall>(j, ord)\<in>set (tl (orderings lg honest)). orders_agree (snd (hd (orderings lg honest))) ord)"
  by (auto simp: check_total_order_def total_order_scan_Pass split: list.splits)

text \<open>Pairwise agreement of all orderings is enough for the check to pass.\<close>

lemma check_total_order_PassI:
  assumes "\<And>i xs j ys. (i, xs) \<in> set (orderings lg honest) \<Longrightarrow> (j, ys) \<in> set (orderings lg honest) \<Longrightarrow>
    orders_agree xs ys"
  shows "check_total_order lg honest = Pass"
proof (cases "orderings lg honest")
  case Nil
  then show ?thesis by (simp add: check_total_order_def)
next
  case (Cons ref others)
  have "orders_agree (snd ref) ord" if "(j, ord) \<in> set others" for j ord
    using assms [of "fst ref" "snd ref" j ord] that Cons by simp
  then show ?thesis using Cons by (auto simp: check_total_order_Pass)
qed

section \<open>Recording\<close>

lemma log_entry_of_iff:
  assumes "distinct (map fst (lg_commits lg))"
  shows "log_entry_of lg i e \<longleftrightarrow> e \<in> set (list_at (lg_commits lg) i)"
proof -
  have "(i, es) \<in> set (lg_commits lg) \<longleftrightarrow> map_of (lg_commits lg) i = Some es" for es
    using assms by simp
  then show ?thesis by (cases "map_of (lg_commits lg) i") (simp_all add: log_entry_of_def list_at_def)
qed

lemma record_commits_entries:
  "distinct (map fst (lg_commits lg)) \<Longrightarrow>
     log_entry_of (record_commits lg i es) j e \<longleftrightarrow> log_entry_of lg j e \<or> j = i \<and> e \<in> set es"
  using log_entry_of_iff [of lg j e] log_entry_of_iff [of "record_commits lg i es" j e]
  by (auto simp: record_commits_def distinct_update list_at_update)

lemma record_commits_distinct:
  "distinct (map fst (lg_commits lg)) \<Longrightarrow> distinct (map fst (lg_commits (record_commits lg i es)))"
  by (simp add: record_commits_def distinct_update)

lemma record_commits_proposed [simp]: "lg_proposed (record_commits lg i es) = lg_proposed lg"
  by (simp add: record_commits_def)

lemma record_proposal_simps [simp]:
  "lg_proposed (record_proposal lg p) = lg_proposed lg @ [p]"
  "lg_commits (record_proposal lg p) = lg_commits lg"
  by (simp_all add: record_proposal_def)

lemma log_entry_record_proposal [simp]: "log_entry_of (record_proposal lg p) i e = log_entry_of lg i e"
  by (simp add: log_entry_of_def)

end
