(* ===== verification/AsyncNet.thy ===== *)
theory AsyncNet
  imports Consensus Fault "HOL-Library.Sublist"
begin

text \<open>
  The asynchronous system the cluster's simulation is one schedule of: nodes with identifiers
  from a set, and every message ever sent.  A step is one atomic method call of one node:
  a proposal, the delivery of any message sent before (late, again, or never), a tick or a
  poll; or the corruption of the digest in a copy of a message.  Two ghost components record what the properties speak about: the entries each node
  decided, in order and with the view they were decided in, and the payloads clients proposed.
\<close>

record 'n net =
  nt_nodes :: "node_id \<Rightarrow> 'n"
  nt_sent :: "network_message set"
  nt_decided :: "node_id \<Rightarrow> (ViewNumber \<times> committed_entry) list"
  nt_proposed :: "payload set"

definition net_init :: "(node_id \<Rightarrow> 'n) \<Rightarrow> 'n net" where
  "net_init nodes = \<lparr>nt_nodes = nodes, nt_sent = {}, nt_decided = (\<lambda>i. []), nt_proposed = {}\<rparr>"

text \<open>The entries one call added to a node's list of committed entries.\<close>

definition fresh_entries :: "('n \<Rightarrow> committed_entry list) \<Rightarrow> 'n \<Rightarrow> 'n \<Rightarrow> committed_entry list" where
  "fresh_entries committed nd nd' = drop (length (committed nd)) (committed nd')"

text \<open>
  The rules take the method table, the identifiers, and two observers of a node: its view and
  the entries it committed and has not handed out.  The first parameter says whether timers run:
  without them no node ever ticks.
\<close>

inductive net_step ::
  "bool \<Rightarrow> 'n vtable \<Rightarrow> node_id set \<Rightarrow> ('n \<Rightarrow> ViewNumber) \<Rightarrow> ('n \<Rightarrow> committed_entry list) \<Rightarrow> 'n net \<Rightarrow> 'n net \<Rightarrow> bool"
  for timers :: bool and vt :: "'n vtable" and ids :: "node_id set" and view :: "'n \<Rightarrow> ViewNumber"
    and committed :: "'n \<Rightarrow> committed_entry list" where
  net_propose:
    "i \<in> ids \<Longrightarrow> vt_propose vt (nt_nodes s i) p = Inr (nd', r, out) \<Longrightarrow>
     net_step timers vt ids view committed s
       (s\<lparr>nt_nodes := (nt_nodes s)(i := nd'), nt_sent := nt_sent s \<union> set out,
          nt_proposed := insert p (nt_proposed s)\<rparr>)"
| net_deliver:
    "i \<in> ids \<Longrightarrow> m \<in> nt_sent s \<Longrightarrow> vt_handle_message vt (nt_nodes s i) m = Inr (nd', out) \<Longrightarrow>
     net_step timers vt ids view committed s
       (s\<lparr>nt_nodes := (nt_nodes s)(i := nd'), nt_sent := nt_sent s \<union> set out,
          nt_decided := (nt_decided s)(i := nt_decided s i @
            map (Pair (view (nt_nodes s i))) (fresh_entries committed (nt_nodes s i) nd'))\<rparr>)"
| net_tick:
    "timers \<Longrightarrow> i \<in> ids \<Longrightarrow> vt_tick vt (nt_nodes s i) = Inr (nd', out) \<Longrightarrow>
     net_step timers vt ids view committed s
       (s\<lparr>nt_nodes := (nt_nodes s)(i := nd'), nt_sent := nt_sent s \<union> set out\<rparr>)"
| net_poll:
    "i \<in> ids \<Longrightarrow> vt_poll_committed vt (nt_nodes s i) = (nd', es) \<Longrightarrow>
     net_step timers vt ids view committed s (s\<lparr>nt_nodes := (nt_nodes s)(i := nd')\<rparr>)"
| net_corrupt:
    "m \<in> nt_sent s \<Longrightarrow>
     net_step timers vt ids view committed s (s\<lparr>nt_sent := insert (corrupt_digest m) (nt_sent s)\<rparr>)"

text \<open>The states of the system: those some number of steps leads to from a start state.\<close>

inductive net_reach ::
  "bool \<Rightarrow> 'n vtable \<Rightarrow> node_id set \<Rightarrow> ('n \<Rightarrow> ViewNumber) \<Rightarrow> ('n \<Rightarrow> committed_entry list) \<Rightarrow> 'n net \<Rightarrow> 'n net \<Rightarrow> bool"
  for timers :: bool and vt :: "'n vtable" and ids :: "node_id set" and view :: "'n \<Rightarrow> ViewNumber"
    and committed :: "'n \<Rightarrow> committed_entry list" where
  net_refl [intro!, simp]: "net_reach timers vt ids view committed s s"
| net_more: "net_reach timers vt ids view committed s t \<Longrightarrow> net_step timers vt ids view committed t u \<Longrightarrow>
     net_reach timers vt ids view committed s u"

lemma net_reach_step: "net_step timers vt ids view committed s t \<Longrightarrow> net_reach timers vt ids view committed s t"
  by (rule net_more [OF net_refl])

lemma net_reach_trans:
  "net_reach timers vt ids view committed t u \<Longrightarrow> net_reach timers vt ids view committed s t \<Longrightarrow>
     net_reach timers vt ids view committed s u"
  by (induction rule: net_reach.induct) (auto intro: net_more)

text \<open>What every step keeps, every reachable state has.\<close>

lemma net_reach_invariant:
  assumes "net_reach timers vt ids view committed s t" and "P s"
    and "\<And>t u. P t \<Longrightarrow> net_step timers vt ids view committed t u \<Longrightarrow> P u"
  shows "P t"
  using assms by (induction rule: net_reach.induct) auto

text \<open>Messages, decisions and proposals are only ever added.\<close>

lemma net_step_grows:
  "net_step timers vt ids view committed s t \<Longrightarrow>
     nt_sent s \<subseteq> nt_sent t \<and> (\<forall>i. prefix (nt_decided s i) (nt_decided t i)) \<and> nt_proposed s \<subseteq> nt_proposed t"
  by (induction rule: net_step.induct) auto

lemma net_reach_grows:
  "net_reach timers vt ids view committed s t \<Longrightarrow>
     nt_sent s \<subseteq> nt_sent t \<and> (\<forall>i. prefix (nt_decided s i) (nt_decided t i)) \<and> nt_proposed s \<subseteq> nt_proposed t"
  by (induction rule: net_reach.induct) (auto dest!: net_step_grows intro: prefix_order.trans)

end
