(* ===== verification/ClusterNet.thy ===== *)
theory ClusterNet
  imports Cluster CheckSpec AsyncNet
begin

text \<open>
  The orchestrator as a schedule of the asynchronous system.  A client drives a cluster by a
  sequence of calls; while no node is configured to equivocate, whatever is dropped, partitioned,
  isolated or corrupted, every such sequence is a run of the asynchronous system, and what the commit log
  records was decided in that run.  The proofs are over the trait's contract, so they hold for
  every protocol.
\<close>

section \<open>Drivers\<close>

datatype 'rng cluster_op =
    DoPropose payload
  | DoSetFaults "'rng fault_config"
  | DoClearFaults 'rng
  | DoStep
  | DoRun usize
  | DoTick
  | DoWait usize
  | DoCollect bool

definition cluster_exec ::
  "'rng extern \<Rightarrow> 'n vtable \<Rightarrow> ('n, 'rng) cluster \<Rightarrow> 'rng cluster_op \<Rightarrow> ('n, 'rng) cluster res" where
  "cluster_exec X vt c x =
     (case x of
        DoPropose p \<Rightarrow> rbind (cluster_propose vt c p) (\<lambda>(c', r). Inr c')
      | DoSetFaults fc \<Rightarrow> Inr (set_faults c fc)
      | DoClearFaults rng \<Rightarrow> Inr (clear_faults rng c)
      | DoStep \<Rightarrow> cluster_step X vt c
      | DoRun k \<Rightarrow> rbind (run_to_completion X vt c k) (\<lambda>(c', steps). Inr c')
      | DoTick \<Rightarrow> cluster_tick vt c
      | DoWait k \<Rightarrow> rbind (wait_for_leader X vt c k) (\<lambda>(c', l). Inr c')
      | DoCollect recording \<Rightarrow>
          Inr (fst (if recording then collect_and_record_commits vt c else collect_committed vt c)))"

fun cluster_run ::
  "'rng extern \<Rightarrow> 'n vtable \<Rightarrow> ('n, 'rng) cluster \<Rightarrow> 'rng cluster_op list \<Rightarrow> ('n, 'rng) cluster res" where
  "cluster_run X vt c [] = Inr c"
| "cluster_run X vt c (x # xs) = rbind (cluster_exec X vt c x) (\<lambda>c'. cluster_run X vt c' xs)"

text \<open>
  Calls that make no node equivocate, without timers let no node tick and, if the log is to be
  complete, collect no entries without recording them.
\<close>

fun loyal_op :: "bool \<Rightarrow> bool \<Rightarrow> 'rng cluster_op \<Rightarrow> bool" where
  "loyal_op timers full (DoSetFaults fc) = no_equivocation fc"
| "loyal_op timers full DoTick = timers"
| "loyal_op timers full (DoWait k) = timers"
| "loyal_op timers full (DoCollect recording) = (full \<longrightarrow> recording)"
| "loyal_op timers full x = True"

lemma node_position_SomeD:
  "node_position vt nds i = Some k \<Longrightarrow> k < length nds \<and> vt_id vt (nds ! k) = i"
  by (induction nds arbitrary: k) (auto split: if_splits)

lemma node_position_None: "node_position vt nds i = None \<longleftrightarrow> i \<notin> vt_id vt ` set nds"
  by (induction nds) auto

section \<open>The relation\<close>

text \<open>
  What a log and a node hold of a history: a subsequence, and all of it if the log is complete.
\<close>

definition holds_history :: "bool \<Rightarrow> committed_entry list \<Rightarrow> committed_entry list \<Rightarrow> bool" where
  "holds_history full xs ys \<longleftrightarrow> subseq xs ys \<and> (full \<longrightarrow> xs = ys)"

lemma holds_history_append: "holds_history full xs ys \<Longrightarrow> holds_history full (xs @ zs) (ys @ zs)"
  by (simp add: holds_history_def)

lemma holds_history_drop: "holds_history False (xs @ zs) ys \<Longrightarrow> holds_history False xs ys"
  by (auto simp: holds_history_def intro: subseq_order.trans [of xs "xs @ zs" ys])

lemma holds_history_mem: "holds_history full xs ys \<Longrightarrow> set xs \<subseteq> set ys"
  by (auto simp: holds_history_def dest: list_emb_set)

text \<open>
  A cluster and a state of the asynchronous system over the same nodes: every node is the
  same, every message in the queue has been sent, what the log and a node hold of the node's
  entries are the entries it decided, and whatever the system counts as proposed is in the log's
  list of proposals.
\<close>

definition cluster_rel ::
  "'n vtable \<Rightarrow> ('n \<Rightarrow> committed_entry list) \<Rightarrow> bool \<Rightarrow> node_id list \<Rightarrow> ('n, 'rng) cluster \<Rightarrow> 'n net \<Rightarrow> bool" where
  "cluster_rel vt committed full il c s \<longleftrightarrow>
     map (vt_id vt) (cl_nodes c) = il \<and> distinct il \<and>
     (\<forall>nd\<in>set (cl_nodes c). nt_nodes s (vt_id vt nd) = nd) \<and>
     set (cl_pending c) \<subseteq> nt_sent s \<and>
     nt_proposed s \<subseteq> set (lg_proposed (cl_commit_log c)) \<and>
     distinct (map fst (lg_commits (cl_commit_log c))) \<and>
     fst ` set (lg_commits (cl_commit_log c)) \<subseteq> set il \<and>
     (\<forall>nd\<in>set (cl_nodes c). holds_history full
        (list_at (lg_commits (cl_commit_log c)) (vt_id vt nd) @ committed nd)
        (map snd (nt_decided s (vt_id vt nd)))) \<and>
     no_equivocation (cl_faults c)"

lemma cluster_rel_node:
  "cluster_rel vt committed full il c s \<Longrightarrow> k < length (cl_nodes c) \<Longrightarrow>
     nt_nodes s (vt_id vt (cl_nodes c ! k)) = cl_nodes c ! k \<and> vt_id vt (cl_nodes c ! k) \<in> set il \<and>
     holds_history full
        (list_at (lg_commits (cl_commit_log c)) (vt_id vt (cl_nodes c ! k)) @ committed (cl_nodes c ! k))
        (map snd (nt_decided s (vt_id vt (cl_nodes c ! k))))"
  by (auto simp: cluster_rel_def)

text \<open>What the log records of a node is part of what the node decided.\<close>

lemma cluster_rel_logged:
  assumes rel: "cluster_rel vt committed full il c s"
  shows "subseq (list_at (lg_commits (cl_commit_log c)) i) (map snd (nt_decided s i))"
proof (cases "i \<in> set il")
  case True
  then obtain nd where nd: "nd \<in> set (cl_nodes c)" "vt_id vt nd = i"
    using rel by (auto simp: cluster_rel_def)
  then have "subseq (list_at (lg_commits (cl_commit_log c)) i @ committed nd) (map snd (nt_decided s i))"
    using rel by (auto simp: cluster_rel_def holds_history_def)
  then show ?thesis by (metis subseq_order.trans subseq_rev_drop_many subseq_order.refl)
next
  case False
  then have "map_of (lg_commits (cl_commit_log c)) i = None"
    using rel by (auto simp: cluster_rel_def map_of_eq_None_iff)
  then show ?thesis by (simp add: list_at_def)
qed

lemma cluster_rel_entry:
  assumes rel: "cluster_rel vt committed full il c s" and e: "log_entry_of (cl_commit_log c) i e"
  shows "\<exists>v. (v, e) \<in> set (nt_decided s i)"
proof -
  have "e \<in> set (list_at (lg_commits (cl_commit_log c)) i)"
    using e rel log_entry_of_iff [of "cl_commit_log c" i e] by (simp add: cluster_rel_def)
  then have "e \<in> set (map snd (nt_decided s i))"
    using list_emb_set [OF cluster_rel_logged [OF rel]] by blast
  then show ?thesis by force
qed

text \<open>Replacing one node and the log's record of it, together with what its step sent and decided.\<close>

lemma cluster_rel_update:
  assumes rel: "cluster_rel vt committed full il c s" and k: "k < length (cl_nodes c)"
    and c': "cl_nodes c' = (cl_nodes c)[k := nd']" "cl_pending c' = cl_pending c"
      "no_equivocation (cl_faults c')"
    and id: "vt_id vt nd' = vt_id vt (cl_nodes c ! k)"
    and t: "nt_nodes t = (nt_nodes s)(vt_id vt nd' := nd')" "nt_sent s \<subseteq> nt_sent t"
      "\<And>j. j \<noteq> vt_id vt nd' \<Longrightarrow> nt_decided t j = nt_decided s j"
      "nt_proposed t \<subseteq> set (lg_proposed (cl_commit_log c'))"
    and lg: "distinct (map fst (lg_commits (cl_commit_log c')))"
      "fst ` set (lg_commits (cl_commit_log c')) \<subseteq> set il"
      "\<And>j. j \<noteq> vt_id vt nd' \<Longrightarrow> list_at (lg_commits (cl_commit_log c')) j = list_at (lg_commits (cl_commit_log c)) j"
      "holds_history full (list_at (lg_commits (cl_commit_log c')) (vt_id vt nd') @ committed nd')
         (map snd (nt_decided t (vt_id vt nd')))"
  shows "cluster_rel vt committed full il c' t"
proof -
  have il: "map (vt_id vt) (cl_nodes c) = il" "distinct il"
    using rel by (simp_all add: cluster_rel_def)
  have "map (vt_id vt) ((cl_nodes c)[k := nd']) = il"
    using il(1) k id by (simp add: map_update) (metis length_map list_update_id nth_map)
  moreover have nodes: "nd = nd' \<or> nd \<in> set (cl_nodes c) \<and> vt_id vt nd \<noteq> vt_id vt nd'"
    if mem: "nd \<in> set ((cl_nodes c)[k := nd'])" for nd
  proof -
    obtain j where "j < length ((cl_nodes c)[k := nd'])" "(cl_nodes c)[k := nd'] ! j = nd"
      using mem unfolding in_set_conv_nth by blast
    then have j: "j < length (cl_nodes c)" "nd = (cl_nodes c)[k := nd'] ! j" by simp_all
    show ?thesis
    proof (cases "j = k")
      case True
      then show ?thesis using j k by simp
    next
      case False
      have "il ! j \<noteq> il ! k" using il False j k nth_eq_iff_index_eq [of il j k] by auto
      then show ?thesis using il(1) False j k id by auto
    qed
  qed
  moreover have "nt_nodes t (vt_id vt nd) = nd" if "nd \<in> set ((cl_nodes c)[k := nd'])" for nd
    using nodes [OF that] rel t(1) by (auto simp: cluster_rel_def)
  moreover have "holds_history full (list_at (lg_commits (cl_commit_log c')) (vt_id vt nd) @ committed nd)
      (map snd (nt_decided t (vt_id vt nd)))"
    if "nd \<in> set ((cl_nodes c)[k := nd'])" for nd
    using nodes [OF that] rel lg(3,4) t(3) by (auto simp: cluster_rel_def)
  moreover have "set (cl_pending c') \<subseteq> nt_sent t"
    using rel t(2) c'(2) unfolding cluster_rel_def by auto
  ultimately show ?thesis
    using il(2) t(4) lg(1,2) c'(1,3) by (simp add: cluster_rel_def)
qed

lemma cluster_rel_enqueue:
  "cluster_rel vt committed full il c s \<Longrightarrow> set ms \<subseteq> nt_sent s \<Longrightarrow>
     cluster_rel vt committed full il (enqueue c ms) s"
  by (simp add: cluster_rel_def enqueue_def)

text \<open>Changes the relation does not see.\<close>

lemma cluster_rel_frame:
  assumes "cluster_rel vt committed full il c s" and "cl_nodes c' = cl_nodes c"
    and "set (cl_pending c') \<subseteq> set (cl_pending c)" and "cl_commit_log c' = cl_commit_log c"
    and "no_equivocation (cl_faults c')"
  shows "cluster_rel vt committed full il c' s"
  using assms by (auto simp: cluster_rel_def)

lemma cluster_rel_loyal: "cluster_rel vt committed full il c s \<Longrightarrow> no_equivocation (cl_faults c)"
  by (simp add: cluster_rel_def)

lemma count_frame:
  "count_sent c = Inr c' \<or> count_dropped c = Inr c' \<or> count_delivered c = Inr c' \<or>
     count_tampered c = Inr c' \<or> count_step c = Inr c' \<Longrightarrow>
     cl_nodes c' = cl_nodes c \<and> cl_pending c' = cl_pending c \<and> cl_commit_log c' = cl_commit_log c \<and>
     cl_faults c' = cl_faults c"
  by (auto simp: count_sent_def count_dropped_def count_delivered_def count_tampered_def
      count_step_def res_simps)

lemma cluster_rel_count:
  "cluster_rel vt committed full il c s \<Longrightarrow>
     count_sent c = Inr c' \<or> count_dropped c = Inr c' \<or> count_delivered c = Inr c' \<or>
     count_tampered c = Inr c' \<or> count_step c = Inr c' \<Longrightarrow> cluster_rel vt committed full il c' s"
  using count_frame [of c c'] by (auto intro!: cluster_rel_frame [of vt committed full il c s c'] dest: cluster_rel_loyal)

section \<open>Every call is a run of the asynchronous system\<close>

context consensus_node begin

abbreviation crel :: "bool \<Rightarrow> node_id list \<Rightarrow> ('n, 'rng) cluster \<Rightarrow> 'n net \<Rightarrow> bool" where
  "crel \<equiv> cluster_rel vt committed"

lemma sim_deliver:
  assumes rel: "crel full il c s" and k: "k < length (cl_nodes c)" and m: "m \<in> nt_sent s"
    and step: "vt_handle_message vt (cl_nodes c ! k) m = Inr (nd', out)"
  shows "\<exists>t. net_step timers vt (set il) view committed s t \<and>
    crel full il (c\<lparr>cl_nodes := (cl_nodes c)[k := nd']\<rparr>) t \<and> set out \<subseteq> nt_sent t"
proof -
  let ?nd = "cl_nodes c ! k" and ?i = "vt_id vt (cl_nodes c ! k)"
  let ?t = "s\<lparr>nt_nodes := (nt_nodes s)(?i := nd'), nt_sent := nt_sent s \<union> set out,
      nt_decided := (nt_decided s)(?i := nt_decided s ?i @
        map (Pair (view (nt_nodes s ?i))) (fresh_entries committed (nt_nodes s ?i) nd'))\<rparr>"
  note node = cluster_rel_node [OF rel k]
  have st: "net_step timers vt (set il) view committed s ?t"
    using node m step by (intro net_deliver) auto
  obtain es where es: "committed nd' = committed ?nd @ es"
    using handle_committed [OF step] by blast
  have id: "vt_id vt nd' = ?i"
    using handle_id [OF step] .
  have "map snd (nt_decided ?t ?i) = map snd (nt_decided s ?i) @ es"
    using es node by (simp add: fresh_entries_def o_def)
  then have "holds_history full (list_at (lg_commits (cl_commit_log c)) ?i @ committed nd') (map snd (nt_decided ?t ?i))"
    using holds_history_append [of full "list_at (lg_commits (cl_commit_log c)) ?i @ committed ?nd" _ es] node es
    by simp
  then have "crel full il (c\<lparr>cl_nodes := (cl_nodes c)[k := nd']\<rparr>) ?t"
    using rel id by (intro cluster_rel_update [OF rel k, where nd' = nd']) (auto simp: cluster_rel_def)
  with st show ?thesis by (intro exI [of _ ?t]) simp
qed

lemma sim_propose:
  assumes rel: "crel full il c s" and k: "k < length (cl_nodes c)"
    and p: "p \<in> set (lg_proposed (cl_commit_log c))"
    and step: "vt_propose vt (cl_nodes c ! k) p = Inr (nd', r, out)"
  shows "\<exists>t. net_step timers vt (set il) view committed s t \<and>
    crel full il (c\<lparr>cl_nodes := (cl_nodes c)[k := nd']\<rparr>) t \<and> set out \<subseteq> nt_sent t"
proof -
  let ?i = "vt_id vt (cl_nodes c ! k)"
  let ?t = "s\<lparr>nt_nodes := (nt_nodes s)(?i := nd'), nt_sent := nt_sent s \<union> set out,
      nt_proposed := insert p (nt_proposed s)\<rparr>"
  note node = cluster_rel_node [OF rel k]
  have st: "net_step timers vt (set il) view committed s ?t"
    using node step by (intro net_propose) auto
  have "crel full il (c\<lparr>cl_nodes := (cl_nodes c)[k := nd']\<rparr>) ?t"
    using rel node p propose_id [OF step] propose_committed [OF step]
    by (intro cluster_rel_update [OF rel k, where nd' = nd']) (auto simp: cluster_rel_def)
  with st show ?thesis by (intro exI [of _ ?t]) simp
qed

lemma sim_tick:
  assumes rel: "crel full il c s" and k: "k < length (cl_nodes c)"
    and step: "vt_tick vt (cl_nodes c ! k) = Inr (nd', out)"
  shows "\<exists>t. net_step True vt (set il) view committed s t \<and>
    crel full il (c\<lparr>cl_nodes := (cl_nodes c)[k := nd']\<rparr>) t \<and> set out \<subseteq> nt_sent t"
proof -
  let ?i = "vt_id vt (cl_nodes c ! k)"
  let ?t = "s\<lparr>nt_nodes := (nt_nodes s)(?i := nd'), nt_sent := nt_sent s \<union> set out\<rparr>"
  note node = cluster_rel_node [OF rel k]
  have st: "net_step True vt (set il) view committed s ?t"
    using node step by (intro net_tick) auto
  have "crel full il (c\<lparr>cl_nodes := (cl_nodes c)[k := nd']\<rparr>) ?t"
    using rel node tick_id [OF step] tick_committed [OF step]
    by (intro cluster_rel_update [OF rel k, where nd' = nd']) (auto simp: cluster_rel_def)
  with st show ?thesis by (intro exI [of _ ?t]) simp
qed

text \<open>Polling moves the waiting entries to the log, or drops them if the call does not record.\<close>

lemma list_at_record:
  "list_at (lg_commits (record_commits lg i es)) j =
     (if j = i then list_at (lg_commits lg) i @ es else list_at (lg_commits lg) j)"
  by (simp add: record_commits_def list_at_update)

lemma keys_record: "fst ` set (lg_commits (record_commits lg i es)) = insert i (fst ` set (lg_commits lg))"
  by (simp add: record_commits_def dom_update)

lemma sim_poll:
  assumes rel: "crel full il c s" and k: "k < length (cl_nodes c)"
    and poll: "vt_poll_committed vt (cl_nodes c ! k) = (nd', es)" and rec: "full \<longrightarrow> recording"
    and c': "c' = c\<lparr>cl_nodes := (cl_nodes c)[k := nd'], cl_commit_log :=
      (if es = [] \<or> \<not> recording then cl_commit_log c else record_commits (cl_commit_log c) (vt_id vt nd') es)\<rparr>"
  shows "\<exists>t. net_step timers vt (set il) view committed s t \<and> crel full il c' t"
proof -
  let ?i = "vt_id vt (cl_nodes c ! k)"
  let ?t = "s\<lparr>nt_nodes := (nt_nodes s)(?i := nd')\<rparr>"
  note node = cluster_rel_node [OF rel k]
  have st: "net_step timers vt (set il) view committed s ?t"
    using node poll by (intro net_poll) auto
  have nd': "nd' = fst (vt_poll_committed vt (cl_nodes c ! k))" "es = committed (cl_nodes c ! k)"
    using poll poll_drains [of "cl_nodes c ! k"] by simp_all
  then have id: "vt_id vt nd' = ?i" and com: "committed nd' = []"
    using poll_id poll_empties by simp_all
  let ?lg = "cl_commit_log c"
  have held: "holds_history full (list_at (lg_commits ?lg) ?i @ es) (map snd (nt_decided s ?i))"
    using node nd'(2) by simp
  have "holds_history full (list_at (lg_commits (cl_commit_log c')) ?i) (map snd (nt_decided s ?i))"
    using held holds_history_drop [of "list_at (lg_commits ?lg) ?i" es] rec id
    by (cases full) (auto simp: c' list_at_record)
  then have "crel full il c' ?t"
    using rel node id com record_commits_distinct [of ?lg ?i es]
    by (intro cluster_rel_update [OF rel k, where nd' = nd']) (auto simp: cluster_rel_def c' list_at_record keys_record)
  with st show ?thesis by blast
qed

lemma sim_deliver_tampered:
  "crel full il c s \<Longrightarrow> set ms \<subseteq> nt_sent s \<Longrightarrow> deliver_tampered vt b c ms = Inr (c', out) \<Longrightarrow>
     \<exists>t. net_reach timers vt (set il) view committed s t \<and> crel full il c' t \<and> set out \<subseteq> nt_sent t"
proof (induction ms arbitrary: c s out)
  case Nil
  then show ?case by auto
next
  case (Cons m ms)
  obtain c1 where c1: "(if b then count_tampered c else Inr c) = Inr c1"
    and rest: "(case node_position vt (cl_nodes c1) (msg_to m) of
       None \<Rightarrow> deliver_tampered vt b c1 ms
     | Some idx \<Rightarrow>
         rbind (count_delivered c1) (\<lambda>c2.
         rbind (vt_handle_message vt (cl_nodes c2 ! idx) m) (\<lambda>(nd', outgoing).
         rbind (deliver_tampered vt b (c2\<lparr>cl_nodes := (cl_nodes c2)[idx := nd']\<rparr>) ms) (\<lambda>(c3, out).
         Inr (c3, outgoing @ out))))) = Inr (c', out)"
    using Cons.prems(3) by (auto simp: rbind_eq_Inr)
  have rel1: "crel full il c1 s"
    using c1 Cons.prems(1) by (auto split: if_splits intro: cluster_rel_count)
  show ?case
  proof (cases "node_position vt (cl_nodes c1) (msg_to m)")
    case None
    then show ?thesis using rest rel1 Cons.IH [of c1 s out] Cons.prems(2) by simp
  next
    case (Some k)
    then obtain c2 nd' out1 out2 where c2: "count_delivered c1 = Inr c2"
      and h: "vt_handle_message vt (cl_nodes c2 ! k) m = Inr (nd', out1)"
      and d: "deliver_tampered vt b (c2\<lparr>cl_nodes := (cl_nodes c2)[k := nd']\<rparr>) ms = Inr (c', out2)"
      and out: "out = out1 @ out2"
      using rest by (auto simp: rbind_eq_Inr)
    have rel2: "crel full il c2 s" and k: "k < length (cl_nodes c2)"
      using cluster_rel_count [OF rel1, of c2] c2 node_position_SomeD [OF Some] count_frame [of c1 c2] by auto
    obtain t where t: "net_step timers vt (set il) view committed s t"
      "crel full il (c2\<lparr>cl_nodes := (cl_nodes c2)[k := nd']\<rparr>) t" "set out1 \<subseteq> nt_sent t"
      using sim_deliver [OF rel2 k _ h] Cons.prems(2) by (metis list.set_intros(1) subsetD)
    have "set ms \<subseteq> nt_sent t"
      using Cons.prems(2) net_step_grows [OF t(1)] by auto
    from Cons.IH [OF t(2) this d] obtain u where
      u: "net_reach timers vt (set il) view committed t u" "crel full il c' u" "set out2 \<subseteq> nt_sent u"
      by blast
    have "net_reach timers vt (set il) view committed s u"
      using net_reach_trans [OF u(1) net_reach_step [OF t(1)]] .
    moreover have "set out1 \<subseteq> nt_sent u"
      using t(3) net_reach_grows [OF u(1)] by blast
    ultimately show ?thesis using u out by auto
  qed
qed

text \<open>Dropping and corrupting what a Byzantine node sends are steps of the system, too.\<close>

lemma sim_corrupt:
  "crel full il c s \<Longrightarrow> set ms \<subseteq> nt_sent s \<Longrightarrow>
     \<exists>t. net_reach timers vt (set il) view committed s t \<and> crel full il c t \<and>
       nt_sent s \<subseteq> nt_sent t \<and> corrupt_digest ` set ms \<subseteq> nt_sent t"
proof (induction ms arbitrary: s)
  case (Cons m ms)
  let ?u = "s\<lparr>nt_sent := insert (corrupt_digest m) (nt_sent s)\<rparr>"
  have su: "net_step timers vt (set il) view committed s ?u" using Cons.prems by (intro net_corrupt) simp
  have "crel full il c ?u" using Cons.prems by (auto simp: cluster_rel_def)
  from Cons.IH [OF this] Cons.prems obtain t where
    t: "net_reach timers vt (set il) view committed ?u t" "crel full il c t" "nt_sent ?u \<subseteq> nt_sent t"
      "corrupt_digest ` set ms \<subseteq> nt_sent t"
    by auto
  then show ?case using net_reach_trans [OF t(1) net_reach_step [OF su]] by auto
qed auto

lemma sim_tamper_all:
  "crel full il c s \<Longrightarrow> Equivocate \<notin> set bs \<Longrightarrow> set ms \<subseteq> nt_sent s \<Longrightarrow>
     \<exists>t. net_reach timers vt (set il) view committed s t \<and> crel full il c t \<and>
       set (tamper_all sha bs ms) \<subseteq> nt_sent t"
proof (induction bs arbitrary: s ms)
  case (Cons b bs)
  let ?ms = "concat (map (tamper_one sha b) ms)"
  obtain u where u: "net_reach timers vt (set il) view committed s u" "crel full il c u" "set ?ms \<subseteq> nt_sent u"
  proof (cases b)
    case CorruptDigest
    then show ?thesis using sim_corrupt [OF Cons.prems(1,3), of timers view] that by auto
  next
    case (SelectiveDrop phases)
    then have "set ?ms \<subseteq> set ms" by (auto split: if_splits)
    then show ?thesis using that [of s] Cons.prems by auto
  qed (use Cons.prems in auto)
  have "Equivocate \<notin> set bs" using Cons.prems(2) by simp
  from Cons.IH [OF u(2) this u(3)] obtain t where
    t: "net_reach timers vt (set il) view committed u t" "crel full il c t"
      "set (tamper_all sha bs ?ms) \<subseteq> nt_sent t" by blast
  then show ?case using net_reach_trans [OF t(1) u(1)] by auto
qed auto

lemma sim_tamper:
  assumes "crel full il c s" and "no_equivocation fc" and "m \<in> nt_sent s"
  shows "\<exists>t. net_reach timers vt (set il) view committed s t \<and> crel full il c t \<and> set (tamper sha fc m) \<subseteq> nt_sent t"
proof (cases "fc_byzantine_nodes fc (msg_from m)")
  case None
  then show ?thesis using assms by (auto simp: tamper_def)
next
  case (Some bs)
  then show ?thesis
    using assms sim_tamper_all [of full il c s bs "[m]" timers view sha] by (auto simp: tamper_def no_equivocation_def)
qed

lemma sim_deliver_one:
  assumes rel: "crel full il c s" and m: "m \<in> nt_sent s" and step: "deliver_one X vt c m = Inr (c', out)"
  shows "\<exists>t. net_reach timers vt (set il) view committed s t \<and> crel full il c' t \<and> set out \<subseteq> nt_sent t"
proof -
  obtain c1 where c1: "count_sent c = Inr c1"
    using step by (auto simp: deliver_one_def rbind_eq_Inr)
  have rel1: "crel full il c1 s" using cluster_rel_count [OF rel] c1 by blast
  obtain fc ok where fc: "should_deliver X (cl_faults c1) m = (fc, ok)" by fastforce
  let ?c2 = "c1\<lparr>cl_faults := fc\<rparr>" and ?ms = "tamper (sha256 X) fc m"
  have byz: "no_equivocation fc"
    using should_deliver_frame [OF fc] cluster_rel_loyal [OF rel1] by (simp add: no_equivocation_def)
  have rel2: "crel full il ?c2 s"
    using byz by (intro cluster_rel_frame [OF rel1]) auto
  show ?thesis
  proof (cases "ok \<and> ?ms \<noteq> []")
    case True
    then have d: "deliver_tampered vt (is_byzantine fc (msg_from m)) ?c2 ?ms = Inr (c', out)"
      using step c1 fc by (simp add: deliver_one_def Let_def del: deliver_tampered.simps)
    obtain t where t: "net_reach timers vt (set il) view committed s t" "crel full il ?c2 t" "set ?ms \<subseteq> nt_sent t"
      using sim_tamper [OF rel2 byz m] by blast
    from sim_deliver_tampered [OF t(2,3) d] show ?thesis using net_reach_trans t(1) by blast
  next
    case False
    then have "count_dropped ?c2 = Inr c'" "out = []"
      using step c1 fc by (auto simp: deliver_one_def Let_def rbind_eq_Inr split: if_splits)
    then show ?thesis using cluster_rel_count [OF rel2] by auto
  qed
qed

lemma sim_deliver_all:
  "crel full il c s \<Longrightarrow> set ms \<subseteq> nt_sent s \<Longrightarrow> deliver_all X vt c ms = Inr (c', out) \<Longrightarrow>
     \<exists>t. net_reach timers vt (set il) view committed s t \<and> crel full il c' t \<and> set out \<subseteq> nt_sent t"
proof (induction ms arbitrary: c s out)
  case Nil
  then show ?case by auto
next
  case (Cons m ms)
  obtain c1 out1 out2 where d: "deliver_one X vt c m = Inr (c1, out1)"
    "deliver_all X vt c1 ms = Inr (c', out2)" and out: "out = out1 @ out2"
    using Cons.prems(3) by (auto simp: rbind_eq_Inr)
  obtain t where t: "net_reach timers vt (set il) view committed s t" "crel full il c1 t" "set out1 \<subseteq> nt_sent t"
    using sim_deliver_one [OF Cons.prems(1) _ d(1)] Cons.prems(2) by (metis list.set_intros(1) subsetD)
  have "set ms \<subseteq> nt_sent t"
    using Cons.prems(2) net_reach_grows [OF t(1)] by auto
  from Cons.IH [OF t(2) this d(2)] obtain u where
    u: "net_reach timers vt (set il) view committed t u" "crel full il c' u" "set out2 \<subseteq> nt_sent u"
    by blast
  moreover have "set out1 \<subseteq> nt_sent u"
    using t(3) net_reach_grows [OF u(1)] by blast
  ultimately show ?case using net_reach_trans [OF u(1) t(1)] out by auto
qed

lemma sim_step:
  assumes rel: "crel full il c s" and step: "cluster_step X vt c = Inr c'"
  shows "\<exists>t. net_reach timers vt (set il) view committed s t \<and> crel full il c' t"
proof -
  let ?c0 = "c\<lparr>cl_pending := []\<rparr>"
  have rel0: "crel full il ?c0 s" and sent: "set (cl_pending c) \<subseteq> nt_sent s"
    using rel by (simp_all add: cluster_rel_def)
  obtain c1 ms c2 where d: "deliver_all X vt ?c0 (cl_pending c) = Inr (c1, ms)"
    "count_step c1 = Inr c2" "c' = enqueue c2 ms"
    using step by (auto simp: cluster_step_def rbind_eq_Inr)
  obtain t where t: "net_reach timers vt (set il) view committed s t" "crel full il c1 t" "set ms \<subseteq> nt_sent t"
    using sim_deliver_all [OF rel0 sent d(1)] by blast
  have "crel full il c2 t" using cluster_rel_count [OF t(2)] d(2) by blast
  then have "crel full il c' t" using d(3) t(3) by (simp add: cluster_rel_enqueue)
  with t(1) show ?thesis by blast
qed

lemma sim_run:
  "crel full il c s \<Longrightarrow> run_to_completion X vt c k = Inr (c', n) \<Longrightarrow>
     \<exists>t. net_reach timers vt (set il) view committed s t \<and> crel full il c' t"
proof (induction k arbitrary: c s n)
  case 0
  then show ?case by auto
next
  case (Suc k)
  show ?case
  proof (cases "cl_pending c = []")
    case True
    then show ?thesis using Suc.prems by auto
  next
    case False
    then obtain c1 m where c1: "cluster_step X vt c = Inr c1" "run_to_completion X vt c1 k = Inr (c', m)"
      using Suc.prems by (auto simp: rbind_eq_Inr)
    obtain t where t: "net_reach timers vt (set il) view committed s t" "crel full il c1 t"
      using sim_step [OF Suc.prems(1) c1(1)] by blast
    from Suc.IH [OF t(2) c1(2)] show ?thesis using net_reach_trans t(1) by blast
  qed
qed

lemma cluster_rel_proposed:
  "crel full il c s \<Longrightarrow> crel full il (c\<lparr>cl_commit_log := record_proposal (cl_commit_log c) p\<rparr>) s"
  by (auto simp: cluster_rel_def)

lemma sim_propose_loop:
  "crel full il c s \<Longrightarrow> p \<in> set (lg_proposed (cl_commit_log c)) \<Longrightarrow> set ks \<subseteq> {..<length il} \<Longrightarrow>
     propose_loop vt c p ks = Inr (c', r) \<Longrightarrow>
     \<exists>t. net_reach timers vt (set il) view committed s t \<and> crel full il c' t"
proof (induction ks arbitrary: c s)
  case Nil
  then show ?case by auto
next
  case (Cons k ks)
  let ?nd = "cl_nodes c ! k"
  have len: "length (cl_nodes c) = length il"
    using Cons.prems(1) by (auto simp: cluster_rel_def)
  show ?case
  proof (cases "is_isolated (cl_faults c) (vt_id vt ?nd)")
    case True
    then show ?thesis using Cons.IH [OF Cons.prems(1,2)] Cons.prems(3,4) by simp
  next
    case False
    obtain nd' r1 out where p1: "vt_propose vt ?nd p = Inr (nd', r1, out)"
      using False Cons.prems(4) by (auto simp: rbind_eq_Inr Let_def)
    let ?c1 = "c\<lparr>cl_nodes := (cl_nodes c)[k := nd']\<rparr>"
    have k: "k < length (cl_nodes c)" using Cons.prems(3) len by simp
    obtain t where t: "net_step timers vt (set il) view committed s t" "crel full il ?c1 t" "set out \<subseteq> nt_sent t"
      using sim_propose [OF Cons.prems(1) k Cons.prems(2) p1] by blast
    note reach = net_reach_step [OF t(1)]
    have retry: "propose_loop vt ?c1 p ks = Inr (c', r) \<Longrightarrow> ?thesis"
      using Cons.IH [OF t(2)] Cons.prems(2,3) net_reach_trans reach by simp blast
    show ?thesis
    proof (cases r1)
      case Accepted
      then have "c' = enqueue ?c1 out" using False p1 Cons.prems(4) by (simp add: Let_def)
      then show ?thesis using cluster_rel_enqueue [OF t(2,3)] reach by auto
    next
      case (NotLeader l)
      show ?thesis
      proof (cases l)
        case None
        then show ?thesis using retry NotLeader False p1 Cons.prems(4) by (simp add: Let_def)
      next
        case (Some leader)
        show ?thesis
        proof (cases "node_position vt (cl_nodes ?c1) leader")
          case None
          then show ?thesis using retry Some NotLeader False p1 Cons.prems(4) by (simp add: Let_def)
        next
          case pos: (Some j)
          then obtain nd2 out2 where p2: "vt_propose vt (cl_nodes ?c1 ! j) p = Inr (nd2, r, out2)"
            and c': "c' = enqueue (?c1\<lparr>cl_nodes := (cl_nodes ?c1)[j := nd2]\<rparr>) out2"
            using Some NotLeader False p1 Cons.prems(4) by (auto simp: Let_def rbind_eq_Inr)
          have j: "j < length (cl_nodes ?c1)" using node_position_SomeD [OF pos] by simp
          have "p \<in> set (lg_proposed (cl_commit_log ?c1))" using Cons.prems(2) by simp
          from sim_propose [OF t(2) j this p2] obtain u where
            u: "net_step timers vt (set il) view committed t u"
              "crel full il (?c1\<lparr>cl_nodes := (cl_nodes ?c1)[j := nd2]\<rparr>) u" "set out2 \<subseteq> nt_sent u"
            by blast
          have "crel full il c' u" unfolding c' by (rule cluster_rel_enqueue [OF u(2,3)])
          then show ?thesis using net_more [OF reach u(1)] by blast
        qed
      qed
    qed
  qed
qed

lemma sim_cluster_propose:
  assumes rel: "crel full il c s" and step: "cluster_propose vt c p = Inr (c', r)"
  shows "\<exists>t. net_reach timers vt (set il) view committed s t \<and> crel full il c' t"
proof -
  have "length (cl_nodes c) = length il" using rel by (auto simp: cluster_rel_def)
  then show ?thesis
    using sim_propose_loop [OF cluster_rel_proposed [OF rel], of p p "[0..<length (cl_nodes c)]" c' r]
      step by (simp add: cluster_propose_def atLeast0LessThan)
qed

lemma sim_tick_loop:
  "crel full il c s \<Longrightarrow> set ks \<subseteq> {..<length il} \<Longrightarrow> tick_loop vt c ks = Inr c' \<Longrightarrow>
     \<exists>t. net_reach True vt (set il) view committed s t \<and> crel full il c' t"
proof (induction ks arbitrary: c s)
  case Nil
  then show ?case by auto
next
  case (Cons k ks)
  then obtain nd' out where st: "vt_tick vt (cl_nodes c ! k) = Inr (nd', out)"
    "tick_loop vt (enqueue (c\<lparr>cl_nodes := (cl_nodes c)[k := nd']\<rparr>) out) ks = Inr c'"
    by (auto simp: rbind_eq_Inr)
  have "length (cl_nodes c) = length il" using Cons.prems(1) by (auto simp: cluster_rel_def)
  then have k: "k < length (cl_nodes c)" using Cons.prems(2) by simp
  obtain t where t: "net_step True vt (set il) view committed s t"
    "crel full il (c\<lparr>cl_nodes := (cl_nodes c)[k := nd']\<rparr>) t" "set out \<subseteq> nt_sent t"
    using sim_tick [OF Cons.prems(1) k st(1)] by blast
  have "\<exists>u. net_reach True vt (set il) view committed t u \<and> crel full il c' u"
    by (rule Cons.IH [OF cluster_rel_enqueue [OF t(2,3)] _ st(2)]) (use Cons.prems(2) in simp)
  then show ?case using net_reach_trans net_reach_step [OF t(1)] by blast
qed

lemma sim_cluster_tick:
  assumes rel: "crel full il c s" and step: "cluster_tick vt c = Inr c'"
  shows "\<exists>t. net_reach True vt (set il) view committed s t \<and> crel full il c' t"
proof -
  have "length (cl_nodes c) = length il" using rel by (auto simp: cluster_rel_def)
  then show ?thesis
    using sim_tick_loop [OF rel, of "[0..<length (cl_nodes c)]" c'] step by (simp add: cluster_tick_def atLeast0LessThan)
qed

lemma sim_collect_loop:
  "crel full il c s \<Longrightarrow> full \<longrightarrow> recording \<Longrightarrow> set ks \<subseteq> {..<length il} \<Longrightarrow>
     collect_loop vt recording c ks = (c', results) \<Longrightarrow>
     \<exists>t. net_reach timers vt (set il) view committed s t \<and> crel full il c' t"
proof (induction ks arbitrary: c s results)
  case Nil
  then show ?case by auto
next
  case (Cons k ks)
  obtain nd' es where p: "vt_poll_committed vt (cl_nodes c ! k) = (nd', es)" by fastforce
  let ?c2 = "c\<lparr>cl_nodes := (cl_nodes c)[k := nd'], cl_commit_log :=
      (if es = [] \<or> \<not> recording then cl_commit_log c else record_commits (cl_commit_log c) (vt_id vt nd') es)\<rparr>"
  have "length (cl_nodes c) = length il" using Cons.prems(1) by (auto simp: cluster_rel_def)
  then have k: "k < length (cl_nodes c)" using Cons.prems(3) by simp
  obtain t where t: "net_step timers vt (set il) view committed s t" "crel full il ?c2 t"
    using sim_poll [OF Cons.prems(1) k p Cons.prems(2) refl] by blast
  obtain res' where "collect_loop vt recording ?c2 ks = (c', res')"
    using Cons.prems(4) p by (cases "es = []"; cases recording) (auto simp: Let_def split: prod.splits)
  from Cons.IH [OF t(2) Cons.prems(2) _ this] obtain u where
    u: "net_reach timers vt (set il) view committed t u" "crel full il c' u" using Cons.prems(3) by auto
  then show ?case using net_reach_trans net_reach_step [OF t(1)] by blast
qed

lemma sim_collect:
  assumes rel: "crel full il c s" and rec: "full \<longrightarrow> recording"
    and c': "collect_loop vt recording c [0..<length (cl_nodes c)] = (c', results)"
  shows "\<exists>t. net_reach timers vt (set il) view committed s t \<and> crel full il c' t"
proof -
  have "length (cl_nodes c) = length il" using rel by (auto simp: cluster_rel_def)
  then show ?thesis using sim_collect_loop [OF rel rec _ c'] by (simp add: atLeast0LessThan)
qed

lemma sim_wait:
  "crel full il c s \<Longrightarrow> wait_for_leader X vt c k = Inr (c', l) \<Longrightarrow>
     \<exists>t. net_reach True vt (set il) view committed s t \<and> crel full il c' t"
proof (induction k arbitrary: c s)
  case 0
  then show ?case by auto
next
  case (Suc k)
  then obtain c1 c2 n l' where c1: "cluster_tick vt c = Inr c1"
    and c2: "run_to_completion X vt c1 100 = Inr (c2, n)"
    and l': "find_leader vt (cl_faults c2) (cl_nodes c2) = Inr l'"
    and rest: "(case l' of Some i \<Rightarrow> Inr (c2, Some i) | None \<Rightarrow> wait_for_leader X vt c2 k) = Inr (c', l)"
    by (auto simp: rbind_eq_Inr)
  obtain t where t: "net_reach True vt (set il) view committed s t" "crel full il c1 t"
    using sim_cluster_tick [OF Suc.prems(1) c1] by blast
  obtain u where u: "net_reach True vt (set il) view committed t u" "crel full il c2 u"
    using sim_run [OF t(2) c2] by blast
  note su = net_reach_trans [OF u(1) t(1)]
  show ?case
  proof (cases l')
    case None
    then show ?thesis using Suc.IH [OF u(2)] rest net_reach_trans su by simp blast
  next
    case (Some i)
    then show ?thesis using rest u(2) su by auto
  qed
qed

lemma sim_exec:
  assumes rel: "crel full il c s" and step: "cluster_exec X vt c x = Inr c'" and honest: "loyal_op timers full x"
  shows "\<exists>t. net_reach timers vt (set il) view committed s t \<and> crel full il c' t"
proof -
  have frame: "crel full il (c\<lparr>cl_faults := fc\<rparr>) s" if "no_equivocation fc" for fc
    using that by (intro cluster_rel_frame [OF rel]) auto
  show ?thesis
  proof (cases x)
    case (DoPropose p)
    then show ?thesis
      using step sim_cluster_propose [OF rel] by (fastforce simp: cluster_exec_def rbind_eq_Inr)
  next
    case (DoSetFaults fc)
    then show ?thesis using frame [of fc] honest step by (auto simp: cluster_exec_def set_faults_def)
  next
    case (DoClearFaults r)
    then show ?thesis
      using frame [of "fault_default r"] step by (auto simp: cluster_exec_def clear_faults_def)
  next
    case DoStep
    then show ?thesis using step sim_step [OF rel] by (auto simp: cluster_exec_def)
  next
    case (DoRun k)
    then show ?thesis
      using step sim_run [OF rel] by (fastforce simp: cluster_exec_def rbind_eq_Inr)
  next
    case DoTick
    then show ?thesis using honest step sim_cluster_tick [OF rel] by (auto simp: cluster_exec_def)
  next
    case (DoWait k)
    then show ?thesis
      using honest step sim_wait [OF rel] by (fastforce simp: cluster_exec_def rbind_eq_Inr)
  next
    case (DoCollect recording)
    then obtain results where
      "collect_loop vt recording c [0..<length (cl_nodes c)] = (c', results)"
      using step by (cases "collect_loop vt recording c [0..<length (cl_nodes c)]")
        (auto simp: cluster_exec_def collect_and_record_commits_def collect_committed_def split: if_splits)
    then show ?thesis using sim_collect [OF rel] honest DoCollect by simp
  qed
qed

lemma sim_cluster_run:
  "crel full il c s \<Longrightarrow> cluster_run X vt c ops = Inr c' \<Longrightarrow> (\<forall>x\<in>set ops. loyal_op timers full x) \<Longrightarrow>
     \<exists>t. net_reach timers vt (set il) view committed s t \<and> crel full il c' t"
proof (induction ops arbitrary: c s)
  case Nil
  then show ?case by auto
next
  case (Cons x ops)
  then obtain c1 where c1: "cluster_exec X vt c x = Inr c1" "cluster_run X vt c1 ops = Inr c'"
    by (auto simp: rbind_eq_Inr)
  have honest: "loyal_op timers full x" using Cons.prems(3) by simp
  obtain t where t: "net_reach timers vt (set il) view committed s t" "crel full il c1 t"
    using sim_exec [OF Cons.prems(1) c1(1) honest] by blast
  then show ?case using Cons.IH [OF t(2) c1(2)] Cons.prems(3) net_reach_trans by simp blast
qed

end

end
