(* ===== verification/Sequenced.thy ===== *)
theory Sequenced
  imports AsyncNet
begin

text \<open>
  The contract PBFT and HotStuff share, and what follows from it whatever the protocol: the
  leader of a view is the only node to bind payloads to sequence numbers in that view, it binds
  each number at most once, and a replica only commits the payload bound to a number.

  From the contract alone every reachable state of the asynchronous system agrees per view:
  two nodes that decide the same sequence number in the same view decide the same payload,
  and it was proposed by a client.
\<close>

text \<open>Both protocols rotate the leader over the identifiers.\<close>

definition leader_of :: "usize \<Rightarrow> ViewNumber \<Rightarrow> node_id" where
  "leader_of n v = NodeId (v mod word_of_nat n)"

locale sequenced_protocol = consensus_node vt wf committed
  for vt :: "'n vtable" and wf :: "'n \<Rightarrow> bool" and committed :: "'n \<Rightarrow> committed_entry list" +
  fixes view :: "'n \<Rightarrow> ViewNumber"
    and next_seq :: "'n \<Rightarrow> SequenceNumber"
    and pend :: "'n \<Rightarrow> SequenceNumber \<rightharpoonup> payload"
    and lead :: "ViewNumber \<Rightarrow> node_id"
    and binding :: "network_message \<Rightarrow> (ViewNumber \<times> SequenceNumber \<times> payload) option"
    and msg_view :: "network_message \<Rightarrow> ViewNumber"
  assumes propose_binds: "wf nd \<Longrightarrow> vt_propose vt nd p = Inr (nd', Accepted, out) \<Longrightarrow>
      lead (view nd) = vt_id vt nd \<and> view nd' = view nd \<and> next_seq nd < next_seq nd' \<and>
      pend nd' = (pend nd)(next_seq nd \<mapsto> p) \<and>
      (\<forall>x\<in>set out. msg_view x \<le> view nd \<and> (\<forall>b. binding x = Some b \<longrightarrow> b = (view nd, next_seq nd, p)))"
    and handle_view: "wf nd \<Longrightarrow> vt_handle_message vt nd m = Inr (nd', out) \<Longrightarrow>
      view nd \<le> view nd' \<and> view nd' \<le> max (view nd) (msg_view m) \<and>
      (view nd' = view nd \<longrightarrow> next_seq nd' = next_seq nd)"
    and handle_sends: "wf nd \<Longrightarrow> vt_handle_message vt nd m = Inr (nd', out) \<Longrightarrow>
      \<forall>x\<in>set out. binding x = None \<and> msg_view x \<le> max (view nd) (msg_view m)"
    and handle_pend: "wf nd \<Longrightarrow> vt_handle_message vt nd m = Inr (nd', out) \<Longrightarrow> pend nd' sq = Some p \<Longrightarrow>
      view nd' = view nd \<and> pend nd sq = Some p \<or> binding m = Some (view nd', sq, p)"
    and handle_commits: "wf nd \<Longrightarrow> vt_handle_message vt nd m = Inr (nd', out) \<Longrightarrow>
      \<forall>e\<in>set (fresh_entries committed nd nd'). pend nd (ce_sequence e) = Some (ce_payload e)"
    and tick_keeps: "wf nd \<Longrightarrow> vt_tick vt nd = Inr (nd', out) \<Longrightarrow>
      view nd' = view nd \<and> next_seq nd' = next_seq nd \<and> pend nd' = pend nd \<and> (\<forall>x\<in>set out. binding x = None)"
    and poll_keeps: "view (fst (vt_poll_committed vt nd)) = view nd \<and>
      next_seq (fst (vt_poll_committed vt nd)) = next_seq nd \<and> pend (fst (vt_poll_committed vt nd)) = pend nd"
    and corrupt_binds: "binding (corrupt_digest m) = binding m \<and> msg_view (corrupt_digest m) = msg_view m"
begin

text \<open>
  The invariant: one ledger \<open>A\<close> holds the payload bound to each number of each view.  Pending
  payloads and proposals in flight agree with it, and the leader of a view has bound nothing at
  or above its next number, nor in any later view it leads.
\<close>

definition node_ok :: "(ViewNumber \<Rightarrow> SequenceNumber \<rightharpoonup> payload) \<Rightarrow> node_id \<Rightarrow> 'n \<Rightarrow> bool" where
  "node_ok A i nd \<longleftrightarrow>
     wf nd \<and> vt_id vt nd = i \<and>
     (\<forall>sq p. pend nd sq = Some p \<longrightarrow> A (view nd) sq = Some p) \<and>
     (\<forall>v sq. lead v = i \<longrightarrow> view nd < v \<longrightarrow> A v sq = None) \<and>
     (lead (view nd) = i \<longrightarrow> (\<forall>sq. next_seq nd \<le> sq \<longrightarrow> A (view nd) sq = None))"

definition net_ok :: "(ViewNumber \<Rightarrow> SequenceNumber \<rightharpoonup> payload) \<Rightarrow> node_id set \<Rightarrow> 'n net \<Rightarrow> bool" where
  "net_ok A ids s \<longleftrightarrow>
     (\<forall>i\<in>ids. node_ok A i (nt_nodes s i)) \<and>
     (\<forall>m\<in>nt_sent s. \<forall>v sq p. binding m = Some (v, sq, p) \<longrightarrow> A v sq = Some p) \<and>
     (\<forall>i v e. (v, e) \<in> set (nt_decided s i) \<longrightarrow> A v (ce_sequence e) = Some (ce_payload e)) \<and>
     (\<forall>v sq p. A v sq = Some p \<longrightarrow> p \<in> nt_proposed s)"

lemma node_ok_handle:
  assumes ok: "node_ok A i nd" and step: "vt_handle_message vt nd m = Inr (nd', out)"
    and msg: "\<And>v sq p. binding m = Some (v, sq, p) \<Longrightarrow> A v sq = Some p"
  shows "node_ok A i nd'"
proof -
  have wf: "wf nd" and id: "vt_id vt nd = i"
    using ok by (auto simp: node_ok_def)
  note view = handle_view [OF wf step]
  have "A (view nd') sq = Some p" if "pend nd' sq = Some p" for sq p
    using handle_pend [OF wf step that] ok msg by (auto simp: node_ok_def)
  moreover have "A v sq = None" if "lead v = i" "view nd' < v" for v sq
    using that ok view by (auto simp: node_ok_def)
  moreover have "A (view nd') sq = None" if "lead (view nd') = i" "next_seq nd' \<le> sq" for sq
  proof (cases "view nd' = view nd")
    case True
    then show ?thesis using that ok view by (auto simp: node_ok_def)
  next
    case False
    then have "view nd < view nd'" using view by auto
    then show ?thesis using that ok by (auto simp: node_ok_def)
  qed
  ultimately show ?thesis
    using handle_wf [OF wf step] handle_id [OF step] id by (simp add: node_ok_def)
qed

lemma node_ok_same:
  assumes "node_ok A i nd" and "wf nd'" and "vt_id vt nd' = vt_id vt nd"
    and "view nd' = view nd \<and> next_seq nd' = next_seq nd \<and> pend nd' = pend nd"
  shows "node_ok A i nd'"
  using assms by (simp add: node_ok_def)

text \<open>Binding a fresh number of the leader's view keeps every node's part of the invariant.\<close>

definition ledger_bind :: "(ViewNumber \<Rightarrow> SequenceNumber \<rightharpoonup> payload) \<Rightarrow> ViewNumber \<Rightarrow> SequenceNumber \<Rightarrow> payload
    \<Rightarrow> ViewNumber \<Rightarrow> SequenceNumber \<rightharpoonup> payload" where
  "ledger_bind A v sq p = A(v := (A v)(sq \<mapsto> p))"

lemma node_ok_bind_other:
  assumes "node_ok A j nd" and "lead v = i" and "i \<noteq> j" and "A v sq = None"
  shows "node_ok (ledger_bind A v sq p) j nd"
  using assms by (auto simp: node_ok_def ledger_bind_def)

lemma node_ok_bind_self:
  assumes ok: "node_ok A i nd" and step: "vt_propose vt nd p = Inr (nd', Accepted, out)"
  shows "node_ok (ledger_bind A (view nd) (next_seq nd) p) i nd'"
proof -
  have wf: "wf nd" and id: "vt_id vt nd = i"
    using ok by (auto simp: node_ok_def)
  have b: "lead (view nd) = i" "view nd' = view nd" "next_seq nd < next_seq nd'"
    "pend nd' = (pend nd)(next_seq nd \<mapsto> p)"
    using propose_binds [OF wf step] id by auto
  have "ledger_bind A (view nd) (next_seq nd) p (view nd') sq = None" if "next_seq nd' \<le> sq" for sq
    using ok b that by (auto simp: node_ok_def ledger_bind_def)
  then show ?thesis
    using ok b propose_wf [OF wf step] propose_id [OF step]
    unfolding node_ok_def by (simp add: ledger_bind_def)
qed

lemma net_ok_propose:
  assumes ok: "net_ok A ids s" and i: "i \<in> ids"
    and step: "vt_propose vt (nt_nodes s i) p = Inr (nd', Accepted, out)"
  shows "net_ok (ledger_bind A (view (nt_nodes s i)) (next_seq (nt_nodes s i)) p) ids
    (s\<lparr>nt_nodes := (nt_nodes s)(i := nd'), nt_sent := nt_sent s \<union> set out,
       nt_proposed := insert p (nt_proposed s)\<rparr>)"
proof -
  let ?nd = "nt_nodes s i"
  have node: "node_ok A i ?nd" using ok i by (auto simp: net_ok_def)
  then have wf: "wf ?nd" and id: "vt_id vt ?nd = i" by (auto simp: node_ok_def)
  note b = propose_binds [OF wf step]
  have free: "A (view ?nd) (next_seq ?nd) = None"
    using node b id by (auto simp: node_ok_def)
  have "node_ok (ledger_bind A (view ?nd) (next_seq ?nd) p) j (nt_nodes s j)" if "j \<in> ids" "j \<noteq> i" for j
    using that ok b id free by (intro node_ok_bind_other [where i = i]) (auto simp: net_ok_def)
  moreover have "node_ok (ledger_bind A (view ?nd) (next_seq ?nd) p) i nd'"
    using node_ok_bind_self [OF node step] .
  moreover have "ledger_bind A (view ?nd) (next_seq ?nd) p v sq = Some q" if "A v sq = Some q" for v sq q
    using that free by (auto simp: ledger_bind_def)
  moreover have "ledger_bind A (view ?nd) (next_seq ?nd) p v sq = Some q"
    if "x \<in> set out" "binding x = Some (v, sq, q)" for x v sq q
    using that b by (auto simp: ledger_bind_def)
  moreover have "q \<in> insert p (nt_proposed s)" if "ledger_bind A (view ?nd) (next_seq ?nd) p v sq = Some q" for v sq q
    using that ok by (auto simp: ledger_bind_def net_ok_def split: if_splits)
  ultimately show ?thesis
    using ok unfolding net_ok_def by auto
qed

lemma net_ok_step:
  assumes "net_step timers vt ids view committed s t" and "net_ok A ids s"
  shows "\<exists>A'. net_ok A' ids t"
  using assms
proof (induction rule: net_step.induct)
  case (net_propose i s p nd' r out)
  show ?case
  proof (cases r)
    case Accepted
    then show ?thesis using net_propose net_ok_propose by blast
  next
    case (NotLeader l)
    then have "nd' = nt_nodes s i" "out = []"
      using net_propose propose_rejected by blast+
    then show ?thesis using net_propose by (auto simp: net_ok_def intro!: exI [of _ A])
  qed
next
  case (net_deliver i m s nd' out)
  let ?nd = "nt_nodes s i"
  have node: "node_ok A i ?nd" using net_deliver by (auto simp: net_ok_def)
  then have wf: "wf ?nd" by (simp add: node_ok_def)
  have "node_ok A i nd'"
    using net_deliver node by (intro node_ok_handle [OF node, of m]) (auto simp: net_ok_def)
  moreover have "A (view ?nd) (ce_sequence e) = Some (ce_payload e)"
    if "e \<in> set (fresh_entries committed ?nd nd')" for e
    using handle_commits [OF wf net_deliver.hyps(3)] that node by (auto simp: node_ok_def)
  moreover have "\<forall>x\<in>set out. binding x = None"
    using handle_sends [OF wf net_deliver.hyps(3)] by blast
  ultimately have "net_ok A ids (s\<lparr>nt_nodes := (nt_nodes s)(i := nd'), nt_sent := nt_sent s \<union> set out,
      nt_decided := (nt_decided s)(i := nt_decided s i @ map (Pair (view ?nd)) (fresh_entries committed ?nd nd'))\<rparr>)"
    using net_deliver.prems unfolding net_ok_def by auto
  then show ?case by blast
next
  case (net_tick i s nd' out)
  then have node: "node_ok A i (nt_nodes s i)" by (auto simp: net_ok_def)
  then have wf: "wf (nt_nodes s i)" by (simp add: node_ok_def)
  have "node_ok A i nd'"
    using node_ok_same [OF node tick_wf [OF wf net_tick.hyps(3)] tick_id [OF net_tick.hyps(3)]]
      tick_keeps [OF wf net_tick.hyps(3)] by blast
  then show ?case
    using net_tick.prems tick_keeps [OF wf net_tick.hyps(3)] by (auto simp: net_ok_def intro!: exI [of _ A])
next
  case (net_poll i s nd' es)
  then have node: "node_ok A i (nt_nodes s i)" by (auto simp: net_ok_def)
  then have wf: "wf (nt_nodes s i)" by (simp add: node_ok_def)
  have "nd' = fst (vt_poll_committed vt (nt_nodes s i))" using net_poll by simp
  then have "node_ok A i nd'"
    using node_ok_same [OF node poll_wf [OF wf] poll_id] poll_keeps by blast
  then show ?case
    using net_poll.prems by (auto simp: net_ok_def intro!: exI [of _ A])
next
  case (net_corrupt m s)
  then show ?case using corrupt_binds [of m] by (auto simp: net_ok_def intro!: exI [of _ A])
qed

text \<open>A start state: fresh nodes, nothing pending.\<close>

definition fresh_nodes :: "node_id set \<Rightarrow> (node_id \<Rightarrow> 'n) \<Rightarrow> bool" where
  "fresh_nodes ids nodes \<longleftrightarrow>
     (\<forall>i\<in>ids. wf (nodes i) \<and> vt_id vt (nodes i) = i \<and> pend (nodes i) = Map.empty)"

lemma net_ok_init: "fresh_nodes ids nodes \<Longrightarrow> net_ok (\<lambda>v. Map.empty) ids (net_init nodes)"
  by (auto simp: fresh_nodes_def net_ok_def net_init_def node_ok_def)

lemma reach_net_ok:
  assumes "fresh_nodes ids nodes" and "net_reach timers vt ids view committed (net_init nodes) s"
  shows "\<exists>A. net_ok A ids s"
  by (rule net_reach_invariant [OF assms(2)]) (use net_ok_init [OF assms(1)] net_ok_step in blast)+

lemma view_agreement:
  assumes "fresh_nodes ids nodes" and "net_reach timers vt ids view committed (net_init nodes) s"
    and "(v, e) \<in> set (nt_decided s i)" and "(v, e') \<in> set (nt_decided s j)" and "ce_sequence e = ce_sequence e'"
  shows "ce_payload e = ce_payload e'"
proof -
  obtain A where "net_ok A ids s" using reach_net_ok [OF assms(1,2)] ..
  then have "A v (ce_sequence e) = Some (ce_payload e)" "A v (ce_sequence e') = Some (ce_payload e')"
    using assms(3,4) by (auto simp: net_ok_def)
  then show ?thesis using assms(5) by simp
qed

lemma decided_validity:
  assumes "fresh_nodes ids nodes" and "net_reach timers vt ids view committed (net_init nodes) s"
    and "(v, e) \<in> set (nt_decided s i)"
  shows "ce_payload e \<in> nt_proposed s"
proof -
  obtain A where "net_ok A ids s" using reach_net_ok [OF assms(1,2)] ..
  then show ?thesis using assms(3) unfolding net_ok_def by blast
qed

text \<open>
  Without timers no view ever changes, so the agreement of each view is agreement of the whole
  system.
\<close>

definition still :: "node_id set \<Rightarrow> 'n net \<Rightarrow> bool" where
  "still ids s \<longleftrightarrow>
     (\<forall>i\<in>ids. wf (nt_nodes s i) \<and> view (nt_nodes s i) = 0) \<and>
     (\<forall>m\<in>nt_sent s. msg_view m = 0) \<and> (\<forall>i. \<forall>x\<in>set (nt_decided s i). fst x = 0)"

lemma still_step:
  assumes "net_step False vt ids view committed s t" and "still ids s"
  shows "still ids t"
  using assms
proof (induction rule: net_step.induct)
  case (net_propose i s p nd' r out)
  then have nd: "wf (nt_nodes s i)" "view (nt_nodes s i) = 0" by (auto simp: still_def)
  have "view nd' = 0 \<and> (\<forall>x\<in>set out. msg_view x = 0)"
  proof (cases r)
    case Accepted
    then show ?thesis using propose_binds [OF nd(1)] net_propose.hyps(2) nd(2) by fastforce
  next
    case (NotLeader l)
    then show ?thesis using propose_rejected net_propose.hyps(2) nd(2) by fastforce
  qed
  then show ?case
    using net_propose.prems propose_wf [OF nd(1) net_propose.hyps(2)] by (auto simp: still_def)
next
  case (net_deliver i m s nd' out)
  then have nd: "wf (nt_nodes s i)" "view (nt_nodes s i) = 0" "msg_view m = 0" by (auto simp: still_def)
  have "view nd' = 0 \<and> (\<forall>x\<in>set out. msg_view x = 0)"
    using handle_view [OF nd(1) net_deliver.hyps(3)] handle_sends [OF nd(1) net_deliver.hyps(3)] nd by auto
  then show ?case
    using net_deliver.prems handle_wf [OF nd(1) net_deliver.hyps(3)] nd by (auto simp: still_def)
next
  case (net_poll i s nd' es)
  then have "wf (nt_nodes s i)" "view (nt_nodes s i) = 0" by (auto simp: still_def)
  moreover have "nd' = fst (vt_poll_committed vt (nt_nodes s i))" using net_poll by simp
  ultimately show ?case
    using net_poll.prems poll_wf [of "nt_nodes s i"] poll_keeps [of "nt_nodes s i"] by (auto simp: still_def)
next
  case (net_corrupt m s)
  then show ?case using corrupt_binds [of m] by (auto simp: still_def)
qed simp

lemma still_views:
  assumes "fresh_nodes ids nodes" and "\<forall>i\<in>ids. view (nodes i) = 0"
    and reach: "net_reach False vt ids view committed (net_init nodes) s" and "(v, e) \<in> set (nt_decided s i)"
  shows "v = 0"
proof -
  have "still ids (net_init nodes)"
    using assms(1,2) by (auto simp: still_def net_init_def fresh_nodes_def)
  then have "still ids s"
    using net_reach_invariant [OF reach] still_step by blast
  then show ?thesis using assms(4) by (force simp: still_def)
qed

lemma still_agreement:
  assumes fresh: "fresh_nodes ids nodes" and "\<forall>i\<in>ids. view (nodes i) = 0"
    and reach: "net_reach False vt ids view committed (net_init nodes) s"
    and "(v, e) \<in> set (nt_decided s i)" and "(v', e') \<in> set (nt_decided s j)" and "ce_sequence e = ce_sequence e'"
  shows "ce_payload e = ce_payload e'"
proof -
  have "v = 0" "v' = 0" using still_views [OF assms(1-3)] assms(4,5) by blast+
  then show ?thesis using view_agreement [OF fresh reach] assms(4,5,6) by blast
qed

end

end
