(* ===== verification/ClusterSafety.thy ===== *)
theory ClusterSafety
  imports ClusterNet Sequenced
begin

text \<open>
  What the checks of the commit log report for a cluster of a sequenced protocol in which no
  node equivocates: validity passes after every sequence of calls, agreement after every sequence
  without ticks.  The proofs go through the run of the asynchronous system that the cluster is.
\<close>

definition node_at :: "'n vtable \<Rightarrow> 'n list \<Rightarrow> node_id \<Rightarrow> 'n" where
  "node_at vt nds i = (case node_position vt nds i of Some k \<Rightarrow> nds ! k | None \<Rightarrow> nds ! 0)"

lemma node_at_self:
  assumes "distinct (map (vt_id vt) nds)" and "nd \<in> set nds"
  shows "node_at vt nds (vt_id vt nd) = nd"
proof -
  obtain k where k: "node_position vt nds (vt_id vt nd) = Some k"
    using assms(2) node_position_None [of vt nds "vt_id vt nd"] by (cases "node_position vt nds (vt_id vt nd)") auto
  obtain j where j: "j < length nds" "nds ! j = nd" using assms(2) by (auto simp: in_set_conv_nth)
  have "k < length nds" "vt_id vt (nds ! k) = vt_id vt nd"
    using node_position_SomeD [OF k] by auto
  then have "map (vt_id vt) nds ! k = map (vt_id vt) nds ! j" using j by simp
  then have "k = j" using nth_eq_iff_index_eq [OF assms(1), of k j] j(1) \<open>k < length nds\<close> by simp
  then show ?thesis using k j by (simp add: node_at_def)
qed

lemma cluster_rel_start:
  assumes "distinct (map (vt_id vt) nds)" and "\<forall>nd\<in>set nds. committed nd = []"
    and "no_equivocation fc"
  shows "cluster_rel vt committed full (map (vt_id vt) nds) (cluster_of nds fc) (net_init (node_at vt nds))"
  using assms node_at_self [OF assms(1)]
  by (simp add: cluster_rel_def cluster_of_def net_init_def commit_log_new_def list_at_def holds_history_def)

context sequenced_protocol begin

definition start_nodes :: "'n list \<Rightarrow> bool" where
  "start_nodes nds \<longleftrightarrow> distinct (map (vt_id vt) nds) \<and>
     (\<forall>nd\<in>set nds. wf nd \<and> committed nd = [] \<and> pend nd = Map.empty \<and> view nd = 0)"

lemma start_fresh: "start_nodes nds \<Longrightarrow> fresh_nodes (set (map (vt_id vt) nds)) (node_at vt nds)"
  by (auto simp: start_nodes_def fresh_nodes_def node_at_self)

lemma cluster_sim:
  assumes start: "start_nodes nds" and fc: "no_equivocation fc"
    and run: "cluster_run X vt (cluster_of nds fc) ops = Inr c'" and ops: "\<forall>x\<in>set ops. loyal_op timers full x"
  shows "\<exists>t. net_reach timers vt (set (map (vt_id vt) nds)) view committed (net_init (node_at vt nds)) t \<and>
    cluster_rel vt committed full (map (vt_id vt) nds) c' t"
proof -
  have "cluster_rel vt committed full (map (vt_id vt) nds) (cluster_of nds fc) (net_init (node_at vt nds))"
    using start fc by (intro cluster_rel_start) (auto simp: start_nodes_def)
  from sim_cluster_run [OF this run ops] show ?thesis .
qed

lemma start_views: "start_nodes nds \<Longrightarrow> \<forall>i\<in>set (map (vt_id vt) nds). view (node_at vt nds i) = 0"
  by (auto simp: start_nodes_def node_at_self)

text \<open>Without ticks, what the log records was decided in view 0.\<close>

lemma cluster_still_sim:
  assumes start: "start_nodes nds" and fc: "no_equivocation fc"
    and run: "cluster_run X vt (cluster_of nds fc) ops = Inr c'" and ops: "\<forall>x\<in>set ops. loyal_op False full x"
  shows "\<exists>t. net_reach False vt (set (map (vt_id vt) nds)) view committed (net_init (node_at vt nds)) t \<and>
    (\<forall>i. \<forall>e\<in>set (list_at (lg_commits (cl_commit_log c')) i). (0, e) \<in> set (nt_decided t i))"
proof -
  obtain t where t: "net_reach False vt (set (map (vt_id vt) nds)) view committed (net_init (node_at vt nds)) t"
    and rel: "cluster_rel vt committed full (map (vt_id vt) nds) c' t"
    using cluster_sim [OF start fc run ops] by blast
  have "(0, e) \<in> set (nt_decided t i)" if e: "e \<in> set (list_at (lg_commits (cl_commit_log c')) i)" for i e
  proof -
    have "e \<in> snd ` set (nt_decided t i)"
      using list_emb_set [OF cluster_rel_logged [OF rel] e] by auto
    then show ?thesis using still_views [OF start_fresh [OF start] start_views [OF start] t] by force
  qed
  with t show ?thesis by blast
qed

lemma cluster_validity:
  assumes start: "start_nodes nds" and fc: "no_equivocation fc"
    and run: "cluster_run X vt (cluster_of nds fc) ops = Inr c'" and ops: "\<forall>x\<in>set ops. loyal_op True False x"
  shows "check_validity (cl_commit_log c') honest = Pass"
proof -
  from cluster_sim [OF start fc run ops] obtain t where
    t: "net_reach True vt (set (map (vt_id vt) nds)) view committed (net_init (node_at vt nds)) t"
    and rel: "cluster_rel vt committed False (map (vt_id vt) nds) c' t"
    by blast
  have "ce_payload e \<in> set (lg_proposed (cl_commit_log c'))" if e: "log_entry_of (cl_commit_log c') i e" for i e
  proof -
    obtain v where "(v, e) \<in> set (nt_decided t i)" using cluster_rel_entry [OF rel e] ..
    from decided_validity [OF start_fresh [OF start] t this] show ?thesis
      using rel by (auto simp: cluster_rel_def)
  qed
  then show ?thesis by (simp add: check_validity_Pass log_validity_def)
qed

lemma cluster_agreement:
  assumes start: "start_nodes nds" and fc: "no_equivocation fc"
    and run: "cluster_run X vt (cluster_of nds fc) ops = Inr c'" and ops: "\<forall>x\<in>set ops. loyal_op False False x"
  shows "check_agreement (cl_commit_log c') honest = Pass"
proof -
  from cluster_sim [OF start fc run ops] obtain t where
    t: "net_reach False vt (set (map (vt_id vt) nds)) view committed (net_init (node_at vt nds)) t"
    and rel: "cluster_rel vt committed False (map (vt_id vt) nds) c' t"
    by blast
  have same: "ce_payload e = ce_payload e'"
    if e: "log_entry_of (cl_commit_log c') i e" "log_entry_of (cl_commit_log c') j e'"
      "ce_sequence e = ce_sequence e'" for i j e e'
  proof -
    obtain v where v: "(v, e) \<in> set (nt_decided t i)" using cluster_rel_entry [OF rel e(1)] ..
    obtain v' where v': "(v', e') \<in> set (nt_decided t j)" using cluster_rel_entry [OF rel e(2)] ..
    show ?thesis by (rule still_agreement [OF start_fresh [OF start] start_views [OF start] t v v' e(3)])
  qed
  show ?thesis
    unfolding check_agreement_Pass log_agreement_def by (intro ballI allI impI) (rule same)
qed

end

end
