(* ===== verification/ClusterLemmas.thy ===== *)
theory ClusterLemmas
  imports ClusterNet
begin

text \<open>
  The orchestrator on its own: what its counters satisfy, what a run does and when it ends, and
  that a step never touches an isolated node.  Nothing here depends on the protocol.
\<close>

section \<open>Counters\<close>

text \<open>Every message counted as sent is dropped, or handed to at most one node, possibly tampered with.\<close>

definition stats_ok :: "cluster_stats \<Rightarrow> bool" where
  "stats_ok st \<longleftrightarrow>
     unat (cs_messages_delivered st) + unat (cs_messages_dropped st) \<le> unat (cs_messages_sent st) \<and>
     unat (cs_messages_tampered st) + unat (cs_messages_dropped st) \<le> unat (cs_messages_sent st)"

text \<open>One message uses up at most one unit of the slack between the counters.\<close>

lemma count_sent_Inr: "count_sent c = Inr c' \<Longrightarrow>
    unat (cs_messages_sent (cl_stats c')) = Suc (unat (cs_messages_sent (cl_stats c))) \<and>
    cs_messages_delivered (cl_stats c') = cs_messages_delivered (cl_stats c) \<and>
    cs_messages_dropped (cl_stats c') = cs_messages_dropped (cl_stats c) \<and>
    cs_messages_tampered (cl_stats c') = cs_messages_tampered (cl_stats c) \<and>
    cs_total_steps (cl_stats c') = cs_total_steps (cl_stats c)"
  by (auto simp: count_sent_def rbind_eq_Inr dest: add_u64_unat)

lemma count_dropped_Inr: "count_dropped c = Inr c' \<Longrightarrow>
    unat (cs_messages_dropped (cl_stats c')) = Suc (unat (cs_messages_dropped (cl_stats c))) \<and>
    cs_messages_delivered (cl_stats c') = cs_messages_delivered (cl_stats c) \<and>
    cs_messages_sent (cl_stats c') = cs_messages_sent (cl_stats c) \<and>
    cs_messages_tampered (cl_stats c') = cs_messages_tampered (cl_stats c) \<and>
    cs_total_steps (cl_stats c') = cs_total_steps (cl_stats c)"
  by (auto simp: count_dropped_def rbind_eq_Inr dest: add_u64_unat)

lemma count_delivered_Inr: "count_delivered c = Inr c' \<Longrightarrow>
    unat (cs_messages_delivered (cl_stats c')) = Suc (unat (cs_messages_delivered (cl_stats c))) \<and>
    cs_messages_dropped (cl_stats c') = cs_messages_dropped (cl_stats c) \<and>
    cs_messages_sent (cl_stats c') = cs_messages_sent (cl_stats c) \<and>
    cs_messages_tampered (cl_stats c') = cs_messages_tampered (cl_stats c) \<and>
    cs_total_steps (cl_stats c') = cs_total_steps (cl_stats c)"
  by (auto simp: count_delivered_def rbind_eq_Inr dest: add_u64_unat)

lemma count_tampered_Inr: "count_tampered c = Inr c' \<Longrightarrow>
    unat (cs_messages_tampered (cl_stats c')) = Suc (unat (cs_messages_tampered (cl_stats c))) \<and>
    cs_messages_dropped (cl_stats c') = cs_messages_dropped (cl_stats c) \<and>
    cs_messages_sent (cl_stats c') = cs_messages_sent (cl_stats c) \<and>
    cs_messages_delivered (cl_stats c') = cs_messages_delivered (cl_stats c) \<and>
    cs_total_steps (cl_stats c') = cs_total_steps (cl_stats c)"
  by (auto simp: count_tampered_def rbind_eq_Inr dest: add_u64_unat)

lemma count_step_Inr: "count_step c = Inr c' \<Longrightarrow>
    unat (cs_total_steps (cl_stats c')) = Suc (unat (cs_total_steps (cl_stats c))) \<and>
    cs_messages_dropped (cl_stats c') = cs_messages_dropped (cl_stats c) \<and>
    cs_messages_sent (cl_stats c') = cs_messages_sent (cl_stats c) \<and>
    cs_messages_delivered (cl_stats c') = cs_messages_delivered (cl_stats c) \<and>
    cs_messages_tampered (cl_stats c') = cs_messages_tampered (cl_stats c)"
  by (auto simp: count_step_def rbind_eq_Inr dest: add_u64_unat)

lemma deliver_one_message:
  assumes "deliver_tampered vt byz c [m] = Inr (c', out)"
  shows "unat (cs_messages_delivered (cl_stats c')) \<le> Suc (unat (cs_messages_delivered (cl_stats c))) \<and>
    unat (cs_messages_tampered (cl_stats c')) \<le> Suc (unat (cs_messages_tampered (cl_stats c))) \<and>
    cs_messages_sent (cl_stats c') = cs_messages_sent (cl_stats c) \<and>
    cs_messages_dropped (cl_stats c') = cs_messages_dropped (cl_stats c) \<and>
    cs_total_steps (cl_stats c') = cs_total_steps (cl_stats c) \<and> cl_faults c' = cl_faults c"
proof -
  obtain c1 where c1: "(if byz then count_tampered c else Inr c) = Inr c1"
    using assms by (auto simp: rbind_eq_Inr)
  then have s1: "cs_messages_delivered (cl_stats c1) = cs_messages_delivered (cl_stats c) \<and>
      unat (cs_messages_tampered (cl_stats c1)) \<le> Suc (unat (cs_messages_tampered (cl_stats c))) \<and>
      cs_messages_sent (cl_stats c1) = cs_messages_sent (cl_stats c) \<and>
      cs_messages_dropped (cl_stats c1) = cs_messages_dropped (cl_stats c) \<and>
      cs_total_steps (cl_stats c1) = cs_total_steps (cl_stats c) \<and> cl_faults c1 = cl_faults c"
    using count_tampered_Inr [of c c1] count_frame [of c c1] by (auto split: if_splits)
  show ?thesis
  proof (cases "node_position vt (cl_nodes c1) (msg_to m)")
    case None
    then show ?thesis using assms c1 s1 by simp
  next
    case (Some k)
    then obtain c2 nd' where c2: "count_delivered c1 = Inr c2" and c': "c' = c2\<lparr>cl_nodes := (cl_nodes c2)[k := nd']\<rparr>"
      using assms c1 by (auto simp: rbind_eq_Inr)
    show ?thesis using count_delivered_Inr [OF c2] count_frame [of c1 c2] c2 c' s1 by simp
  qed
qed

lemma deliver_one_stats:
  assumes step: "deliver_one X vt c m = Inr (c', out)" and ok: "stats_ok (cl_stats c)"
  shows "stats_ok (cl_stats c') \<and> cs_total_steps (cl_stats c') = cs_total_steps (cl_stats c)"
proof -
  obtain c1 where c1: "count_sent c = Inr c1" using step by (auto simp: deliver_one_def rbind_eq_Inr)
  obtain fc d where fc: "should_deliver X (cl_faults c1) m = (fc, d)" by fastforce
  let ?c2 = "c1\<lparr>cl_faults := fc\<rparr>" and ?ms = "tamper (sha256 X) fc m"
  note s1 = count_sent_Inr [OF c1]
  show ?thesis
  proof (cases "d \<and> ?ms \<noteq> []")
    case False
    then have "count_dropped ?c2 = Inr c'"
      using step c1 fc by (auto simp: deliver_one_def Let_def rbind_eq_Inr split: if_splits)
    from count_dropped_Inr [OF this] s1 ok show ?thesis by (auto simp: stats_ok_def)
  next
    case True
    then obtain x where x: "?ms = [x]" using tamper_at_most_one [of "sha256 X" fc m] by (cases ?ms) auto
    have "deliver_tampered vt (is_byzantine fc (msg_from m)) ?c2 [x] = Inr (c', out)"
      using step c1 fc True x by (simp add: deliver_one_def Let_def del: deliver_tampered.simps)
    from deliver_one_message [OF this] s1 ok show ?thesis by (auto simp: stats_ok_def)
  qed
qed

lemma deliver_all_stats:
  "deliver_all X vt c ms = Inr (c', out) \<Longrightarrow> stats_ok (cl_stats c) \<Longrightarrow>
     stats_ok (cl_stats c') \<and> cs_total_steps (cl_stats c') = cs_total_steps (cl_stats c)"
proof (induction ms arbitrary: c out)
  case (Cons m ms)
  then obtain c1 out1 out2 where d: "deliver_one X vt c m = Inr (c1, out1)" "deliver_all X vt c1 ms = Inr (c', out2)"
    by (auto simp: rbind_eq_Inr)
  from deliver_one_stats [OF d(1) Cons.prems(2)] Cons.IH [OF d(2)] show ?case by simp
qed simp

lemma cluster_step_stats:
  assumes step: "cluster_step X vt c = Inr c'" and ok: "stats_ok (cl_stats c)"
  shows "stats_ok (cl_stats c') \<and> unat (cs_total_steps (cl_stats c')) = Suc (unat (cs_total_steps (cl_stats c)))"
proof -
  obtain c1 ms c2 where d: "deliver_all X vt (c\<lparr>cl_pending := []\<rparr>) (cl_pending c) = Inr (c1, ms)"
    "count_step c1 = Inr c2" "c' = enqueue c2 ms"
    using step by (auto simp: cluster_step_def rbind_eq_Inr)
  from deliver_all_stats [OF d(1)] count_step_Inr [OF d(2)] d(3) ok show ?thesis
    by (auto simp: stats_ok_def enqueue_def)
qed

section \<open>Running to completion\<close>

fun cluster_steps :: "'rng extern \<Rightarrow> 'n vtable \<Rightarrow> nat \<Rightarrow> ('n, 'rng) cluster \<Rightarrow> ('n, 'rng) cluster res" where
  "cluster_steps X vt 0 c = Inr c"
| "cluster_steps X vt (Suc k) c = rbind (cluster_step X vt c) (cluster_steps X vt k)"

lemma run_to_completion_steps:
  "run_to_completion X vt c k = Inr (c', j) \<Longrightarrow>
     j \<le> k \<and> (j < k \<longrightarrow> cl_pending c' = []) \<and> cluster_steps X vt j c = Inr c'"
proof (induction k arbitrary: c j)
  case (Suc k)
  show ?case
  proof (cases "cl_pending c = []")
    case True
    then show ?thesis using Suc.prems by auto
  next
    case False
    then obtain c1 i where c1: "cluster_step X vt c = Inr c1" "run_to_completion X vt c1 k = Inr (c', i)" "j = Suc i"
      using Suc.prems by (auto simp: rbind_eq_Inr)
    from Suc.IH [OF c1(2)] c1 show ?thesis by simp
  qed
qed simp

lemma cluster_steps_stats:
  "cluster_steps X vt j c = Inr c' \<Longrightarrow> stats_ok (cl_stats c) \<Longrightarrow>
     stats_ok (cl_stats c') \<and> unat (cs_total_steps (cl_stats c')) = unat (cs_total_steps (cl_stats c)) + j"
proof (induction j arbitrary: c)
  case (Suc j)
  then obtain c1 where c1: "cluster_step X vt c = Inr c1" "cluster_steps X vt j c1 = Inr c'"
    by (auto simp: rbind_eq_Inr)
  from cluster_step_stats [OF c1(1) Suc.prems(2)] Suc.IH [OF c1(2)] show ?case by simp
qed simp

section \<open>Calls that do not count\<close>

lemma propose_loop_stats: "propose_loop vt c p ks = Inr (c', r) \<Longrightarrow> cl_stats c' = cl_stats c"
proof (induction ks arbitrary: c)
  case (Cons k ks)
  show ?case
  proof (cases "is_isolated (cl_faults c) (vt_id vt (cl_nodes c ! k))")
    case True
    then show ?thesis using Cons by simp
  next
    case False
    then obtain nd' r1 out where p: "vt_propose vt (cl_nodes c ! k) p = Inr (nd', r1, out)"
      using Cons.prems by (auto simp: rbind_eq_Inr Let_def)
    then show ?thesis
      using Cons.prems False Cons.IH [of "c\<lparr>cl_nodes := (cl_nodes c)[k := nd']\<rparr>"]
      by (auto simp: Let_def enqueue_def rbind_eq_Inr split: propose_result.splits option.splits)
  qed
qed simp

lemma tick_loop_stats: "tick_loop vt c ks = Inr c' \<Longrightarrow> cl_stats c' = cl_stats c"
  by (induction ks arbitrary: c) (fastforce simp: rbind_eq_Inr enqueue_def)+

lemma collect_loop_stats: "collect_loop vt rec c ks = (c', results) \<Longrightarrow> cl_stats c' = cl_stats c"
proof (induction ks arbitrary: c results)
  case (Cons k ks)
  then show ?case by (fastforce simp: Let_def split: prod.splits if_splits)
qed simp

lemma wait_for_leader_stats:
  "wait_for_leader X vt c k = Inr (c', l) \<Longrightarrow> stats_ok (cl_stats c) \<Longrightarrow> stats_ok (cl_stats c')"
proof (induction k arbitrary: c)
  case (Suc k)
  then obtain c1 c2 n l' where c1: "cluster_tick vt c = Inr c1"
    and c2: "run_to_completion X vt c1 100 = Inr (c2, n)"
    and rest: "(case l' of Some i \<Rightarrow> Inr (c2, Some i) | None \<Rightarrow> wait_for_leader X vt c2 k) = Inr (c', l)"
    by (auto simp: rbind_eq_Inr)
  have "stats_ok (cl_stats c1)" using tick_loop_stats c1 Suc.prems(2) by (metis cluster_tick_def)
  then have "stats_ok (cl_stats c2)" using run_to_completion_steps [OF c2] cluster_steps_stats by blast
  then show ?case using rest Suc.IH [of c2] by (auto split: option.splits)
qed simp

lemma cluster_exec_stats:
  assumes step: "cluster_exec X vt c x = Inr c'" and ok: "stats_ok (cl_stats c)"
  shows "stats_ok (cl_stats c')"
proof (cases x)
  case (DoPropose p)
  then show ?thesis
    using assms by (auto simp: cluster_exec_def cluster_propose_def rbind_eq_Inr dest: propose_loop_stats)
next
  case DoStep
  then show ?thesis using assms cluster_step_stats by (auto simp: cluster_exec_def)
next
  case (DoRun k)
  then show ?thesis
    using assms cluster_steps_stats by (fastforce simp: cluster_exec_def rbind_eq_Inr dest: run_to_completion_steps)
next
  case DoTick
  then show ?thesis using assms by (auto simp: cluster_exec_def cluster_tick_def dest: tick_loop_stats)
next
  case (DoWait k)
  then show ?thesis using assms by (auto simp: cluster_exec_def rbind_eq_Inr dest: wait_for_leader_stats)
next
  case (DoCollect recording)
  then show ?thesis
    using assms by (auto simp: cluster_exec_def collect_and_record_commits_def collect_committed_def
        collect_loop_stats [OF surjective_pairing])
qed (use assms in \<open>auto simp: cluster_exec_def set_faults_def clear_faults_def\<close>)

lemma cluster_run_stats:
  "cluster_run X vt c ops = Inr c' \<Longrightarrow> stats_ok (cl_stats c) \<Longrightarrow> stats_ok (cl_stats c')"
  by (induction ops arbitrary: c) (auto simp: rbind_eq_Inr dest: cluster_exec_stats)

section \<open>Isolation\<close>

lemma deliver_tampered_other:
  assumes "deliver_tampered vt byz c ms = Inr (c', out)" and "k < length (cl_nodes c)"
    and "\<forall>m\<in>set ms. msg_to m \<noteq> vt_id vt (cl_nodes c ! k)"
  shows "cl_nodes c' ! k = cl_nodes c ! k \<and> length (cl_nodes c') = length (cl_nodes c) \<and> cl_faults c' = cl_faults c"
  using assms
proof (induction ms arbitrary: c out)
  case (Cons m ms)
  obtain c1 where c1: "(if byz then count_tampered c else Inr c) = Inr c1"
    using Cons.prems(1) by (auto simp: rbind_eq_Inr)
  then have f1: "cl_nodes c1 = cl_nodes c" "cl_faults c1 = cl_faults c"
    using count_frame [of c c1] by (auto split: if_splits)
  show ?case
  proof (cases "node_position vt (cl_nodes c1) (msg_to m)")
    case None
    then have "deliver_tampered vt byz c1 ms = Inr (c', out)" using Cons.prems(1) c1 by simp
    from Cons.IH [OF this] Cons.prems(2,3) f1 show ?thesis by simp
  next
    case (Some j)
    then obtain c2 nd' out1 out2 where c2: "count_delivered c1 = Inr c2"
      and d: "deliver_tampered vt byz (c2\<lparr>cl_nodes := (cl_nodes c2)[j := nd']\<rparr>) ms = Inr (c', out2)"
      using Cons.prems(1) c1 by (auto simp: rbind_eq_Inr)
    have f2: "cl_nodes c2 = cl_nodes c" "cl_faults c2 = cl_faults c"
      using count_frame [of c1 c2] c2 f1 by auto
    have "j \<noteq> k" using node_position_SomeD [OF Some] Cons.prems(3) f1 by auto
    then show ?thesis using Cons.IH [OF d] Cons.prems(2,3) f2 by simp
  qed
qed simp

lemma deliver_one_isolated:
  assumes step: "deliver_one X vt c m = Inr (c', out)" and k: "k < length (cl_nodes c)"
    and iso: "is_isolated (cl_faults c) (vt_id vt (cl_nodes c ! k))"
  shows "cl_nodes c' ! k = cl_nodes c ! k \<and> length (cl_nodes c') = length (cl_nodes c) \<and>
    fc_isolated_nodes (cl_faults c') = fc_isolated_nodes (cl_faults c)"
proof -
  obtain c1 where c1: "count_sent c = Inr c1" using step by (auto simp: deliver_one_def rbind_eq_Inr)
  have f1: "cl_nodes c1 = cl_nodes c" "cl_faults c1 = cl_faults c" using count_frame [of c c1] c1 by auto
  obtain fc d where fc: "should_deliver X (cl_faults c1) m = (fc, d)" by fastforce
  let ?c2 = "c1\<lparr>cl_faults := fc\<rparr>" and ?ms = "tamper (sha256 X) fc m"
  have same: "fc_isolated_nodes fc = fc_isolated_nodes (cl_faults c)" using should_deliver_frame [OF fc] f1 by simp
  show ?thesis
  proof (cases "d \<and> ?ms \<noteq> []")
    case False
    then have "count_dropped ?c2 = Inr c'"
      using step c1 fc by (auto simp: deliver_one_def Let_def rbind_eq_Inr split: if_splits)
    with count_frame [of ?c2 c'] same f1 show ?thesis by simp
  next
    case True
    then have d: "deliver_tampered vt (is_byzantine fc (msg_from m)) ?c2 ?ms = Inr (c', out)"
      using step c1 fc by (simp add: deliver_one_def Let_def del: deliver_tampered.simps)
    have "msg_to m \<noteq> vt_id vt (cl_nodes c ! k)"
      using fc True iso f1 by (auto simp: should_deliver_def is_isolated_def split: if_splits)
    then have "\<forall>x\<in>set ?ms. msg_to x \<noteq> vt_id vt (cl_nodes ?c2 ! k)"
      using tamper_envelope f1 by fastforce
    from deliver_tampered_other [OF d _ this] k f1 same show ?thesis by simp
  qed
qed

lemma deliver_all_isolated:
  assumes "deliver_all X vt c ms = Inr (c', out)" and "k < length (cl_nodes c)"
    and "is_isolated (cl_faults c) (vt_id vt (cl_nodes c ! k))"
  shows "cl_nodes c' ! k = cl_nodes c ! k \<and> length (cl_nodes c') = length (cl_nodes c) \<and>
    fc_isolated_nodes (cl_faults c') = fc_isolated_nodes (cl_faults c)"
  using assms
proof (induction ms arbitrary: c out)
  case (Cons m ms)
  then obtain c1 out1 out2 where d: "deliver_one X vt c m = Inr (c1, out1)" "deliver_all X vt c1 ms = Inr (c', out2)"
    by (auto simp: rbind_eq_Inr)
  have s: "cl_nodes c1 ! k = cl_nodes c ! k" "length (cl_nodes c1) = length (cl_nodes c)"
    "fc_isolated_nodes (cl_faults c1) = fc_isolated_nodes (cl_faults c)"
    using deliver_one_isolated [OF d(1) Cons.prems(2,3)] by auto
  then show ?case using Cons.IH [OF d(2)] Cons.prems(2,3) by (simp add: is_isolated_def)
qed simp

lemma cluster_step_isolated:
  assumes "cluster_step X vt c = Inr c'" and "k < length (cl_nodes c)"
    and "is_isolated (cl_faults c) (vt_id vt (cl_nodes c ! k))"
  shows "cl_nodes c' ! k = cl_nodes c ! k \<and> length (cl_nodes c') = length (cl_nodes c) \<and>
    fc_isolated_nodes (cl_faults c') = fc_isolated_nodes (cl_faults c)"
proof -
  obtain c1 ms c2 where d: "deliver_all X vt (c\<lparr>cl_pending := []\<rparr>) (cl_pending c) = Inr (c1, ms)"
    "count_step c1 = Inr c2" "c' = enqueue c2 ms"
    using assms(1) by (auto simp: cluster_step_def rbind_eq_Inr)
  from deliver_all_isolated [OF d(1)] assms(2,3) count_frame [of c1 c2] d(2,3) show ?thesis
    by (simp add: enqueue_def)
qed

lemma cluster_steps_isolated:
  "cluster_steps X vt j c = Inr c' \<Longrightarrow> k < length (cl_nodes c) \<Longrightarrow>
     is_isolated (cl_faults c) (vt_id vt (cl_nodes c ! k)) \<Longrightarrow> cl_nodes c' ! k = cl_nodes c ! k"
proof (induction j arbitrary: c)
  case (Suc j)
  then obtain c1 where c1: "cluster_step X vt c = Inr c1" "cluster_steps X vt j c1 = Inr c'"
    by (auto simp: rbind_eq_Inr)
  note s = cluster_step_isolated [OF c1(1) Suc.prems(2,3)]
  then show ?case using Suc.IH [OF c1(2)] Suc.prems(2,3) by (simp add: is_isolated_def)
qed simp

end
