(* ===== verification/Rounds.thy ===== *)
theory Rounds
  imports ClusterLemmas "HOL-Library.Multiset"
begin

text \<open>
  One step of a cluster whose network loses nothing, node by node.  Within a step the nodes only
  meet through their answers, so a node's share of a step is a run over its inbox, the messages
  addressed to it in queue order; the answers of the step are, as a multiset, those of the nodes.
  Byzantine nodes may corrupt digests, and equivocate as long as they do not lead.
\<close>

section \<open>Messages up to their digest\<close>

fun strip_digest :: "protocol_message \<Rightarrow> protocol_message" where
  "strip_digest (Pbft (PrePrepare v sq d p)) = Pbft (PrePrepare v sq (Digest []) p)"
| "strip_digest (Pbft (Prepare v sq d i)) = Pbft (Prepare v sq (Digest []) i)"
| "strip_digest (Pbft (Commit v sq d i)) = Pbft (Commit v sq (Digest []) i)"
| "strip_digest (HotStuff (Propose v sq d p jv jp)) = HotStuff (Propose v sq (Digest []) p jv jp)"
| "strip_digest (HotStuff (Vote v sq d ph i)) = HotStuff (Vote v sq (Digest []) ph i)"
| "strip_digest (HotStuff (QuorumCertificate v sq d ph c)) = HotStuff (QuorumCertificate v sq (Digest []) ph c)"
| "strip_digest m = m"

lemma strip_digest_iffs:
  "strip_digest m = Pbft (PrePrepare v sq (Digest []) p) \<longleftrightarrow> (\<exists>d. m = Pbft (PrePrepare v sq d p))"
  "strip_digest m = Pbft (Prepare v sq (Digest []) i) \<longleftrightarrow> (\<exists>d. m = Pbft (Prepare v sq d i))"
  "strip_digest m = Pbft (Commit v sq (Digest []) i) \<longleftrightarrow> (\<exists>d. m = Pbft (Commit v sq d i))"
  "strip_digest m = HotStuff (Propose v sq (Digest []) p jv jp) \<longleftrightarrow> (\<exists>d. m = HotStuff (Propose v sq d p jv jp))"
  "strip_digest m = HotStuff (Vote v sq (Digest []) ph i) \<longleftrightarrow> (\<exists>d. m = HotStuff (Vote v sq d ph i))"
  "strip_digest m = HotStuff (QuorumCertificate v sq (Digest []) ph c) \<longleftrightarrow>
     (\<exists>d. m = HotStuff (QuorumCertificate v sq d ph c))"
  "strip_digest m = Raft rm \<longleftrightarrow> m = Raft rm"
  by (cases m rule: strip_digest.cases; auto)+

definition same_msg :: "network_message \<Rightarrow> network_message \<Rightarrow> bool" where
  "same_msg m m' \<longleftrightarrow> msg_from m' = msg_from m \<and> msg_to m' = msg_to m \<and>
     strip_digest (msg_payload m') = strip_digest (msg_payload m)"

lemma same_msg_refl [simp]: "same_msg m m"
  by (simp add: same_msg_def)

lemma same_msg_trans: "same_msg m1 m2 \<Longrightarrow> same_msg m2 m3 \<Longrightarrow> same_msg m1 m3"
  by (simp add: same_msg_def)

lemma same_msg_corrupt: "same_msg m (corrupt_digest m)"
  by (cases "msg_payload m" rule: corrupt_payload_digest.cases) (simp_all add: same_msg_def corrupt_digest_def)

section \<open>Faults that leave a step intact\<close>

definition quiet :: "'rng fault_config \<Rightarrow> bool" where
  "quiet fc \<longleftrightarrow> fc_drop_rate fc = Finite 0 \<and> fc_partitions fc = {} \<and> fc_isolated_nodes fc = {}"

lemma quiet_delivers: "quiet fc \<Longrightarrow> should_deliver X fc m = (fc, True)"
  by (simp add: quiet_def should_deliver_def)

lemma quiet_not_isolated: "quiet fc \<Longrightarrow> \<not> is_isolated fc i"
  by (simp add: quiet_def is_isolated_def)

text \<open>The messages an equivocator rewrites: those that carry payloads.\<close>

fun carries_payload :: "protocol_message \<Rightarrow> bool" where
  "carries_payload (Pbft (PrePrepare v sq d p)) = True"
| "carries_payload (Raft (AppendEntries t l pli plt es lc)) = True"
| "carries_payload (HotStuff (Propose v sq d p jv jp)) = True"
| "carries_payload m = False"

definition harmless :: "node_id \<Rightarrow> 'rng fault_config \<Rightarrow> bool" where
  "harmless leader fc \<longleftrightarrow> quiet fc \<and>
     (\<forall>i bs. fc_byzantine_nodes fc i = Some bs \<longrightarrow>
        set bs \<subseteq> {CorruptDigest, Equivocate} \<and> (i = leader \<longrightarrow> Equivocate \<notin> set bs))"

lemma harmless_default [simp]: "harmless leader (fault_default entropy)"
  by (simp add: harmless_def quiet_def fault_default_def)

lemma harmless_quiet: "harmless leader fc \<Longrightarrow> quiet fc"
  by (simp add: harmless_def)

lemma equivocate_no_payload:
  assumes "\<not> carries_payload (msg_payload m)"
  shows "equivocate sha m = [m]"
proof -
  have "equivocate_payload sha (msg_payload m) = msg_payload m"
    using assms by (cases "msg_payload m" rule: carries_payload.cases) auto
  then show ?thesis by (simp add: equivocate_def)
qed

lemma carries_strip: "carries_payload (strip_digest m) = carries_payload m"
  by (cases m rule: strip_digest.cases) auto

lemma tamper_all_same:
  assumes "set bs \<subseteq> {CorruptDigest, Equivocate}" and "Equivocate \<in> set bs \<longrightarrow> \<not> carries_payload (msg_payload m)"
  shows "\<exists>m'. tamper_all sha bs [m] = [m'] \<and> same_msg m m'"
  using assms
proof (induction bs arbitrary: m)
  case (Cons b bs)
  have one: "\<exists>m1. tamper_one sha b m = [m1] \<and> same_msg m m1"
    using Cons.prems same_msg_corrupt [of m] by (cases b) (auto simp: equivocate_no_payload)
  then obtain m1 where m1: "tamper_one sha b m = [m1]" "same_msg m m1" by blast
  have "carries_payload (msg_payload m1) = carries_payload (msg_payload m)"
    using m1(2) carries_strip by (metis same_msg_def)
  then obtain m' where "tamper_all sha bs [m1] = [m']" "same_msg m1 m'"
    using Cons.IH [of m1] Cons.prems by auto
  with m1 show ?case by (auto intro: same_msg_trans)
qed simp

text \<open>What a message becomes under the faults; a harmless configuration keeps it up to its digest.\<close>

definition delivered_as :: "(u8 list \<Rightarrow> u8 list) \<Rightarrow> 'rng fault_config \<Rightarrow> network_message \<Rightarrow> network_message" where
  "delivered_as sha fc m = hd (tamper sha fc m)"

lemma tamper_harmless:
  assumes "harmless leader fc" and "msg_from m = leader \<or> \<not> carries_payload (msg_payload m)"
  shows "tamper sha fc m = [delivered_as sha fc m]" and "same_msg m (delivered_as sha fc m)"
proof -
  have "\<exists>m'. tamper sha fc m = [m'] \<and> same_msg m m'"
  proof (cases "fc_byzantine_nodes fc (msg_from m)")
    case None
    then show ?thesis by (simp add: tamper_def)
  next
    case (Some bs)
    then have "set bs \<subseteq> {CorruptDigest, Equivocate}" "Equivocate \<in> set bs \<longrightarrow> \<not> carries_payload (msg_payload m)"
      using assms by (auto simp: harmless_def)
    then show ?thesis using tamper_all_same [of bs m sha] Some by (simp add: tamper_def)
  qed
  then show "tamper sha fc m = [delivered_as sha fc m]" and "same_msg m (delivered_as sha fc m)"
    by (auto simp: delivered_as_def)
qed

section \<open>A step, node by node\<close>

definition inbox :: "node_id \<Rightarrow> network_message list \<Rightarrow> network_message list" where
  "inbox i ms = filter (\<lambda>m. msg_to m = i) ms"

lemma inbox_simps [simp]:
  "inbox i [] = []" "inbox i (xs @ ys) = inbox i xs @ inbox i ys"
  "inbox i (m # ms) = (if msg_to m = i then m # inbox i ms else inbox i ms)"
  by (simp_all add: inbox_def)

text \<open>The counters after \<open>k\<close> messages were delivered, \<open>t\<close> of them from Byzantine nodes.\<close>

definition counted :: "cluster_stats \<Rightarrow> nat \<Rightarrow> nat \<Rightarrow> nat \<Rightarrow> cluster_stats \<Rightarrow> bool" where
  "counted st k t s st' \<longleftrightarrow>
     unat (cs_messages_sent st') = unat (cs_messages_sent st) + k \<and>
     unat (cs_messages_delivered st') = unat (cs_messages_delivered st) + k \<and>
     cs_messages_dropped st' = cs_messages_dropped st \<and>
     unat (cs_messages_tampered st') = unat (cs_messages_tampered st) + t \<and>
     unat (cs_total_steps st') = unat (cs_total_steps st) + s"

lemma counted_refl [simp]: "counted st 0 0 0 st"
  by (simp add: counted_def)

lemma counted_trans: "counted st k t s st1 \<Longrightarrow> counted st1 k' t' s' st2 \<Longrightarrow> counted st (k + k') (t + t') (s + s') st2"
  by (auto simp: counted_def)

lemma counted_ok: "counted st k t s st' \<Longrightarrow> t \<le> k \<Longrightarrow> stats_ok st \<Longrightarrow> stats_ok st'"
  by (auto simp: counted_def stats_ok_def)

lemma add_u64_room: "unat a + 1 < 2 ^ 64 \<Longrightarrow> add_u64 a 1 = Inr (a + 1)"
  by (simp add: add_u64_Inr_iff)

definition from_byzantine :: "'rng fault_config \<Rightarrow> network_message list \<Rightarrow> nat" where
  "from_byzantine fc ms = length (filter (\<lambda>m. is_byzantine fc (msg_from m)) ms)"

lemma from_byzantine_simps [simp]:
  "from_byzantine fc [] = 0"
  "from_byzantine fc (m # ms) = (if is_byzantine fc (msg_from m) then 1 else 0) + from_byzantine fc ms"
  by (simp_all add: from_byzantine_def)

lemma from_byzantine_le: "from_byzantine fc ms \<le> length ms"
  by (simp add: from_byzantine_def)

lemma node_position_at:
  assumes "distinct (map (vt_id vt) nds)" and "k < length nds" and "vt_id vt (nds ! k) = i"
  shows "node_position vt nds i = Some k"
proof -
  obtain j where j: "node_position vt nds i = Some j"
    using assms(2,3) node_position_None [of vt nds i] by (cases "node_position vt nds i") auto
  from node_position_SomeD [OF j] have "j < length nds" "vt_id vt (nds ! j) = i" by auto
  then have "j = k" using nth_eq_iff_index_eq [OF assms(1), of j k] assms(2,3) by simp
  with j show ?thesis by simp
qed

lemma deliver_one_quiet:
  assumes quiet: "quiet (cl_faults c)" and ids: "distinct (map (vt_id vt) (cl_nodes c))"
    and T: "tamper (sha256 X) (cl_faults c) m = [m']" "msg_to m' = msg_to m"
    and j: "j < length (cl_nodes c)" "vt_id vt (cl_nodes c ! j) = msg_to m"
    and h: "vt_handle_message vt (cl_nodes c ! j) m' = Inr (nd', out)"
    and room: "stats_ok (cl_stats c)" "unat (cs_messages_sent (cl_stats c)) + 1 < 2 ^ 64"
  shows "\<exists>c'. deliver_one X vt c m = Inr (c', out) \<and> cl_nodes c' = (cl_nodes c)[j := nd'] \<and>
    cl_pending c' = cl_pending c \<and> cl_faults c' = cl_faults c \<and> cl_commit_log c' = cl_commit_log c \<and>
    counted (cl_stats c) 1 (from_byzantine (cl_faults c) [m]) 0 (cl_stats c')"
proof -
  have small: "unat (cs_messages_delivered (cl_stats c)) + 1 < 2 ^ 64"
    "unat (cs_messages_tampered (cl_stats c)) + 1 < 2 ^ 64"
    using room by (auto simp: stats_ok_def)
  have plus: "unat (a + 1) = unat a + 1" if "unat a + 1 < 2 ^ 64" for a :: u64
    using add_u64_unat [OF add_u64_room [OF that]] by simp
  define c1 where "c1 = c\<lparr>cl_stats := (cl_stats c)\<lparr>cs_messages_sent := cs_messages_sent (cl_stats c) + 1\<rparr>\<rparr>"
  define c2 where "c2 = (if is_byzantine (cl_faults c) (msg_from m)
    then c1\<lparr>cl_stats := (cl_stats c1)\<lparr>cs_messages_tampered := cs_messages_tampered (cl_stats c1) + 1\<rparr>\<rparr> else c1)"
  define c3 where "c3 = c2\<lparr>cl_stats := (cl_stats c2)\<lparr>cs_messages_delivered := cs_messages_delivered (cl_stats c2) + 1\<rparr>\<rparr>"
  have s1: "count_sent c = Inr c1"
    using add_u64_room [OF room(2)] by (simp add: count_sent_def c1_def)
  have s2: "(if is_byzantine (cl_faults c) (msg_from m) then count_tampered c1 else Inr c1) = Inr c2"
    using add_u64_room [OF small(2)] by (simp add: count_tampered_def c1_def c2_def)
  have s3: "count_delivered c2 = Inr c3"
    using add_u64_room [OF small(1)] by (simp add: count_delivered_def c1_def c2_def c3_def)
  have f: "cl_nodes c2 = cl_nodes c" "cl_nodes c3 = cl_nodes c" "cl_faults c1 = cl_faults c"
    "cl_faults c3 = cl_faults c" "cl_pending c3 = cl_pending c" "cl_commit_log c3 = cl_commit_log c"
    "c1\<lparr>cl_faults := cl_faults c\<rparr> = c1"
    by (simp_all add: c1_def c2_def c3_def)
  have "node_position vt (cl_nodes c) (msg_to m') = Some j"
    using node_position_at [OF ids j(1,2)] T(2) by simp
  then have "deliver_tampered vt (is_byzantine (cl_faults c) (msg_from m)) c1 [m'] = Inr (c3\<lparr>cl_nodes := (cl_nodes c)[j := nd']\<rparr>, out)"
    using s2 s3 h f by simp
  then have "deliver_one X vt c m = Inr (c3\<lparr>cl_nodes := (cl_nodes c)[j := nd']\<rparr>, out)"
    using s1 T(1)
    by (simp add: deliver_one_def Let_def f quiet_delivers [OF quiet] del: deliver_tampered.simps)
  moreover have "counted (cl_stats c) 1 (from_byzantine (cl_faults c) [m]) 0 (cl_stats c3)"
    using plus [OF room(2)] plus [OF small(1)] plus [OF small(2)]
    by (simp add: counted_def c1_def c2_def c3_def)
  ultimately show ?thesis using f by (intro exI [of _ "c3\<lparr>cl_nodes := (cl_nodes c)[j := nd']\<rparr>"]) simp
qed


context consensus_node begin

text \<open>
  The step lemma.  \<open>nds' k\<close> and \<open>outs k\<close> are what node \<open>k\<close> becomes and answers over its inbox, each
  message of it as the faults deliver it.
\<close>

lemma deliver_all_quiet:
  assumes "quiet (cl_faults c)" and "distinct (map (vt_id vt) (cl_nodes c))"
    and "\<forall>m\<in>set ms. tamper (sha256 X) (cl_faults c) m = [T m] \<and> msg_to (T m) = msg_to m \<and>
      msg_to m \<in> vt_id vt ` set (cl_nodes c)"
    and "\<forall>k<length (cl_nodes c).
      node_run vt (cl_nodes c ! k) (handle_all (map T (inbox (vt_id vt (cl_nodes c ! k)) ms))) = Inr (nds' k, outs k, [])"
    and "stats_ok (cl_stats c)" and "unat (cs_messages_sent (cl_stats c)) + length ms < 2 ^ 64"
  shows "\<exists>c' out. deliver_all X vt c ms = Inr (c', out) \<and> cl_nodes c' = map nds' [0..<length (cl_nodes c)] \<and>
    mset out = (\<Sum>k<length (cl_nodes c). mset (outs k)) \<and> cl_pending c' = cl_pending c \<and>
    cl_faults c' = cl_faults c \<and> cl_commit_log c' = cl_commit_log c \<and>
    counted (cl_stats c) (length ms) (from_byzantine (cl_faults c) ms) 0 (cl_stats c')"
  using assms
proof (induction ms arbitrary: c outs)
  case Nil
  have "nds' k = cl_nodes c ! k \<and> outs k = []" if "k < length (cl_nodes c)" for k
    using Nil.prems(4) that by (simp add: handle_all_def)
  then show ?case by (auto intro!: nth_equalityI)
next
  case (Cons m ms)
  have T: "tamper (sha256 X) (cl_faults c) m = [T m]" "msg_to (T m) = msg_to m" "msg_to m \<in> vt_id vt ` set (cl_nodes c)"
    using Cons.prems(3) by auto
  then obtain j where j: "j < length (cl_nodes c)" "vt_id vt (cl_nodes c ! j) = msg_to m"
    by (auto simp: in_set_conv_nth)
  have "node_run vt (cl_nodes c ! j) (handle_all (map T (inbox (msg_to m) (m # ms)))) = Inr (nds' j, outs j, [])"
    using Cons.prems(4) j by metis
  then obtain nd1 out1 out2 where h: "vt_handle_message vt (cl_nodes c ! j) (T m) = Inr (nd1, out1)"
    and rest: "node_run vt nd1 (handle_all (map T (inbox (msg_to m) ms))) = Inr (nds' j, out2, [])"
    and outs: "outs j = out1 @ out2"
    by (auto simp: handle_all_def rbind_eq_Inr)
  have room: "unat (cs_messages_sent (cl_stats c)) + 1 < 2 ^ 64" using Cons.prems(6) by simp
  obtain c1 where c1: "deliver_one X vt c m = Inr (c1, out1)" "cl_nodes c1 = (cl_nodes c)[j := nd1]"
    "cl_pending c1 = cl_pending c" "cl_faults c1 = cl_faults c" "cl_commit_log c1 = cl_commit_log c"
    "counted (cl_stats c) 1 (from_byzantine (cl_faults c) [m]) 0 (cl_stats c1)"
    using deliver_one_quiet [OF Cons.prems(1,2) T(1,2) j h Cons.prems(5) room] by blast
  have id1: "vt_id vt nd1 = msg_to m" using handle_id [OF h] j by simp
  have "(map (vt_id vt) (cl_nodes c))[j := vt_id vt nd1] = map (vt_id vt) (cl_nodes c)"
    using id1 j list_update_id [of "map (vt_id vt) (cl_nodes c)" j] by simp
  then have ids: "map (vt_id vt) (cl_nodes c1) = map (vt_id vt) (cl_nodes c)"
    using c1(2) by (simp add: map_update)
  then have same_ids: "vt_id vt ` set (cl_nodes c1) = vt_id vt ` set (cl_nodes c)"
    by (metis set_map)
  let ?outs = "outs(j := out2)"
  have run1: "node_run vt (cl_nodes c1 ! k) (handle_all (map T (inbox (vt_id vt (cl_nodes c1 ! k)) ms))) = Inr (nds' k, ?outs k, [])"
    if k: "k < length (cl_nodes c1)" for k
  proof (cases "k = j")
    case True
    then show ?thesis using rest id1 c1(2) j by simp
  next
    case False
    then have "vt_id vt (cl_nodes c ! k) \<noteq> msg_to m"
      using Cons.prems(2) j k c1(2) nth_eq_iff_index_eq [of "map (vt_id vt) (cl_nodes c)" k j] by simp
    then show ?thesis using Cons.prems(4) [rule_format, of k] k False c1(2) by simp
  qed
  have ok1: "stats_ok (cl_stats c1)"
    by (rule counted_ok [OF c1(6) _ Cons.prems(5)]) (simp add: from_byzantine_def)
  have room1: "unat (cs_messages_sent (cl_stats c1)) + length ms < 2 ^ 64"
    using c1(6) Cons.prems(6) by (simp add: counted_def)
  have "\<exists>c' out. deliver_all X vt c1 ms = Inr (c', out) \<and> cl_nodes c' = map nds' [0..<length (cl_nodes c1)] \<and>
    mset out = (\<Sum>k<length (cl_nodes c1). mset (?outs k)) \<and> cl_pending c' = cl_pending c1 \<and>
    cl_faults c' = cl_faults c1 \<and> cl_commit_log c' = cl_commit_log c1 \<and>
    counted (cl_stats c1) (length ms) (from_byzantine (cl_faults c1) ms) 0 (cl_stats c')"
    by (rule Cons.IH) (use Cons.prems(1-3) c1(4) ids same_ids ok1 room1 run1 in simp_all)
  then obtain c' out where c': "deliver_all X vt c1 ms = Inr (c', out)" "cl_nodes c' = map nds' [0..<length (cl_nodes c)]"
    "mset out = (\<Sum>k<length (cl_nodes c). mset (?outs k))" "cl_pending c' = cl_pending c"
    "cl_faults c' = cl_faults c" "cl_commit_log c' = cl_commit_log c"
    "counted (cl_stats c1) (length ms) (from_byzantine (cl_faults c) ms) 0 (cl_stats c')"
    using c1 by auto
  have "(\<Sum>k<length (cl_nodes c). mset (outs k)) = mset out1 + (\<Sum>k<length (cl_nodes c). mset (?outs k))"
    using j(1) outs by (simp add: sum.remove [of _ j])
  moreover have "deliver_all X vt c (m # ms) = Inr (c', out1 @ out)" using c1(1) c'(1) by simp
  moreover have "counted (cl_stats c) (length (m # ms)) (from_byzantine (cl_faults c) (m # ms)) 0 (cl_stats c')"
    using counted_trans [OF c1(6) c'(7)] by simp
  ultimately show ?case using c' by auto
qed

text \<open>A step and a run of a cluster, in the same terms.\<close>

lemma cluster_step_quiet:
  assumes "quiet (cl_faults c)" and "distinct (map (vt_id vt) (cl_nodes c))"
    and "\<forall>m\<in>set (cl_pending c). tamper (sha256 X) (cl_faults c) m = [T m] \<and> msg_to (T m) = msg_to m \<and>
      msg_to m \<in> vt_id vt ` set (cl_nodes c)"
    and "\<forall>k<length (cl_nodes c). node_run vt (cl_nodes c ! k)
      (handle_all (map T (inbox (vt_id vt (cl_nodes c ! k)) (cl_pending c)))) = Inr (nds' k, outs k, [])"
    and "stats_ok (cl_stats c)" and "unat (cs_messages_sent (cl_stats c)) + length (cl_pending c) < 2 ^ 64"
    and "unat (cs_total_steps (cl_stats c)) + 1 < 2 ^ 64"
  shows "\<exists>c'. cluster_step X vt c = Inr c' \<and> cl_nodes c' = map nds' [0..<length (cl_nodes c)] \<and>
    mset (cl_pending c') = (\<Sum>k<length (cl_nodes c). mset (outs k)) \<and>
    cl_faults c' = cl_faults c \<and> cl_commit_log c' = cl_commit_log c \<and>
    counted (cl_stats c) (length (cl_pending c)) (from_byzantine (cl_faults c) (cl_pending c)) 1 (cl_stats c')"
proof -
  let ?c0 = "c\<lparr>cl_pending := []\<rparr>"
  have "\<exists>c' out. deliver_all X vt ?c0 (cl_pending c) = Inr (c', out) \<and>
    cl_nodes c' = map nds' [0..<length (cl_nodes ?c0)] \<and>
    mset out = (\<Sum>k<length (cl_nodes ?c0). mset (outs k)) \<and> cl_pending c' = cl_pending ?c0 \<and>
    cl_faults c' = cl_faults ?c0 \<and> cl_commit_log c' = cl_commit_log ?c0 \<and>
    counted (cl_stats ?c0) (length (cl_pending c)) (from_byzantine (cl_faults ?c0) (cl_pending c)) 0 (cl_stats c')"
    by (rule deliver_all_quiet) (use assms in simp_all)
  then obtain c1 out where c1: "deliver_all X vt ?c0 (cl_pending c) = Inr (c1, out)"
    "cl_nodes c1 = map nds' [0..<length (cl_nodes c)]" "mset out = (\<Sum>k<length (cl_nodes c). mset (outs k))"
    "cl_pending c1 = []" "cl_faults c1 = cl_faults c" "cl_commit_log c1 = cl_commit_log c"
    "counted (cl_stats c) (length (cl_pending c)) (from_byzantine (cl_faults c) (cl_pending c)) 0 (cl_stats c1)"
    by auto
  have room: "unat (cs_total_steps (cl_stats c1)) + 1 < 2 ^ 64" using c1(7) assms(7) by (simp add: counted_def)
  define c2 where "c2 = c1\<lparr>cl_stats := (cl_stats c1)\<lparr>cs_total_steps := cs_total_steps (cl_stats c1) + 1\<rparr>\<rparr>"
  have c2: "count_step c1 = Inr c2" using add_u64_room [OF room] by (simp add: count_step_def c2_def)
  have "counted (cl_stats c1) 0 0 1 (cl_stats c2)"
    using count_step_Inr [OF c2] by (simp add: counted_def)
  from counted_trans [OF c1(7) this]
  have "counted (cl_stats c) (length (cl_pending c)) (from_byzantine (cl_faults c) (cl_pending c)) 1 (cl_stats c2)" by simp
  moreover have "cluster_step X vt c = Inr (enqueue c2 out)" using c1(1) c2 by (simp add: cluster_step_def)
  moreover have "mset (cl_pending (enqueue c2 out)) = (\<Sum>k<length (cl_nodes c). mset (outs k))"
    using c1(3,4) by (simp add: enqueue_def c2_def)
  ultimately show ?thesis using c1 by (intro exI [of _ "enqueue c2 out"]) (simp add: enqueue_def c2_def)
qed

end

section \<open>Queues of broadcasts\<close>

definition nid :: "nat \<Rightarrow> node_id" where
  "nid k = NodeId (word_of_nat k)"

lemma nid_inj: "j < 2 ^ 64 \<Longrightarrow> k < 2 ^ 64 \<Longrightarrow> nid j = nid k \<longleftrightarrow> j = k"
  using word_of_nat_inj_small [of j k] by (auto simp: nid_def)

lemma nid_0 [simp]: "nid 0 = NodeId 0"
  by (simp add: nid_def)

lemma node_ids_nid: "node_ids n = map nid [0..<n]"
  by (simp add: node_ids_def nid_def)

lemma distinct_peers_of: "n < 2 ^ 64 \<Longrightarrow> distinct (peers_of i n)"
  by (simp add: peers_of_def distinct_node_ids)

lemma length_peers_nid: "n < 2 ^ 64 \<Longrightarrow> k < n \<Longrightarrow> length (peers_of (nid k) n) = n - 1"
  by (rule length_peers_of) (simp_all add: node_ids_nid)

lemma mem_peers_nid:
  assumes "n < 2 ^ 64" and "j < n" and "k < n"
  shows "nid k \<in> set (peers_of (nid j) n) \<longleftrightarrow> k \<noteq> j"
  using assms nid_inj [of k j] by (auto simp: node_ids_nid)

text \<open>How many of the nodes in \<open>S\<close> have node \<open>k\<close> as a peer.\<close>

lemma card_senders:
  assumes "n < 2 ^ 64" and "k < n"
  shows "card {j. j < n \<and> j \<in> S \<and> nid k \<in> set (peers_of (nid j) n)} = card (S \<inter> {..<n} - {k})"
proof -
  have "{j. j < n \<and> j \<in> S \<and> nid k \<in> set (peers_of (nid j) n)} = S \<inter> {..<n} - {k}"
    using mem_peers_nid [OF assms(1) _ assms(2)] by auto
  then show ?thesis by simp
qed

lemma sum_mset_filter: "filter_mset P (\<Sum>k\<in>A. f k) = (\<Sum>k\<in>A. filter_mset P (f k))"
  by (induction A rule: infinite_finite_induct) auto

lemma sum_mset_image: "image_mset g (\<Sum>k\<in>A. f k) = (\<Sum>k\<in>A. image_mset g (f k))"
  by (induction A rule: infinite_finite_induct) auto

lemma sum_mset_size: "size (\<Sum>k\<in>A. f k :: 'b multiset) = (\<Sum>k\<in>A. size (f k))"
  by (induction A rule: infinite_finite_induct) auto

lemma sum_mset_set: "finite A \<Longrightarrow> set_mset (\<Sum>k\<in>A. f k) = (\<Union>k\<in>A. set_mset (f k))"
  by (induction A rule: finite_induct) auto

lemma sum_singletons: "(\<Sum>k<n. if P k then {#g k#} else {#}) = mset (map g (filter P [0..<n]))"
  by (induction n) auto

lemma size_filter_mset_list: "size (filter_mset P (mset xs)) = length (filter P xs)"
  by (metis mset_filter size_mset)

lemma filter_broadcast:
  "distinct peers \<Longrightarrow> filter (\<lambda>m. msg_to m = i) (broadcast me peers m) = (if i \<in> set peers then [mk_msg me i m] else [])"
  by (induction peers) (auto simp: broadcast_def)

text \<open>
  A queue that holds, in any order, what the senders in \<open>S\<close> broadcast: sender \<open>k\<close> the message \<open>M k\<close> to
  the receivers \<open>R k\<close>.
\<close>

definition broadcasts ::
  "nat \<Rightarrow> nat set \<Rightarrow> (nat \<Rightarrow> node_id list) \<Rightarrow> (nat \<Rightarrow> protocol_message) \<Rightarrow> network_message list \<Rightarrow> bool" where
  "broadcasts n S R M Q \<longleftrightarrow>
     mset Q = (\<Sum>k<n. mset (if k \<in> S then broadcast (nid k) (R k) (M k) else []))"

lemma broadcasts_mem:
  "broadcasts n S R M Q \<Longrightarrow> m \<in> set Q \<longleftrightarrow> (\<exists>k<n. k \<in> S \<and> (\<exists>r\<in>set (R k). m = mk_msg (nid k) r (M k)))"
proof -
  assume "broadcasts n S R M Q"
  then have "set Q = (\<Union>k<n. set (if k \<in> S then broadcast (nid k) (R k) (M k) else []))"
    unfolding broadcasts_def by (metis (no_types, lifting) sum_mset_set finite_lessThan set_mset_mset SUP_cong)
  then show ?thesis by (auto split: if_splits)
qed

lemma broadcasts_inbox:
  assumes Q: "broadcasts n S R M Q" and R: "\<forall>k<n. k \<in> S \<longrightarrow> distinct (R k)" and n: "n \<le> 2 ^ 64"
  shows "set (inbox i Q) = {mk_msg (nid k) i (M k) | k. k < n \<and> k \<in> S \<and> i \<in> set (R k)}"
    and "distinct (map msg_from (inbox i Q))"
    and "length (inbox i Q) = card {k. k < n \<and> k \<in> S \<and> i \<in> set (R k)}"
proof -
  let ?P = "\<lambda>k. k \<in> S \<and> i \<in> set (R k)"
  show "set (inbox i Q) = {mk_msg (nid k) i (M k) | k. k < n \<and> k \<in> S \<and> i \<in> set (R k)}"
    using broadcasts_mem [OF Q] by (auto simp: inbox_def)
  have one: "filter_mset (\<lambda>m. msg_to m = i) (mset (if k \<in> S then broadcast (nid k) (R k) (M k) else [])) =
      (if ?P k then {#mk_msg (nid k) i (M k)#} else {#})" if "k < n" for k
    using filter_broadcast [of "R k" i "nid k" "M k"] R that by (simp flip: mset_filter)
  have "mset (inbox i Q) = (\<Sum>k<n. if ?P k then {#mk_msg (nid k) i (M k)#} else {#})"
    using Q one by (simp add: broadcasts_def inbox_def mset_filter sum_mset_filter)
  then have mset: "mset (inbox i Q) = mset (map (\<lambda>k. mk_msg (nid k) i (M k)) (filter ?P [0..<n]))"
    by (simp only: sum_singletons)
  have "mset (map msg_from (inbox i Q)) = image_mset msg_from (mset (inbox i Q))" by simp
  also have "\<dots> = mset (map nid (filter ?P [0..<n]))" unfolding mset by (simp add: multiset.map_comp o_def)
  finally have "mset (map msg_from (inbox i Q)) = mset (map nid (filter ?P [0..<n]))" .
  moreover have "inj_on nid (set (filter ?P [0..<n]))"
    using n nid_inj by (fastforce intro: inj_onI)
  then have "distinct (map nid (filter ?P [0..<n]))" by (simp add: distinct_map)
  ultimately show "distinct (map msg_from (inbox i Q))" by (metis mset_eq_imp_distinct_iff)
  have "length (inbox i Q) = length (filter ?P [0..<n])" using mset_eq_length [OF mset] by simp
  also have "\<dots> = card (set (filter ?P [0..<n]))" by (rule distinct_card [symmetric]) simp
  also have "set (filter ?P [0..<n]) = {k. k < n \<and> ?P k}" by auto
  finally show "length (inbox i Q) = card {k. k < n \<and> k \<in> S \<and> i \<in> set (R k)}" by simp
qed

lemma broadcasts_length:
  assumes Q: "broadcasts n S R M Q"
  shows "length Q = (\<Sum>k\<in>S \<inter> {..<n}. length (R k))"
    and "from_byzantine fc Q = (\<Sum>k\<in>S \<inter> {..<n}. if is_byzantine fc (nid k) then length (R k) else 0)"
proof -
  have eq: "(\<Sum>k\<in>S \<inter> {..<n}. g k) = (\<Sum>k<n. if k \<in> S then g k else 0)" for g :: "nat \<Rightarrow> nat"
    by (subst Int_commute) (rule sum.inter_restrict [OF finite_lessThan])
  have l: "size (mset (if k \<in> S then broadcast (nid k) (R k) (M k) else [])) = (if k \<in> S then length (R k) else 0)" for k
    by simp
  have "length Q = size (mset Q)" by simp
  also have "\<dots> = (\<Sum>k<n. if k \<in> S then length (R k) else 0)"
    unfolding Q [unfolded broadcasts_def] sum_mset_size l ..
  finally show "length Q = (\<Sum>k\<in>S \<inter> {..<n}. length (R k))" unfolding eq .
  have b: "size (filter_mset (\<lambda>m. is_byzantine fc (msg_from m)) (mset (if k \<in> S then broadcast (nid k) (R k) (M k) else []))) =
      (if k \<in> S then if is_byzantine fc (nid k) then length (R k) else 0 else 0)" for k
    unfolding size_filter_mset_list by (simp add: broadcast_def filter_map o_def)
  have "from_byzantine fc Q = size (filter_mset (\<lambda>m. is_byzantine fc (msg_from m)) (mset Q))"
    unfolding size_filter_mset_list by (simp add: from_byzantine_def)
  also have "\<dots> = (\<Sum>k<n. if k \<in> S then if is_byzantine fc (nid k) then length (R k) else 0 else 0)"
    unfolding Q [unfolded broadcasts_def] sum_mset_filter sum_mset_size b ..
  finally show "from_byzantine fc Q = (\<Sum>k\<in>S \<inter> {..<n}. if is_byzantine fc (nid k) then length (R k) else 0)"
    unfolding eq .
qed


section \<open>A round\<close>

text \<open>
  \<open>queued n S R N Q\<close>: the queue holds what the senders in \<open>S\<close> broadcast, sender \<open>k\<close> a message that is
  \<open>N k\<close> up to its digest; \<open>arrives n S R N i ms\<close>: \<open>ms\<close> is what node \<open>i\<close> finds of it in its inbox.
\<close>

definition queued ::
  "nat \<Rightarrow> nat set \<Rightarrow> (nat \<Rightarrow> node_id list) \<Rightarrow> (nat \<Rightarrow> protocol_message) \<Rightarrow> network_message list \<Rightarrow> bool" where
  "queued n S R N Q \<longleftrightarrow> (\<exists>M. (\<forall>k<n. k \<in> S \<longrightarrow> strip_digest (M k) = N k) \<and> broadcasts n S R M Q)"

definition arrives ::
  "nat \<Rightarrow> nat set \<Rightarrow> (nat \<Rightarrow> node_id list) \<Rightarrow> (nat \<Rightarrow> protocol_message) \<Rightarrow> node_id \<Rightarrow> network_message list \<Rightarrow> bool" where
  "arrives n S R N i ms \<longleftrightarrow> distinct (map msg_from ms) \<and>
     length ms = card {k. k < n \<and> k \<in> S \<and> i \<in> set (R k)} \<and>
     (\<forall>m\<in>set ms. \<exists>k<n. k \<in> S \<and> i \<in> set (R k) \<and> msg_from m = nid k \<and> msg_to m = i \<and> strip_digest (msg_payload m) = N k)"

lemma queued_empty: "queued n {} R N Q \<longleftrightarrow> Q = []"
  by (simp add: queued_def broadcasts_def)

lemma queued_length: "queued n S R N Q \<Longrightarrow> length Q = (\<Sum>k\<in>S \<inter> {..<n}. length (R k))"
  using broadcasts_length(1) by (auto simp: queued_def)

lemma queued_byzantine:
  "queued n S R N Q \<Longrightarrow> from_byzantine fc Q = (\<Sum>k\<in>S \<inter> {..<n}. if is_byzantine fc (nid k) then length (R k) else 0)"
  using broadcasts_length(2) by (auto simp: queued_def)

context consensus_node begin

lemma quiet_step:
  assumes fc: "harmless (NodeId 0) (cl_faults c)" and n: "n < 2 ^ 64"
    and ids: "map (vt_id vt) (cl_nodes c) = node_ids n"
    and Q: "\<And>m. m \<in> set (cl_pending c) \<Longrightarrow>
      msg_to m \<in> set (node_ids n) \<and> (msg_from m = NodeId 0 \<or> \<not> carries_payload (msg_payload m))"
    and node: "\<And>k ms. k < n \<Longrightarrow> list_all2 same_msg (inbox (nid k) (cl_pending c)) ms \<Longrightarrow>
      \<exists>nd' m'. node_run vt (cl_nodes c ! k) (handle_all ms) =
          Inr (nd', if k \<in> S' then broadcast (nid k) (R' k) m' else [], []) \<and>
        (k \<in> S' \<longrightarrow> strip_digest m' = N' k) \<and> P k nd'"
    and room: "stats_ok (cl_stats c)" "unat (cs_messages_sent (cl_stats c)) + length (cl_pending c) < 2 ^ 64"
      "unat (cs_total_steps (cl_stats c)) + 1 < 2 ^ 64"
  shows "\<exists>c'. cluster_step X vt c = Inr c' \<and> map (vt_id vt) (cl_nodes c') = node_ids n \<and>
    (\<forall>k<n. P k (cl_nodes c' ! k)) \<and> queued n S' R' N' (cl_pending c') \<and>
    cl_faults c' = cl_faults c \<and> cl_commit_log c' = cl_commit_log c \<and>
    counted (cl_stats c) (length (cl_pending c)) (from_byzantine (cl_faults c) (cl_pending c)) 1 (cl_stats c')"
proof -
  let ?fc = "cl_faults c" and ?Q = "cl_pending c"
  let ?T = "delivered_as (sha256 X) ?fc"
  have len: "length (cl_nodes c) = n" using ids by (metis length_map length_node_ids)
  have idk: "vt_id vt (cl_nodes c ! k) = nid k" if "k < n" for k
    using that ids len nth_map [of k "cl_nodes c" "vt_id vt"] by (simp add: node_ids_nid)
  have T: "tamper (sha256 X) ?fc m = [?T m] \<and> same_msg m (?T m) \<and> msg_to m \<in> set (node_ids n)"
    if "m \<in> set ?Q" for m
    using tamper_harmless [OF fc] Q [OF that] by auto
  have arr: "list_all2 same_msg (inbox (nid k) ?Q) (map ?T (inbox (nid k) ?Q))" for k
    using T by (auto simp: list_all2_map2 inbox_def intro!: list.rel_refl_strong)
  have "\<forall>k<n. \<exists>nd' m'. node_run vt (cl_nodes c ! k) (handle_all (map ?T (inbox (nid k) ?Q))) =
          Inr (nd', if k \<in> S' then broadcast (nid k) (R' k) m' else [], []) \<and>
        (k \<in> S' \<longrightarrow> strip_digest m' = N' k) \<and> P k nd'"
    using node arr by blast
  then obtain nds' M' where run: "\<And>k. k < n \<Longrightarrow> node_run vt (cl_nodes c ! k) (handle_all (map ?T (inbox (nid k) ?Q))) =
      Inr (nds' k, if k \<in> S' then broadcast (nid k) (R' k) (M' k) else [], [])"
    and M': "\<And>k. k < n \<Longrightarrow> k \<in> S' \<Longrightarrow> strip_digest (M' k) = N' k" and P: "\<And>k. k < n \<Longrightarrow> P k (nds' k)"
    by metis
  let ?outs = "\<lambda>k. if k \<in> S' then broadcast (nid k) (R' k) (M' k) else []"
  have "\<exists>c'. cluster_step X vt c = Inr c' \<and> cl_nodes c' = map nds' [0..<length (cl_nodes c)] \<and>
    mset (cl_pending c') = (\<Sum>k<length (cl_nodes c). mset (?outs k)) \<and>
    cl_faults c' = cl_faults c \<and> cl_commit_log c' = cl_commit_log c \<and>
    counted (cl_stats c) (length (cl_pending c)) (from_byzantine (cl_faults c) (cl_pending c)) 1 (cl_stats c')"
  proof (rule cluster_step_quiet [OF harmless_quiet [OF fc] _ _ _ room])
    show "distinct (map (vt_id vt) (cl_nodes c))" using ids distinct_node_ids [OF n] by simp
    show "\<forall>m\<in>set ?Q. tamper (sha256 X) ?fc m = [?T m] \<and> msg_to (?T m) = msg_to m \<and> msg_to m \<in> vt_id vt ` set (cl_nodes c)"
      using T ids by (metis same_msg_def set_map)
    show "\<forall>k<length (cl_nodes c). node_run vt (cl_nodes c ! k)
        (handle_all (map ?T (inbox (vt_id vt (cl_nodes c ! k)) ?Q))) = Inr (nds' k, ?outs k, [])"
      using run idk len by simp
  qed
  then obtain c' where c': "cluster_step X vt c = Inr c'" "cl_nodes c' = map nds' [0..<n]"
    "mset (cl_pending c') = (\<Sum>k<n. mset (?outs k))" "cl_faults c' = cl_faults c" "cl_commit_log c' = cl_commit_log c"
    "counted (cl_stats c) (length (cl_pending c)) (from_byzantine (cl_faults c) (cl_pending c)) 1 (cl_stats c')"
    using len by auto
  have "vt_id vt (nds' k) = nid k" if "k < n" for k
    using run_id [OF run [OF that]] idk [OF that] by simp
  then have "map (vt_id vt) (cl_nodes c') = node_ids n" using c'(2) by (simp add: node_ids_nid)
  moreover have "queued n S' R' N' (cl_pending c')"
    using c'(3) M' by (auto simp: queued_def broadcasts_def)
  ultimately show ?thesis using c' P by auto
qed

text \<open>The same for a queue of broadcasts, in terms of what arrives.\<close>

lemma quiet_round:
  assumes fc: "harmless (NodeId 0) (cl_faults c)" and n: "n < 2 ^ 64"
    and ids: "map (vt_id vt) (cl_nodes c) = node_ids n"
    and Q: "queued n S R N (cl_pending c)"
    and R: "\<And>k. k < n \<Longrightarrow> k \<in> S \<Longrightarrow> distinct (R k) \<and> set (R k) \<subseteq> set (node_ids n)"
    and lead: "\<And>k. k < n \<Longrightarrow> k \<in> S \<Longrightarrow> k = 0 \<or> \<not> carries_payload (N k)"
    and node: "\<And>k ms. k < n \<Longrightarrow> arrives n S R N (nid k) ms \<Longrightarrow>
      \<exists>nd' m'. node_run vt (cl_nodes c ! k) (handle_all ms) =
          Inr (nd', if k \<in> S' then broadcast (nid k) (R' k) m' else [], []) \<and>
        (k \<in> S' \<longrightarrow> strip_digest m' = N' k) \<and> P k nd'"
    and room: "stats_ok (cl_stats c)" "unat (cs_messages_sent (cl_stats c)) + length (cl_pending c) < 2 ^ 64"
      "unat (cs_total_steps (cl_stats c)) + 1 < 2 ^ 64"
  shows "\<exists>c'. cluster_step X vt c = Inr c' \<and> map (vt_id vt) (cl_nodes c') = node_ids n \<and>
    (\<forall>k<n. P k (cl_nodes c' ! k)) \<and> queued n S' R' N' (cl_pending c') \<and>
    cl_faults c' = cl_faults c \<and> cl_commit_log c' = cl_commit_log c \<and>
    counted (cl_stats c) (length (cl_pending c)) (from_byzantine (cl_faults c) (cl_pending c)) 1 (cl_stats c')"
proof (rule quiet_step [OF fc n ids _ _ room])
  obtain M where M: "\<And>k. k < n \<Longrightarrow> k \<in> S \<Longrightarrow> strip_digest (M k) = N k" and MQ: "broadcasts n S R M (cl_pending c)"
    using Q by (auto simp: queued_def)
  show "msg_to m \<in> set (node_ids n) \<and> (msg_from m = NodeId 0 \<or> \<not> carries_payload (msg_payload m))"
    if m: "m \<in> set (cl_pending c)" for m
  proof -
    obtain k r where k: "k < n" "k \<in> S" "r \<in> set (R k)" "m = mk_msg (nid k) r (M k)"
      using broadcasts_mem [OF MQ] m by blast
    then show ?thesis using lead [OF k(1,2)] M [OF k(1,2)] R [OF k(1,2)] carries_strip [of "M k"] by auto
  qed
  fix k ms
  assume k: "k < n" and ms: "list_all2 same_msg (inbox (nid k) (cl_pending c)) ms"
  have dR: "\<forall>k<n. k \<in> S \<longrightarrow> distinct (R k)" and n': "n \<le> 2 ^ 64" using R n by auto
  note box = broadcasts_inbox [OF MQ dR n', of "nid k"]
  have "map msg_from ms = map msg_from (inbox (nid k) (cl_pending c))"
    using ms by (induction rule: list_all2_induct) (simp_all add: same_msg_def)
  then have "distinct (map msg_from ms)" using box(2) by (simp only:)
  moreover have "length ms = card {j. j < n \<and> j \<in> S \<and> nid k \<in> set (R j)}"
    using box(3) list_all2_lengthD [OF ms] by simp
  moreover have "\<exists>j<n. j \<in> S \<and> nid k \<in> set (R j) \<and> msg_from m' = nid j \<and> msg_to m' = nid k \<and>
      strip_digest (msg_payload m') = N j" if m': "m' \<in> set ms" for m'
  proof -
    obtain m where m: "m \<in> set (inbox (nid k) (cl_pending c))" "same_msg m m'"
      using list_all2_nthD2 [OF ms] m' list_all2_lengthD [OF ms] by (metis in_set_conv_nth)
    then obtain j where "j < n" "j \<in> S" "nid k \<in> set (R j)" "m = mk_msg (nid j) (nid k) (M j)"
      using box(1) by auto
    then show ?thesis using m(2) M [of j] by (auto simp: same_msg_def)
  qed
  ultimately have "arrives n S R N (nid k) ms" by (simp add: arrives_def)
  from node [OF k this]
  show "\<exists>nd' m'. node_run vt (cl_nodes c ! k) (handle_all ms) =
      Inr (nd', if k \<in> S' then broadcast (nid k) (R' k) m' else [], []) \<and>
    (k \<in> S' \<longrightarrow> strip_digest m' = N' k) \<and> P k nd'" .
qed

end

section \<open>Proposing to the first node\<close>

lemma propose_first:
  assumes "cl_nodes c \<noteq> []" and "quiet (cl_faults c)"
    and "vt_propose vt (cl_nodes c ! 0) p = Inr (nd', Accepted, out)"
  shows "cluster_propose vt c p =
    Inr (c\<lparr>cl_commit_log := record_proposal (cl_commit_log c) p, cl_nodes := (cl_nodes c)[0 := nd'],
           cl_pending := cl_pending c @ out\<rparr>, Accepted)"
proof -
  have "[0..<length (cl_nodes c)] = 0 # [1..<length (cl_nodes c)]"
    using assms(1) by (simp add: upt_rec)
  then show ?thesis
    using assms quiet_not_isolated [OF assms(2)]
    by (simp add: cluster_propose_def enqueue_def)
qed

text \<open>Sums over the nodes that are Byzantine.\<close>

definition byz_count :: "nat \<Rightarrow> 'rng fault_config \<Rightarrow> nat" where
  "byz_count n fc = card {k. k < n \<and> is_byzantine fc (nid k)}"

lemma sum_byzantine:
  "(\<Sum>k<n. if is_byzantine fc (nid k) then w else 0) = w * byz_count n fc"
proof -
  have "(\<Sum>k<n. if is_byzantine fc (nid k) then w else 0) = (\<Sum>k\<in>{k\<in>{..<n}. is_byzantine fc (nid k)}. w)"
    by (rule sum.inter_filter [symmetric]) simp
  then show ?thesis by (simp add: byz_count_def)
qed

lemma sum_byzantine_others:
  assumes "0 < n"
  shows "(\<Sum>k=1..<n. if is_byzantine fc (nid k) then w else 0) + (if is_byzantine fc (NodeId 0) then w else 0) =
    w * byz_count n fc"
proof -
  have "{..<n} = insert 0 {1..<n}" using assms by auto
  then show ?thesis by (simp flip: sum_byzantine)
qed

lemma from_byzantine_broadcast:
  "from_byzantine fc (broadcast i peers m) = (if is_byzantine fc i then length peers else 0)"
  by (simp add: from_byzantine_def broadcast_def filter_map o_def)

lemma from_byzantine_append [simp]: "from_byzantine fc (xs @ ys) = from_byzantine fc xs + from_byzantine fc ys"
  by (simp add: from_byzantine_def)

section \<open>Queues of broadcasts to all the others\<close>

lemma handle_all_simps: "handle_all [] = []" "handle_all (m # ms) = OpHandle m # handle_all ms"
  by (simp_all add: handle_all_def)

abbreviation peers_nid :: "nat \<Rightarrow> nat \<Rightarrow> node_id list" where
  "peers_nid n k \<equiv> peers_of (nid k) n"

lemma peers_nid_facts:
  assumes "n < 2 ^ 64" and "k < n"
  shows "length (peers_nid n k) = n - 1" and "distinct (peers_nid n k)" and "set (peers_nid n k) \<subseteq> set (node_ids n)"
  using length_peers_nid [OF assms] distinct_peers_of [OF assms(1)] by auto

lemma queued_peers:
  assumes Q: "queued n S (peers_nid n) N Q" and n: "n < 2 ^ 64"
  shows "length Q = card (S \<inter> {..<n}) * (n - 1)"
    and "from_byzantine fc Q = (\<Sum>k\<in>S \<inter> {..<n}. if is_byzantine fc (nid k) then n - 1 else 0)"
proof -
  have len: "length (peers_nid n k) = n - 1" if "k \<in> S \<inter> {..<n}" for k using length_peers_nid [OF n] that by simp
  show "length Q = card (S \<inter> {..<n}) * (n - 1)" using queued_length [OF Q] len by simp
  show "from_byzantine fc Q = (\<Sum>k\<in>S \<inter> {..<n}. if is_byzantine fc (nid k) then n - 1 else 0)"
    unfolding queued_byzantine [OF Q] by (rule sum.cong [OF refl]) (simp add: len)
qed

end
