(* ===== verification/Stars.thy ===== *)
theory Stars
  imports Rounds
begin

text \<open>
  Steps of a star: one node, the first of the cluster, broadcasts to the others, which answer to
  it alone.  HotStuff and Raft take all their steps this way.
\<close>

section \<open>Runs in a row\<close>

text \<open>
  \<open>c\<close> gets to \<open>c'\<close> in \<open>k\<close> steps, none of which finds the queue empty, that deliver \<open>m\<close> messages, \<open>t\<close>
  of them from Byzantine nodes.
\<close>

definition advances :: "'rng extern \<Rightarrow> 'n vtable \<Rightarrow> nat \<Rightarrow> nat \<Rightarrow> nat \<Rightarrow> ('n, 'rng) cluster \<Rightarrow> ('n, 'rng) cluster \<Rightarrow> bool" where
  "advances X vt k m t c c' \<longleftrightarrow>
     (\<forall>limit. run_to_completion X vt c (k + limit) =
        rbind (run_to_completion X vt c' limit) (\<lambda>(c2, steps). Inr (c2, k + steps))) \<and>
     cl_faults c' = cl_faults c \<and> cl_commit_log c' = cl_commit_log c \<and> t \<le> m \<and>
     counted (cl_stats c) m t k (cl_stats c')"

lemma advances_step:
  assumes "cluster_step X vt c = Inr c'" and "cl_pending c \<noteq> []" and "cl_faults c' = cl_faults c"
    and "cl_commit_log c' = cl_commit_log c" and "t \<le> m" and "counted (cl_stats c) m t 1 (cl_stats c')"
  shows "advances X vt 1 m t c c'"
  using assms by (simp add: advances_def)

lemma advances_trans:
  "advances X vt k m t c c1 \<Longrightarrow> advances X vt k' m' t' c1 c2 \<Longrightarrow> advances X vt (k + k') (m + m') (t + t') c c2"
  unfolding advances_def case_prod_beta
  by (auto simp: rbind_assoc add.assoc intro: counted_trans)

lemma advances_completes:
  assumes "advances X vt k m t c c'" and "cl_pending c' = []" and "k \<le> limit"
  shows "run_to_completion X vt c limit = Inr (c', k)"
proof -
  obtain l where l: "limit = k + l" using assms(3) le_Suc_ex by blast
  have "run_to_completion X vt c' l = Inr (c', 0)" using assms(2) by (cases l) simp_all
  then show ?thesis using assms(1) l by (simp add: advances_def)
qed

lemma advances_room:
  assumes "advances X vt k m t c c'" and "stats_ok (cl_stats c)"
  shows "stats_ok (cl_stats c')" and "unat (cs_messages_sent (cl_stats c')) = unat (cs_messages_sent (cl_stats c)) + m"
    and "unat (cs_total_steps (cl_stats c')) = unat (cs_total_steps (cl_stats c)) + k"
  using assms counted_ok [of "cl_stats c" m t k "cl_stats c'"] by (auto simp: advances_def counted_def)

text \<open>Counters with room for \<open>j\<close> more steps of \<open>w\<close> messages.\<close>

definition room :: "nat \<Rightarrow> nat \<Rightarrow> ('n, 'rng) cluster \<Rightarrow> bool" where
  "room w j c \<longleftrightarrow> stats_ok (cl_stats c) \<and> unat (cs_messages_sent (cl_stats c)) + j * w < 2 ^ 64 \<and>
     unat (cs_total_steps (cl_stats c)) + j < 2 ^ 64"

lemma room_SucD:
  assumes "room w (Suc j) c"
  shows "stats_ok (cl_stats c)" and "unat (cs_messages_sent (cl_stats c)) + w < 2 ^ 64"
    and "unat (cs_total_steps (cl_stats c)) + 1 < 2 ^ 64"
  using assms by (simp_all add: room_def)

lemma room_next: "room w (Suc j) c \<Longrightarrow> advances X vt 1 w t c c' \<Longrightarrow> room w j c'"
  using advances_room [of X vt 1 w t c c'] by (simp add: room_def)

section \<open>Out to the others and back\<close>

text \<open>
  A cluster in the middle of a round of a star of \<open>n\<close> nodes, with \<open>j\<close> more steps to go: the
  conditions on the nodes are \<open>P\<close>.
\<close>

definition star_at :: "'n vtable \<Rightarrow> nat \<Rightarrow> 'rng fault_config \<Rightarrow> nat \<Rightarrow> (nat \<Rightarrow> 'n \<Rightarrow> bool) \<Rightarrow> ('n, 'rng) cluster \<Rightarrow> bool" where
  "star_at vt n fc j P c \<longleftrightarrow> cl_faults c = fc \<and> map (vt_id vt) (cl_nodes c) = node_ids n \<and> room (n - 1) j c \<and>
     (\<forall>k<n. P k (cl_nodes c ! k))"

abbreviation hub_sends :: "nat \<Rightarrow> protocol_message \<Rightarrow> network_message list \<Rightarrow> bool" where
  "hub_sends n N Q \<equiv> queued n {0} (peers_nid n) (\<lambda>k. N) Q"

abbreviation rim_sends :: "nat \<Rightarrow> (nat \<Rightarrow> protocol_message) \<Rightarrow> network_message list \<Rightarrow> bool" where
  "rim_sends n V Q \<equiv> queued n {1..<n} (\<lambda>k. [NodeId 0]) V Q"

lemma hub_sends_broadcast:
  "0 < n \<Longrightarrow> strip_digest M = N \<Longrightarrow> hub_sends n N (broadcast (nid 0) (peers_nid n 0) M)"
proof -
  assume "0 < n" "strip_digest M = N"
  have "(\<Sum>k<n. mset (if k \<in> {0} then broadcast (nid k) (peers_nid n k) M else [])) =
      (\<Sum>k<n. if k = 0 then mset (broadcast (nid 0) (peers_nid n 0) M) else {#})"
    by (intro sum.cong) auto
  also have "\<dots> = mset (broadcast (nid 0) (peers_nid n 0) M)" using \<open>0 < n\<close> by (simp add: sum.delta)
  finally show ?thesis using \<open>strip_digest M = N\<close> by (auto simp: queued_def broadcasts_def)
qed

definition rim_byzantine :: "nat \<Rightarrow> 'rng fault_config \<Rightarrow> nat" where
  "rim_byzantine n fc = card {k. 1 \<le> k \<and> k < n \<and> is_byzantine fc (nid k)}"

lemma rim_byzantine_le: "rim_byzantine n fc \<le> n - 1"
proof -
  have "rim_byzantine n fc \<le> card {1..<n}" unfolding rim_byzantine_def by (rule card_mono) auto
  then show ?thesis by simp
qed

lemma hub_sends_counts:
  assumes Q: "hub_sends n N Q" and n: "2 \<le> n" "n < 2 ^ 64"
  shows "length Q = n - 1" and "from_byzantine fc Q = (if is_byzantine fc (NodeId 0) then n - 1 else 0)"
proof -
  have 0: "{0} \<inter> {..<n} = {0}" using n by auto
  show "length Q = n - 1" "from_byzantine fc Q = (if is_byzantine fc (NodeId 0) then n - 1 else 0)"
    unfolding queued_peers [OF Q n(2)] 0 by simp_all
qed

lemma rim_sends_counts:
  assumes Q: "rim_sends n V Q"
  shows "length Q = n - 1" and "from_byzantine fc Q = rim_byzantine n fc"
proof -
  have r: "{1..<n} \<inter> {..<n} = {1..<n}" by auto
  show "length Q = n - 1" unfolding queued_length [OF Q] r by simp
  have "(\<Sum>k\<in>{1..<n}. if is_byzantine fc (nid k) then 1 else 0) = (\<Sum>k\<in>{k\<in>{1..<n}. is_byzantine fc (nid k)}. 1 :: nat)"
    by (rule sum.inter_filter [symmetric]) simp
  moreover have "{k\<in>{1..<n}. is_byzantine fc (nid k)} = {k. 1 \<le> k \<and> k < n \<and> is_byzantine fc (nid k)}" by auto
  ultimately show "from_byzantine fc Q = rim_byzantine n fc"
    unfolding queued_byzantine [OF Q] r rim_byzantine_def card_eq_sum by (simp cong: if_cong)
qed

lemma arrives_hub:
  assumes A: "arrives n {0} (peers_nid n) (\<lambda>k. N) (nid k) ms" and n: "n < 2 ^ 64" "k < n"
  shows "if k = 0 then ms = [] else \<exists>m. ms = [m] \<and> msg_from m = NodeId 0 \<and> strip_digest (msg_payload m) = N"
proof -
  have "length ms = card ({0} \<inter> {..<n} - {k})" using A unfolding arrives_def card_senders [OF n] by blast
  moreover have "{0} \<inter> {..<n} - {k} = (if k = 0 then {} else {0})" using n by auto
  ultimately have "length ms = (if k = 0 then 0 else 1)" by auto
  moreover have "msg_from m = NodeId 0 \<and> strip_digest (msg_payload m) = N" if "m \<in> set ms" for m
    using A that by (auto simp: arrives_def)
  ultimately show ?thesis by (auto simp: length_Suc_conv)
qed

lemma arrives_rim:
  assumes A: "arrives n {1..<n} (\<lambda>k. [NodeId 0]) V (nid k) ms" and n: "n < 2 ^ 64" "k < n"
  shows "if k = 0 then length ms = n - 1 \<and> distinct (map msg_from ms) \<and>
      (\<forall>m\<in>set ms. \<exists>j<n. 1 \<le> j \<and> msg_from m = nid j \<and> strip_digest (msg_payload m) = V j) else ms = []"
proof -
  have "{j. j < n \<and> j \<in> {1..<n} \<and> nid k \<in> set [NodeId 0]} = (if k = 0 then {1..<n} else {})"
    using nid_inj [of k 0] n by auto
  then have "length ms = (if k = 0 then n - 1 else 0)" using A by (simp add: arrives_def)
  then show ?thesis using A by (cases "k = 0") (auto simp: arrives_def)
qed

declare handle_all_simps [simp]

context consensus_node begin

lemma star_out:
  assumes at: "star_at vt n fc (Suc j) P c" and fc: "harmless (NodeId 0) fc" and n: "2 \<le> n" "n < 2 ^ 64"
    and Q: "hub_sends n N (cl_pending c)"
    and hub: "\<And>nd. P 0 nd \<Longrightarrow> P' 0 nd"
    and rim: "\<And>k nd m. k < n \<Longrightarrow> k \<noteq> 0 \<Longrightarrow> P k nd \<Longrightarrow> msg_from m = NodeId 0 \<Longrightarrow> strip_digest (msg_payload m) = N \<Longrightarrow>
      \<exists>nd' m'. vt_handle_message vt nd m = Inr (nd', if answer then [mk_msg (nid k) (NodeId 0) m'] else []) \<and>
        (answer \<longrightarrow> strip_digest m' = V k) \<and> P' k nd'"
  shows "\<exists>c'. advances X vt 1 (n - 1) (if is_byzantine fc (NodeId 0) then n - 1 else 0) c c' \<and> star_at vt n fc j P' c' \<and>
    (if answer then rim_sends n V (cl_pending c') else cl_pending c' = [])"
proof -
  let ?S = "if answer then {1..<n} else {}"
  have ids: "map (vt_id vt) (cl_nodes c) = node_ids n" and P: "\<forall>k<n. P k (cl_nodes c ! k)"
    and room: "room (n - 1) (Suc j) c" and fc': "cl_faults c = fc"
    using at by (simp_all add: star_at_def)
  note room' = room_SucD [OF room]
  note counts = hub_sends_counts [OF Q n]
  have sent: "unat (cs_messages_sent (cl_stats c)) + length (cl_pending c) < 2 ^ 64" using room'(2) counts(1) by simp
  have step: "\<exists>c'. cluster_step X vt c = Inr c' \<and> map (vt_id vt) (cl_nodes c') = node_ids n \<and>
    (\<forall>k<n. P' k (cl_nodes c' ! k)) \<and> queued n ?S (\<lambda>k. [NodeId 0]) V (cl_pending c') \<and>
    cl_faults c' = cl_faults c \<and> cl_commit_log c' = cl_commit_log c \<and>
    counted (cl_stats c) (length (cl_pending c)) (from_byzantine (cl_faults c) (cl_pending c)) 1 (cl_stats c')"
  proof (rule quiet_round [OF fc [folded fc'] n(2) ids Q _ _ _ room'(1) sent room'(3)])
    show "distinct (peers_nid n k) \<and> set (peers_nid n k) \<subseteq> set (node_ids n)" if "k < n" for k
      using peers_nid_facts [OF n(2) that] by blast
    show "k = 0 \<or> \<not> carries_payload N" if "k \<in> {0}" for k using that by simp
    fix k ms
    assume k: "k < n" and ms: "arrives n {0} (peers_nid n) (\<lambda>k. N) (nid k) ms"
    show "\<exists>nd' m'. node_run vt (cl_nodes c ! k) (handle_all ms) =
        Inr (nd', if k \<in> ?S then broadcast (nid k) [NodeId 0] m' else [], []) \<and>
        (k \<in> ?S \<longrightarrow> strip_digest m' = V k) \<and> P' k nd'"
    proof (cases "k = 0")
      case True
      then show ?thesis using arrives_hub [OF ms n(2) k] P hub n(1) by auto
    next
      case False
      then obtain m where m: "ms = [m]" "msg_from m = NodeId 0" "strip_digest (msg_payload m) = N"
        using arrives_hub [OF ms n(2) k] by auto
      obtain nd' m' where "vt_handle_message vt (cl_nodes c ! k) m = Inr (nd', if answer then [mk_msg (nid k) (NodeId 0) m'] else [])"
        "answer \<longrightarrow> strip_digest m' = V k" "P' k nd'"
        using rim [OF k False _ m(2,3)] P k by blast
      then show ?thesis using False k m(1) by (auto simp: broadcast_def)
    qed
  qed
  then obtain c' where c': "cluster_step X vt c = Inr c'" "map (vt_id vt) (cl_nodes c') = node_ids n"
    "\<forall>k<n. P' k (cl_nodes c' ! k)" "queued n ?S (\<lambda>k. [NodeId 0]) V (cl_pending c')"
    "cl_faults c' = fc" "cl_commit_log c' = cl_commit_log c"
    "counted (cl_stats c) (n - 1) (if is_byzantine fc (NodeId 0) then n - 1 else 0) 1 (cl_stats c')"
    using step [unfolded counts fc'] by blast
  have "cl_pending c \<noteq> []" using counts(1) n(1) by auto
  from advances_step [OF c'(1) this c'(5) [folded fc'] c'(6) _ c'(7)]
  have adv: "advances X vt 1 (n - 1) (if is_byzantine fc (NodeId 0) then n - 1 else 0) c c'" by simp
  moreover have "star_at vt n fc j P' c'"
    using room_next [OF room adv] c'(2,3,5) by (simp add: star_at_def)
  ultimately show ?thesis using c'(4) by (intro exI [of _ c'] conjI) (cases answer; simp add: queued_empty)+
qed

lemma star_in:
  assumes at: "star_at vt n fc (Suc j) P c" and fc: "harmless (NodeId 0) fc" and n: "2 \<le> n" "n < 2 ^ 64"
    and Q: "rim_sends n V (cl_pending c)"
    and V: "\<And>k. \<not> carries_payload (V k)"
    and hub: "\<And>nd ms. P 0 nd \<Longrightarrow> length ms = n - 1 \<Longrightarrow> distinct (map msg_from ms) \<Longrightarrow>
      \<forall>m\<in>set ms. \<exists>j<n. 1 \<le> j \<and> msg_from m = nid j \<and> strip_digest (msg_payload m) = V j \<Longrightarrow>
      \<exists>nd' m'. node_run vt nd (handle_all ms) = Inr (nd', if answer then broadcast (nid 0) (peers_nid n 0) m' else [], []) \<and>
        (answer \<longrightarrow> strip_digest m' = N) \<and> P' 0 nd'"
    and rim: "\<And>k nd. k < n \<Longrightarrow> k \<noteq> 0 \<Longrightarrow> P k nd \<Longrightarrow> P' k nd"
  shows "\<exists>c'. advances X vt 1 (n - 1) (rim_byzantine n fc) c c' \<and> star_at vt n fc j P' c' \<and>
    (if answer then hub_sends n N (cl_pending c') else cl_pending c' = [])"
proof -
  let ?S = "if answer then {0} else {}"
  have ids: "map (vt_id vt) (cl_nodes c) = node_ids n" and P: "\<forall>k<n. P k (cl_nodes c ! k)"
    and room: "room (n - 1) (Suc j) c" and fc': "cl_faults c = fc"
    using at by (simp_all add: star_at_def)
  note room' = room_SucD [OF room]
  note counts = rim_sends_counts [OF Q]
  have sent: "unat (cs_messages_sent (cl_stats c)) + length (cl_pending c) < 2 ^ 64" using room'(2) counts(1) by simp
  have step: "\<exists>c'. cluster_step X vt c = Inr c' \<and> map (vt_id vt) (cl_nodes c') = node_ids n \<and>
    (\<forall>k<n. P' k (cl_nodes c' ! k)) \<and> queued n ?S (peers_nid n) (\<lambda>k. N) (cl_pending c') \<and>
    cl_faults c' = cl_faults c \<and> cl_commit_log c' = cl_commit_log c \<and>
    counted (cl_stats c) (length (cl_pending c)) (from_byzantine (cl_faults c) (cl_pending c)) 1 (cl_stats c')"
  proof (rule quiet_round [OF fc [folded fc'] n(2) ids Q _ _ _ room'(1) sent room'(3)])
    show "distinct [NodeId 0] \<and> set [NodeId 0] \<subseteq> set (node_ids n)"
      using n(1) nid_0 by (auto simp: node_ids_nid intro: image_eqI [of _ _ 0] simp del: nid_0)
    show "k = 0 \<or> \<not> carries_payload (V k)" for k using V by simp
    fix k ms
    assume k: "k < n" and ms: "arrives n {1..<n} (\<lambda>k. [NodeId 0]) V (nid k) ms"
    show "\<exists>nd' m'. node_run vt (cl_nodes c ! k) (handle_all ms) =
        Inr (nd', if k \<in> ?S then broadcast (nid k) (peers_nid n k) m' else [], []) \<and>
        (k \<in> ?S \<longrightarrow> strip_digest m' = N) \<and> P' k nd'"
    proof (cases "k = 0")
      case True
      then have "length ms = n - 1" "distinct (map msg_from ms)"
        "\<forall>m\<in>set ms. \<exists>j<n. 1 \<le> j \<and> msg_from m = nid j \<and> strip_digest (msg_payload m) = V j"
        using arrives_rim [OF ms n(2) k] by simp_all
      from hub [OF _ this] show ?thesis using True P n(1) by (cases answer) simp_all
    next
      case False
      then show ?thesis using arrives_rim [OF ms n(2) k] P rim k by auto
    qed
  qed
  then obtain c' where c': "cluster_step X vt c = Inr c'" "map (vt_id vt) (cl_nodes c') = node_ids n"
    "\<forall>k<n. P' k (cl_nodes c' ! k)" "queued n ?S (peers_nid n) (\<lambda>k. N) (cl_pending c')"
    "cl_faults c' = fc" "cl_commit_log c' = cl_commit_log c"
    "counted (cl_stats c) (n - 1) (rim_byzantine n fc) 1 (cl_stats c')"
    using step [unfolded counts fc'] by blast
  have "cl_pending c \<noteq> []" using counts(1) n(1) by auto
  from advances_step [OF c'(1) this c'(5) [folded fc'] c'(6) rim_byzantine_le c'(7)]
  have adv: "advances X vt 1 (n - 1) (rim_byzantine n fc) c c'" .
  moreover have "star_at vt n fc j P' c'"
    using room_next [OF room adv] c'(2,3,5) by (simp add: star_at_def)
  ultimately show ?thesis using c'(4) by (intro exI [of _ c'] conjI) (cases answer; simp add: queued_empty)+
qed

end

end
