(* ===== verification/Workload.thy ===== *)
theory Workload
  imports ClusterSafety Stars
begin

text \<open>
  Workloads: the loops of the benchmark runners in \<open>src/src/bin/bench_report.rs\<close>, which propose
  payloads one after the other and run the cluster to completion after each.

  The locale \<open>round_protocol\<close> is what a runner needs of a protocol: a calm cluster takes an accepted
  proposal, in a fixed number of steps and messages, to a calm cluster that holds it.  What a whole
  workload does follows.
\<close>

section \<open>The loops\<close>

text \<open>The warm-up ignores what \<open>propose\<close> answers; the timed loop asserts that it is \<open>Accepted\<close>.\<close>

fun warmup_loop ::
  "'rng extern \<Rightarrow> 'n vtable \<Rightarrow> usize \<Rightarrow> ('n, 'rng) cluster \<Rightarrow> payload list \<Rightarrow> ('n, 'rng) cluster res" where
  "warmup_loop X vt max_steps c [] = Inr c"
| "warmup_loop X vt max_steps c (p # ps) =
     rbind (cluster_propose vt c p) (\<lambda>(c1, result).
     rbind (run_to_completion X vt c1 max_steps) (\<lambda>(c2, steps).
     warmup_loop X vt max_steps c2 ps))"

fun bench_loop ::
  "'rng extern \<Rightarrow> 'n vtable \<Rightarrow> usize \<Rightarrow> ('n, 'rng) cluster \<Rightarrow> payload list \<Rightarrow> ('n, 'rng) cluster res" where
  "bench_loop X vt max_steps c [] = Inr c"
| "bench_loop X vt max_steps c (p # ps) =
     rbind (cluster_propose vt c p) (\<lambda>(c1, result).
     if result \<noteq> Accepted then Inl AssertionFailed
     else
       rbind (run_to_completion X vt c1 max_steps) (\<lambda>(c2, steps).
       bench_loop X vt max_steps c2 ps))"

text \<open>When every proposal is accepted the two loops are the same.\<close>

lemma bench_loop_warmup: "bench_loop X vt k c ps = Inr c' \<Longrightarrow> warmup_loop X vt k c ps = Inr c'"
  by (induction ps arbitrary: c) (auto simp: rbind_eq_Inr split: if_splits)

text \<open>A timed loop is a run of the cluster.\<close>

lemma bench_loop_run:
  "bench_loop X vt k c ps = Inr c' \<Longrightarrow> cluster_run X vt c (concat (map (\<lambda>p. [DoPropose p, DoRun k]) ps)) = Inr c'"
  by (induction ps arbitrary: c) (auto simp: rbind_eq_Inr cluster_exec_def split: if_splits)

section \<open>Rounds\<close>

text \<open>The entries a workload commits: its payloads, numbered from 1.\<close>

definition entries_of :: "payload list \<Rightarrow> committed_entry list" where
  "entries_of ps = map (\<lambda>k. \<lparr>ce_sequence = word_of_nat (Suc k), ce_payload = ps ! k\<rparr>) [0..<length ps]"

lemma length_entries [simp]: "length (entries_of ps) = length ps"
  by (simp add: entries_of_def)

lemma entries_snoc: "entries_of (ps @ [p]) = entries_of ps @ [\<lparr>ce_sequence = word_of_nat (Suc (length ps)), ce_payload = p\<rparr>]"
  by (simp add: entries_of_def nth_append)

lemma entries_payloads: "map ce_payload (entries_of ps) = ps"
  by (simp add: entries_of_def o_def map_nth)

lemma entries_distinct: "length ps < 2 ^ 64 \<Longrightarrow> distinct (map ce_sequence (entries_of ps))"
proof -
  assume n: "length ps < 2 ^ 64"
  have "inj_on (\<lambda>k. word_of_nat (Suc k) :: u64) {0..<length ps}"
  proof (rule inj_onI)
    fix i j
    assume "i \<in> {0..<length ps}" "j \<in> {0..<length ps}" "(word_of_nat (Suc i) :: u64) = word_of_nat (Suc j)"
    then show "i = j" using n word_of_nat_inj_small [of "Suc i" "Suc j"] by simp
  qed
  then show ?thesis by (simp add: entries_of_def o_def distinct_map)
qed

locale round_protocol =
  fixes X :: "'rng extern" and vt :: "'n vtable"
    and calm :: "committed_entry list \<Rightarrow> ('n, 'rng) cluster \<Rightarrow> bool"
    and steps messages :: nat and tampered :: "'rng fault_config \<Rightarrow> nat"
  assumes round: "calm es c \<Longrightarrow> length es + 2 < 2 ^ 64 \<Longrightarrow> steps \<le> limit \<Longrightarrow>
      stats_ok (cl_stats c) \<Longrightarrow> unat (cs_messages_sent (cl_stats c)) + messages < 2 ^ 64 \<Longrightarrow>
      unat (cs_total_steps (cl_stats c)) + steps < 2 ^ 64 \<Longrightarrow>
      \<exists>c1 c2. cluster_propose vt c p = Inr (c1, Accepted) \<and> run_to_completion X vt c1 limit = Inr (c2, steps) \<and>
        calm (es @ [\<lparr>ce_sequence = word_of_nat (Suc (length es)), ce_payload = p\<rparr>]) c2 \<and>
        cl_faults c2 = cl_faults c \<and> cl_commit_log c2 = record_proposal (cl_commit_log c) p \<and>
        counted (cl_stats c) messages (tampered (cl_faults c)) steps (cl_stats c2)"
    and tampered_le: "calm es c \<Longrightarrow> tampered (cl_faults c) \<le> messages"
    and some_messages: "calm es c \<Longrightarrow> 2 \<le> messages \<and> steps \<le> messages"
begin

lemma workload:
  assumes "calm (entries_of qs) c" and "steps \<le> limit"
    and "stats_ok (cl_stats c)" and "lg_proposed (cl_commit_log c) = qs"
    and "counted st (length qs * messages) (length qs * tampered (cl_faults c)) (length qs * steps) (cl_stats c)"
    and "unat (cs_messages_sent st) = 0" and "unat (cs_total_steps st) = 0"
    and "(length qs + length ps) * messages < 2 ^ 64"
  shows "\<exists>c'. bench_loop X vt limit c ps = Inr c' \<and> calm (entries_of (qs @ ps)) c' \<and>
    cl_faults c' = cl_faults c \<and> cl_commit_log c' = (cl_commit_log c)\<lparr>lg_proposed := qs @ ps\<rparr> \<and>
    counted st (length (qs @ ps) * messages) (length (qs @ ps) * tampered (cl_faults c)) (length (qs @ ps) * steps) (cl_stats c')"
  using assms
proof (induction ps arbitrary: c qs)
  case Nil
  then show ?case by simp
next
  case (Cons p ps)
  note m = some_messages [OF Cons.prems(1)]
  let ?k = "length qs + 1"
  have prod: "?k * messages \<le> (length qs + length (p # ps)) * messages" by (intro mult_right_mono) auto
  have "?k * 2 \<le> ?k * messages" "?k * steps \<le> ?k * messages"
    by (rule mult_left_mono; use m in simp)+
  then have "?k * 2 < 2 ^ 64" "?k * messages < 2 ^ 64" "?k * steps < 2 ^ 64"
    using le_less_trans [OF prod Cons.prems(8)] by linarith+
  then have room: "length (entries_of qs) + 2 < 2 ^ 64"
    "unat (cs_messages_sent (cl_stats c)) + messages < 2 ^ 64"
    "unat (cs_total_steps (cl_stats c)) + steps < 2 ^ 64"
    using Cons.prems(5-7) by (simp_all add: counted_def add.commute)
  obtain c1 c2 where c2: "cluster_propose vt c p = Inr (c1, Accepted)" "run_to_completion X vt c1 limit = Inr (c2, steps)"
    "calm (entries_of (qs @ [p])) c2" "cl_faults c2 = cl_faults c"
    "cl_commit_log c2 = record_proposal (cl_commit_log c) p"
    "counted (cl_stats c) messages (tampered (cl_faults c)) steps (cl_stats c2)"
    using round [OF Cons.prems(1) room(1) Cons.prems(2,3) room(2,3), of p] by (auto simp: entries_snoc)
  have ok: "stats_ok (cl_stats c2)" by (rule counted_ok [OF c2(6) tampered_le [OF Cons.prems(1)] Cons.prems(3)])
  have cnt: "counted st (length (qs @ [p]) * messages) (length (qs @ [p]) * tampered (cl_faults c2)) (length (qs @ [p]) * steps) (cl_stats c2)"
    using counted_trans [OF Cons.prems(5) c2(6)] c2(4) by (simp add: algebra_simps)
  have log: "lg_proposed (cl_commit_log c2) = qs @ [p]" using c2(5) Cons.prems(4) by simp
  have "(length (qs @ [p]) + length ps) * messages < 2 ^ 64" using Cons.prems(8) by simp
  from Cons.IH [OF c2(3) Cons.prems(2) ok log cnt Cons.prems(6,7) this] obtain c' where
    c': "bench_loop X vt limit c2 ps = Inr c'" "calm (entries_of (qs @ p # ps)) c'" "cl_faults c' = cl_faults c"
    "cl_commit_log c' = (cl_commit_log c2)\<lparr>lg_proposed := qs @ p # ps\<rparr>"
    "counted st (length (qs @ p # ps) * messages) (length (qs @ p # ps) * tampered (cl_faults c)) (length (qs @ p # ps) * steps) (cl_stats c')"
    using c2(4) by auto
  then show ?case using c2(1,2,5) by (auto simp: record_proposal_def)
qed

lemma workload_from_start:
  assumes "calm [] (cluster_of nds fc)" and "steps \<le> limit"
    and "length ps * messages < 2 ^ 64"
  shows "\<exists>c. bench_loop X vt limit (cluster_of nds fc) ps = Inr c \<and> calm (entries_of ps) c \<and>
    cl_faults c = fc \<and> cl_commit_log c = commit_log_new\<lparr>lg_proposed := ps\<rparr> \<and>
    unat (cs_messages_sent (cl_stats c)) = length ps * messages \<and>
    unat (cs_messages_delivered (cl_stats c)) = length ps * messages \<and> cs_messages_dropped (cl_stats c) = 0 \<and>
    unat (cs_messages_tampered (cl_stats c)) = length ps * tampered fc \<and>
    unat (cs_total_steps (cl_stats c)) = length ps * steps"
proof -
  have "\<exists>c'. bench_loop X vt limit (cluster_of nds fc) ps = Inr c' \<and> calm (entries_of ([] @ ps)) c' \<and>
    cl_faults c' = cl_faults (cluster_of nds fc) \<and> cl_commit_log c' = (cl_commit_log (cluster_of nds fc))\<lparr>lg_proposed := [] @ ps\<rparr> \<and>
    counted cluster_stats_default (length ([] @ ps) * messages) (length ([] @ ps) * tampered (cl_faults (cluster_of nds fc)))
      (length ([] @ ps) * steps) (cl_stats c')"
    by (rule workload) (use assms in \<open>simp_all add: cluster_of_def commit_log_new_def entries_of_def
      cluster_stats_default_def stats_ok_def\<close>)
  then show ?thesis by (auto simp: cluster_of_def counted_def cluster_stats_default_def)
qed

end

section \<open>Collecting\<close>

text \<open>
  A log in which every honest node has an initial part of the same entries passes all the checks but
  termination, which it passes when every honest node has all of them.
\<close>

definition all_pass :: invariant_result where
  "all_pass = \<lparr>ir_agreement = Pass, ir_validity = Pass, ir_integrity = Pass, ir_termination = Pass, ir_total_order = Pass\<rparr>"

definition passes_if :: "bool \<Rightarrow> invariant_result \<Rightarrow> bool" where
  "passes_if finished r \<longleftrightarrow> r\<lparr>ir_termination := Pass\<rparr> = all_pass \<and> (ir_termination r = Pass \<longleftrightarrow> finished)"

lemma passes_if_True: "passes_if True r \<longleftrightarrow> r = all_pass"
  by (cases r) (auto simp: passes_if_def all_pass_def)

lemma nth_take_min: "k < min (length (take a xs)) (length (take b xs)) \<Longrightarrow> take a xs ! k = take b xs ! k"
  by simp

lemma prefix_log_checks:
  assumes keys: "distinct (map fst (lg_commits lg))"
    and same: "\<And>i. i \<in> set honest \<Longrightarrow> list_at (lg_commits lg) i = take (h i) es \<and> h i \<le> length es"
    and seqs: "distinct (map ce_sequence es)" and valid: "ce_payload ` set es \<subseteq> set (lg_proposed lg)"
  shows "passes_if (\<forall>i\<in>set honest. h i = length es) (check_log lg (length es) honest)"
proof -
  have entry: "e \<in> set es" if "log_entry_of lg i e" "i \<in> set honest" for i e
    using that same [OF that(2)] in_set_takeD [of e "h i" es] by (simp add: log_entry_of_iff [OF keys])
  have at: "xs = take (h i) es" if "(i, xs) \<in> set (lg_commits lg)" "i \<in> set honest" for i xs
    using same [OF that(2)] that(1) keys by (simp add: list_at_def)
  have one: "e = e'" if "e \<in> set es" "e' \<in> set es" "ce_sequence e = ce_sequence e'" for e e'
    using seqs that by (auto simp: distinct_map inj_on_def)
  have agree: "log_agreement lg (set honest)" unfolding log_agreement_def using entry one by metis
  have validity: "log_validity lg (set honest)" unfolding log_validity_def using entry valid by blast
  have "distinct (map ce_sequence (take k es))" for k using seqs by (metis distinct_take take_map)
  then have integrity: "log_integrity lg (set honest)" unfolding log_integrity_def by (auto dest: at)
  have "commit_count lg i = h i" if i: "i \<in> set honest" for i
    using same [OF i] by (cases "map_of (lg_commits lg) i") (auto simp: commit_count_def list_at_def min_def)
  then have count: "log_termination lg (length es) (set honest) \<longleftrightarrow> (\<forall>i\<in>set honest. h i = length es)"
    by (simp add: log_termination_def)
  have "check_total_order lg honest = Pass"
  proof (rule check_total_order_PassI)
    have ord: "\<exists>a. xs = map ce_sequence (take a es)" if "(i, xs) \<in> set (orderings lg honest)" for i xs
      using that map_of_SomeD [of "lg_commits lg" i]
      by (auto simp: orderings_def List.map_filter_def split: if_splits option.splits dest!: at)
    show "orders_agree xs ys" if "(i, xs) \<in> set (orderings lg honest)" "(j, ys) \<in> set (orderings lg honest)" for i xs j ys
      using ord [OF that(1)] ord [OF that(2)] by (auto simp: orders_agree_def)
  qed
  with agree validity integrity count show ?thesis
    by (simp add: passes_if_def check_log_def all_pass_def check_agreement_Pass check_validity_Pass check_integrity_Pass check_termination_Pass)
qed

context consensus_node begin

lemma collect_loop_log:
  assumes "distinct (map (vt_id vt) (cl_nodes c))" and "set ks \<subseteq> {..<length (cl_nodes c)}" and "distinct ks"
    and "collect_loop vt True c ks = (c', results)" and "distinct (map fst (lg_commits (cl_commit_log c)))"
  shows "distinct (map fst (lg_commits (cl_commit_log c'))) \<and> lg_proposed (cl_commit_log c') = lg_proposed (cl_commit_log c) \<and>
    cl_faults c' = cl_faults c \<and> length (cl_nodes c') = length (cl_nodes c) \<and>
    (\<forall>k<length (cl_nodes c). list_at (lg_commits (cl_commit_log c')) (vt_id vt (cl_nodes c ! k)) =
       list_at (lg_commits (cl_commit_log c)) (vt_id vt (cl_nodes c ! k)) @ (if k \<in> set ks then committed (cl_nodes c ! k) else []))"
  using assms
proof (induction ks arbitrary: c results)
  case (Cons j ks)
  obtain nd' es where p: "vt_poll_committed vt (cl_nodes c ! j) = (nd', es)" by fastforce
  have es: "es = committed (cl_nodes c ! j)" and id': "vt_id vt nd' = vt_id vt (cl_nodes c ! j)"
    using poll_drains [of "cl_nodes c ! j"] poll_id [of "cl_nodes c ! j"] p by simp_all
  let ?c2 = "c\<lparr>cl_nodes := (cl_nodes c)[j := nd'], cl_commit_log :=
      (if es = [] then cl_commit_log c else record_commits (cl_commit_log c) (vt_id vt nd') es)\<rparr>"
  obtain res' where rest: "collect_loop vt True ?c2 ks = (c', res')"
    using Cons.prems(4) p by (cases "es = []") (auto simp: Let_def split: prod.splits)
  have j: "j < length (cl_nodes c)" "j \<notin> set ks" using Cons.prems(2,3) by auto
  have ids: "map (vt_id vt) (cl_nodes ?c2) = map (vt_id vt) (cl_nodes c)"
    using id' j(1) list_update_id [of "map (vt_id vt) (cl_nodes c)" j] by (simp add: map_update)
  have dist: "distinct (map fst (lg_commits (cl_commit_log ?c2)))"
    using Cons.prems(5) record_commits_distinct by simp
  have "distinct (map fst (lg_commits (cl_commit_log c'))) \<and> lg_proposed (cl_commit_log c') = lg_proposed (cl_commit_log ?c2) \<and>
    cl_faults c' = cl_faults ?c2 \<and> length (cl_nodes c') = length (cl_nodes ?c2) \<and>
    (\<forall>k<length (cl_nodes ?c2). list_at (lg_commits (cl_commit_log c')) (vt_id vt (cl_nodes ?c2 ! k)) =
       list_at (lg_commits (cl_commit_log ?c2)) (vt_id vt (cl_nodes ?c2 ! k)) @ (if k \<in> set ks then committed (cl_nodes ?c2 ! k) else []))"
    by (rule Cons.IH [OF _ _ _ rest dist]) (use Cons.prems(1-3) ids in simp_all)
  moreover have same: "vt_id vt (cl_nodes c ! k) = vt_id vt (cl_nodes c ! j) \<longleftrightarrow> k = j" if "k < length (cl_nodes c)" for k
    using nth_eq_iff_index_eq [OF Cons.prems(1), of k j] j(1) that by simp
  moreover have "vt_id vt (cl_nodes ?c2 ! k) = vt_id vt (cl_nodes c ! k)" for k
    using id' j(1) by (simp add: nth_list_update)
  moreover have "list_at (lg_commits (cl_commit_log ?c2)) (vt_id vt (cl_nodes c ! k)) =
      list_at (lg_commits (cl_commit_log c)) (vt_id vt (cl_nodes c ! k)) @ (if k = j then committed (cl_nodes c ! k) else [])"
    if "k < length (cl_nodes c)" for k
    using same [OF that] id' es by (simp add: record_commits_def list_at_update)
  moreover have "lg_proposed (cl_commit_log ?c2) = lg_proposed (cl_commit_log c)"
    by (simp add: record_commits_def)
  ultimately show ?case
    using j by (simp add: nth_list_update)
qed simp

text \<open>A cluster whose nodes hold initial parts of the same entries, after one collection.\<close>

lemma collect_and_check:
  assumes ids: "map (vt_id vt) (cl_nodes c) = node_ids n" and n: "n < 2 ^ 64"
    and held: "\<And>k. k < n \<Longrightarrow> committed (cl_nodes c ! k) = take (h k) (entries_of ps) \<and> h k \<le> length ps"
    and log: "cl_commit_log c = commit_log_new\<lparr>lg_proposed := ps\<rparr>" and len: "length ps < 2 ^ 64"
    and iter: "\<And>xs. set (iter xs) = set xs" and quiet: "quiet (cl_faults c)"
  shows "passes_if (\<forall>k<n. is_byzantine (cl_faults c) (nid k) \<or> h k = length ps)
    (check_invariants iter (fst (collect_and_record_commits vt c)) (length ps))"
proof -
  have size: "length (cl_nodes c) = n" using ids by (metis length_map length_node_ids)
  obtain c' results where c': "collect_loop vt True c [0..<n] = (c', results)" by fastforce
  have d: "distinct (map (vt_id vt) (cl_nodes c))" using ids distinct_node_ids [OF n] by simp
  have "set [0..<n] \<subseteq> {..<length (cl_nodes c)}" using size by auto
  note res = collect_loop_log [OF d this distinct_upt c']
  have log': "distinct (map fst (lg_commits (cl_commit_log c')))" "lg_proposed (cl_commit_log c') = ps"
    "length (cl_nodes c') = n" "cl_faults c' = cl_faults c"
    "\<And>k. k < n \<Longrightarrow> list_at (lg_commits (cl_commit_log c')) (vt_id vt (cl_nodes c ! k)) = take (h k) (entries_of ps)"
    using res log held size by (auto simp: commit_log_new_def list_at_def)
  have idk: "vt_id vt (cl_nodes c ! k) = nid k" if "k < n" for k
    using that ids size nth_map [of k "cl_nodes c" "vt_id vt"] by (simp add: node_ids_nid)
  have honest: "i \<in> set (iter (honest_nodes c')) \<longleftrightarrow> (\<exists>k<n. i = nid k \<and> \<not> is_byzantine (cl_faults c) i)" for i
    using iter log'(3,4) quiet_not_isolated [OF quiet] by (auto simp: honest_nodes_def node_ids_nid)
  let ?h = "\<lambda>i. h (unat (node_num i))"
  have num: "unat (node_num (nid k)) = k" if "k < n" for k
    using that n unat_word_of_nat_small [of k] by (simp add: nid_def)
  have same: "list_at (lg_commits (cl_commit_log c')) i = take (?h i) (entries_of ps) \<and> ?h i \<le> length (entries_of ps)"
    if "i \<in> set (iter (honest_nodes c'))" for i
    using that log'(5) idk num held by (fastforce simp: honest)
  have "ce_payload ` set (entries_of ps) = set ps" using entries_payloads [of ps] by (metis set_map)
  then have "passes_if (\<forall>i\<in>set (iter (honest_nodes c')). ?h i = length (entries_of ps))
      (check_log (cl_commit_log c') (length (entries_of ps)) (iter (honest_nodes c')))"
    by (intro prefix_log_checks log'(1) same entries_distinct len) (simp_all add: log'(2))
  moreover have "(\<forall>i\<in>set (iter (honest_nodes c')). ?h i = length (entries_of ps)) \<longleftrightarrow>
      (\<forall>k<n. is_byzantine (cl_faults c) (nid k) \<or> h k = length ps)"
    using honest num by (auto simp: Ball_def)
  ultimately show ?thesis using c' size by (simp add: check_invariants_def collect_and_record_commits_def)
qed

end

end
