(* ===== verification/PbftInv.thy ===== *)
theory PbftInv
  imports PbftNode Workload
begin

text \<open>
  The PBFT node on its own: its well-formedness invariant, what every method keeps of it, and
  the trait's contract, discharged for the PBFT methods.
\<close>

section \<open>Inversion of the helpers\<close>

definition pbft_f :: "usize \<Rightarrow> usize" where
  "pbft_f n = (n - 1) div 3"

lemma pbft_quorum_Inr [res_simps]:
  "pbft_quorum nd = Inr q \<longleftrightarrow> 0 < pn_cluster_size nd \<and> q = 2 * pbft_f (pn_cluster_size nd) + 1"
  by (auto simp: pbft_quorum_def pbft_f_def sub_usize_def Let_def split: if_splits)

lemma pbft_prepare_threshold_Inr [res_simps]:
  "pbft_prepare_threshold nd = Inr t \<longleftrightarrow> 0 < pn_cluster_size nd \<and> t = 2 * pbft_f (pn_cluster_size nd)"
  by (auto simp: pbft_prepare_threshold_def pbft_f_def sub_usize_def Let_def split: if_splits)

lemma pbft_primary_Inr [res_simps]:
  "pbft_primary_for_view nd v = Inr p \<longleftrightarrow>
     word_of_nat (pn_cluster_size nd) \<noteq> (0 :: u64) \<and> p = NodeId (v mod word_of_nat (pn_cluster_size nd))"
  by (auto simp: pbft_primary_for_view_def rem_u64_def split: if_splits)

section \<open>The invariant\<close>

text \<open>
  A slot under key \<open>sq\<close> of a node in view \<open>v\<close>: it has left \<open>Idle\<close>; it is
  \<open>Prepared\<close> only with \<open>2f\<close> distinct prepare voters and the node's own commit, and
  \<open>Committed\<close> only with \<open>2f + 1\<close> distinct commit voters; unless committed it belongs to
  the current view.
\<close>

definition pbft_slot_ok :: "node_id \<Rightarrow> usize \<Rightarrow> ViewNumber \<Rightarrow> SequenceNumber \<Rightarrow> pbft_slot \<Rightarrow> bool" where
  "pbft_slot_ok me n v sq slot \<longleftrightarrow>
     ps_sequence slot = sq \<and> ps_phase slot \<noteq> Idle \<and>
     finite (ps_prepare_voters slot) \<and> finite (ps_commit_voters slot) \<and>
     ps_view slot \<le> v \<and> (ps_phase slot \<noteq> Committed \<longrightarrow> ps_view slot = v) \<and>
     (ps_phase slot = Prepared \<longrightarrow>
        2 * pbft_f n \<le> card (ps_prepare_voters slot) \<and> me \<in> ps_commit_voters slot) \<and>
     (ps_phase slot = Committed \<longrightarrow> 2 * pbft_f n + 1 \<le> card (ps_commit_voters slot))"

text \<open>
  The state: every slot is well formed; a payload is pending exactly for the slots still in
  progress; no committed slot lies above the recorded highest sequence; the timer never exceeds
  its start value; every vote set is finite.
\<close>

definition pbft_state_ok :: "node_id \<Rightarrow> usize \<Rightarrow> pbft_state \<Rightarrow> bool" where
  "pbft_state_ok me n st \<longleftrightarrow>
     (\<forall>sq slot. pb_slots st sq = Some slot \<longrightarrow> pbft_slot_ok me n (pb_view st) sq slot) \<and>
     (\<forall>sq. pb_pending_payloads st sq \<noteq> None \<longleftrightarrow>
        (\<exists>slot. pb_slots st sq = Some slot \<and> ps_phase slot \<noteq> Committed)) \<and>
     (\<forall>sq slot. pb_slots st sq = Some slot \<longrightarrow> ps_phase slot = Committed \<longrightarrow> sq \<le> pb_highest_committed_seq st) \<and>
     pb_view_change_timeout st \<le> PBFT_VIEW_CHANGE_TIMEOUT \<and>
     (\<forall>v. finite (set_at (pb_view_change_votes st) v)) \<and>
     (pb_view_change_in_progress st \<longrightarrow> NodeId (pb_view st mod word_of_nat n) \<noteq> me)"

definition pbft_wf :: "pbft_node \<Rightarrow> bool" where
  "pbft_wf nd \<longleftrightarrow>
     pn_current_view nd = pb_view (pn_state nd) \<and>
     pn_peer_ids nd = peers_of (pn_id nd) (pn_cluster_size nd) \<and>
     pbft_state_ok (pn_id nd) (pn_cluster_size nd) (pn_state nd)"

lemma pbft_state_ok_timeout:
  "pbft_state_ok me n st \<Longrightarrow> pb_view_change_timeout st \<le> PBFT_VIEW_CHANGE_TIMEOUT"
  by (simp add: pbft_state_ok_def)

lemma pbft_new_wf: "pbft_wf (pbft_new i n)"
  by (simp add: pbft_wf_def pbft_new_def pbft_state_ok_def PBFT_VIEW_CHANGE_TIMEOUT_def)

lemma pbft_new_slot_ok:
  "pbft_slot_ok me n v sq ((pbft_slot_new v sq)\<lparr>ps_phase := PrePrepared\<rparr>)"
  by (simp add: pbft_slot_ok_def pbft_slot_new_def)

lemma pbft_enter_new_view_ok:
  assumes "pbft_state_ok me n st" and "pb_view st < v"
  shows "pbft_state_ok me n (pbft_enter_new_view st v)"
  using assms by (fastforce simp: pbft_state_ok_def pbft_enter_new_view_def pbft_slot_ok_def)

lemma pbft_start_slot_ok:
  assumes "pbft_state_ok me n st"
    and "pb_view st' = pb_view st"
    and "pb_slots st' = (pb_slots st)(sq \<mapsto> (pbft_slot_new (pb_view st) sq)\<lparr>ps_phase := PrePrepared\<rparr>)"
    and "pb_pending_payloads st' = (pb_pending_payloads st)(sq \<mapsto> p)"
    and "pb_highest_committed_seq st' = pb_highest_committed_seq st"
    and "pb_view_change_timeout st' \<le> PBFT_VIEW_CHANGE_TIMEOUT"
    and "pb_view_change_votes st' = pb_view_change_votes st"
    and "pb_view_change_in_progress st' = pb_view_change_in_progress st"
  shows "pbft_state_ok me n st'"
proof -
  have "ps_phase ((pbft_slot_new (pb_view st) sq)\<lparr>ps_phase := PrePrepared\<rparr>) \<noteq> Committed"
    by simp
  then show ?thesis
    using assms pbft_new_slot_ok [of me n "pb_view st" sq] unfolding pbft_state_ok_def
    by (auto simp del: pbft_slot.simps)
qed

lemma pbft_update_slot_ok:
  assumes "pbft_state_ok me n st" and "pb_slots st sq = Some slot" and "ps_phase slot \<noteq> Committed"
    and "pbft_slot_ok me n (pb_view st) sq slot'" and "ps_phase slot' \<noteq> Committed"
  shows "pbft_state_ok me n (st\<lparr>pb_slots := (pb_slots st)(sq \<mapsto> slot')\<rparr>)"
  using assms by (auto simp: pbft_state_ok_def)

lemma pbft_commit_slot_ok:
  assumes "pbft_state_ok me n st" and "pb_slots st sq = Some slot" and "ps_phase slot \<noteq> Committed"
    and "pbft_slot_ok me n (pb_view st) sq (slot'\<lparr>ps_phase := Committed\<rparr>)"
  shows "pbft_state_ok me n (pbft_commit_slot st sq slot')"
proof -
  have "pb_pending_payloads st sq \<noteq> None"
    using assms by (auto simp: pbft_state_ok_def)
  then show ?thesis
    using assms
    by (auto simp: pbft_state_ok_def pbft_commit_slot_def Let_def split: option.splits)
      (meson le_less_trans less_imp_le)+
qed

section \<open>Every method keeps it\<close>

lemma pbft_propose_wf:
  assumes "pbft_wf nd" and "pbft_propose sha nd p = Inr (nd', r, out)"
  shows "pbft_wf nd'"
proof -
  have ok: "pbft_state_ok (pn_id nd) (pn_cluster_size nd) (pn_state nd)"
    using assms(1) by (simp add: pbft_wf_def)
  note start = pbft_start_slot_ok [OF ok _ _ _ _ _ _ _, where p = p]
  show ?thesis
    using assms pbft_state_ok_timeout [OF ok]
    by (auto simp: pbft_propose_def pbft_wf_def Let_def res_simps split: if_splits intro!: start)
qed

lemma pbft_pre_prepare_wf:
  "pbft_wf nd \<Longrightarrow> pbft_on_pre_prepare nd v sq d p = Inr (nd', out) \<Longrightarrow> pbft_wf nd'"
  by (auto simp: pbft_on_pre_prepare_def pbft_wf_def Let_def split: if_splits
      elim!: pbft_start_slot_ok)

lemma pbft_prepare_wf:
  assumes "pbft_wf nd" and "pbft_on_prepare nd v sq d j = Inr (nd', out)"
  shows "pbft_wf nd'"
proof -
  have ok: "pbft_state_ok (pn_id nd) (pn_cluster_size nd) (pn_state nd)"
    using assms(1) by (simp add: pbft_wf_def)
  then have "pbft_slot_ok (pn_id nd) (pn_cluster_size nd) (pb_view (pn_state nd)) sq slot"
    if "pb_slots (pn_state nd) sq = Some slot" for slot
    using that by (simp add: pbft_state_ok_def)
  then show ?thesis
    using assms
    by (auto simp: pbft_on_prepare_def pbft_wf_def Let_def res_simps pbft_slot_ok_def
        split: if_splits option.splits intro!: pbft_update_slot_ok [OF ok])
qed

lemma pbft_commit_wf:
  assumes "pbft_wf nd" and "pbft_on_commit nd v sq d j = Inr (nd', out)"
  shows "pbft_wf nd'"
proof -
  have ok: "pbft_state_ok (pn_id nd) (pn_cluster_size nd) (pn_state nd)"
    using assms(1) by (simp add: pbft_wf_def)
  then have slot: "pbft_slot_ok (pn_id nd) (pn_cluster_size nd) (pb_view (pn_state nd)) sq slot"
    if "pb_slots (pn_state nd) sq = Some slot" for slot
    using that by (simp add: pbft_state_ok_def)
  have view: "pb_view (pbft_commit_slot st sq slot) = pb_view st" for st slot
    by (auto simp: pbft_commit_slot_def Let_def split: option.splits)
  have card: "finite A \<Longrightarrow> card A \<le> card (insert j A)" for A
    by (simp add: card_insert_le)
  show ?thesis
    using assms slot view card
    by (auto simp: pbft_on_commit_def pbft_wf_def Let_def res_simps pbft_slot_ok_def
        split: if_splits option.splits intro!: pbft_update_slot_ok [OF ok] pbft_commit_slot_ok [OF ok])
qed

lemma pbft_lead_new_view_wf:
  assumes "pbft_state_ok (pn_id nd) (pn_cluster_size nd) st" and "pb_view st < v"
    and "pn_peer_ids nd = peers_of (pn_id nd) (pn_cluster_size nd)"
    and "pbft_lead_new_view nd st v = Inr (nd', out)"
  shows "pbft_wf nd'"
proof -
  have "pbft_state_ok (pn_id nd) (pn_cluster_size nd) ((pbft_enter_new_view st v)\<lparr>pb_next_sequence := s\<rparr>)" for s
    using pbft_enter_new_view_ok [OF assms(1,2)] by (simp add: pbft_state_ok_def)
  then show ?thesis
    using assms(3,4)
    by (auto simp: pbft_lead_new_view_def pbft_wf_def Let_def res_simps pbft_enter_new_view_def)
qed

text \<open>Updates that leave the slots and the pending payloads alone.\<close>

lemma pbft_state_ok_frame:
  assumes "pbft_state_ok me n st"
    and "pb_view st' = pb_view st" and "pb_slots st' = pb_slots st"
    and "pb_pending_payloads st' = pb_pending_payloads st"
    and "pb_highest_committed_seq st' = pb_highest_committed_seq st"
    and "pb_view_change_timeout st' \<le> PBFT_VIEW_CHANGE_TIMEOUT"
    and "\<And>v. finite (set_at (pb_view_change_votes st') v)"
    and "pb_view_change_in_progress st' \<Longrightarrow> NodeId (pb_view st mod word_of_nat n) \<noteq> me"
  shows "pbft_state_ok me n st'"
  using assms unfolding pbft_state_ok_def by simp

lemma pbft_state_ok_votes: "pbft_state_ok me n st \<Longrightarrow> finite (set_at (pb_view_change_votes st) v)"
  by (simp add: pbft_state_ok_def)

lemma pbft_vote_ok:
  assumes "pbft_state_ok me n st" and "finite A"
  shows "pbft_state_ok me n (st\<lparr>pb_view_change_votes := (pb_view_change_votes st)(v \<mapsto> A)\<rparr>)"
  using assms by (simp add: pbft_state_ok_def)

lemma pbft_view_change_wf:
  assumes "pbft_wf nd" and "pbft_on_view_change nd v j l = Inr (nd', out)"
  shows "pbft_wf nd'"
proof -
  let ?st = "pn_state nd"
  have ok: "pbft_state_ok (pn_id nd) (pn_cluster_size nd) ?st"
    using assms(1) by (simp add: pbft_wf_def)
  then have "finite (set_at (pb_view_change_votes ?st) v)"
    by (simp add: pbft_state_ok_def)
  then have votes: "pbft_state_ok (pn_id nd) (pn_cluster_size nd)
      (?st\<lparr>pb_view_change_votes := (pb_view_change_votes ?st)(v \<mapsto> insert a (insert b (set_at (pb_view_change_votes ?st) v)))\<rparr>)"
    for a b using ok by (simp add: pbft_vote_ok)
  from votes [of j j] votes [of "pn_id nd" j] show ?thesis
    using assms
    by (auto simp: pbft_on_view_change_def pbft_wf_def [of nd] Let_def res_simps not_le split: if_splits
        elim!: pbft_lead_new_view_wf [rotated 3]) (simp_all add: pbft_wf_def)
qed

lemma pbft_new_view_wf:
  assumes "pbft_wf nd" and "pbft_on_new_view nd v s = Inr (nd', out)"
  shows "pbft_wf nd'"
proof (cases "v \<le> pb_view (pn_state nd)")
  case True
  then show ?thesis using assms by (simp add: pbft_on_new_view_def)
next
  case False
  then have "pbft_state_ok (pn_id nd) (pn_cluster_size nd) (pbft_enter_new_view (pn_state nd) v)"
    using assms(1) by (intro pbft_enter_new_view_ok) (auto simp: pbft_wf_def)
  then show ?thesis
    using assms False
    by (auto simp: pbft_on_new_view_def pbft_wf_def pbft_state_ok_def pbft_enter_new_view_def Let_def)
qed

lemma pbft_handle_wf:
  "pbft_wf nd \<Longrightarrow> pbft_handle_message nd m = Inr (nd', out) \<Longrightarrow> pbft_wf nd'"
  by (auto simp: pbft_handle_message_def split: protocol_message.splits pbft_message.splits
      dest: pbft_pre_prepare_wf pbft_prepare_wf pbft_commit_wf pbft_view_change_wf pbft_new_view_wf)

lemma pbft_tick_wf:
  assumes "pbft_wf nd" and "pbft_tick nd = Inr (nd', out)"
  shows "pbft_wf nd'"
proof -
  have ok: "pbft_state_ok (pn_id nd) (pn_cluster_size nd) (pn_state nd)"
    using assms(1) by (simp add: pbft_wf_def)
  note frame = pbft_state_ok_frame [OF ok]
  have "sub_u64 t 1 = Inr t' \<Longrightarrow> t \<le> PBFT_VIEW_CHANGE_TIMEOUT \<Longrightarrow> t' \<le> PBFT_VIEW_CHANGE_TIMEOUT" for t t'
    by (drule sub_u64_unat) (simp add: word_le_nat_alt)
  then show ?thesis
    using assms pbft_state_ok_timeout [OF ok] pbft_state_ok_votes [OF ok]
    by (auto simp: pbft_tick_def pbft_wf_def Let_def res_simps split: if_splits intro!: frame)
qed

lemma pbft_poll_wf: "pbft_wf nd \<Longrightarrow> pbft_wf (fst (pbft_poll_committed nd))"
  by (simp add: pbft_poll_committed_def pbft_wf_def pbft_state_ok_def)

section \<open>The trait's contract\<close>

lemma pbft_commit_slot_simps [simp]:
  "pb_view (pbft_commit_slot st sq slot) = pb_view st"
  "pb_next_sequence (pbft_commit_slot st sq slot) = pb_next_sequence st"
  by (auto simp: pbft_commit_slot_def Let_def split: option.splits)

lemma pbft_lead_new_view_Inr:
  assumes "pbft_lead_new_view nd st v = Inr (nd', out)"
  shows "pn_id nd' = pn_id nd \<and> pn_cluster_size nd' = pn_cluster_size nd \<and>
    (\<exists>next. out = broadcast_pbft nd (PbftNewView v next)) \<and>
    pb_committed (pn_state nd') = pb_committed st \<and> pb_view (pn_state nd') = v \<and>
    pb_pending_payloads (pn_state nd') = Map.empty"
  using assms by (auto simp: pbft_lead_new_view_def pbft_enter_new_view_def Let_def res_simps)

lemma pbft_propose_frame:
  assumes "pbft_propose sha nd p = Inr (nd', r, out)"
  shows "pn_id nd' = pn_id nd \<and> pn_cluster_size nd' = pn_cluster_size nd \<and>
    (\<forall>x\<in>set out. msg_from x = pn_id nd) \<and> pb_committed (pn_state nd') = pb_committed (pn_state nd)"
  using assms
  by (auto simp: pbft_propose_def Let_def res_simps broadcast_pbft_def split: if_splits)

lemma pbft_propose_rejected:
  "pbft_propose sha nd p = Inr (nd', NotLeader l, out) \<Longrightarrow> nd' = nd \<and> out = []"
  by (auto simp: pbft_propose_def Let_def res_simps split: if_splits)

lemma pbft_commit_slot_committed:
  "\<exists>es. pb_committed (pbft_commit_slot st sq slot) = pb_committed st @ es"
  by (auto simp: pbft_commit_slot_def Let_def split: option.splits)

lemma pbft_handle_frame:
  assumes "pbft_handle_message nd m = Inr (nd', out)"
  shows "pn_id nd' = pn_id nd \<and> pn_cluster_size nd' = pn_cluster_size nd \<and>
    (\<forall>x\<in>set out. msg_from x = pn_id nd) \<and>
    (\<exists>es. pb_committed (pn_state nd') = pb_committed (pn_state nd) @ es)"
  using assms
  by (auto simp: pbft_handle_message_def pbft_on_pre_prepare_def pbft_on_prepare_def pbft_on_commit_def
      pbft_on_view_change_def pbft_on_new_view_def pbft_enter_new_view_def Let_def res_simps
      broadcast_pbft_def pbft_commit_slot_committed
      dest!: pbft_lead_new_view_Inr
      split: protocol_message.splits pbft_message.splits if_splits option.splits)

lemma pbft_tick_frame:
  assumes "pbft_tick nd = Inr (nd', out)"
  shows "pn_id nd' = pn_id nd \<and> pn_cluster_size nd' = pn_cluster_size nd \<and>
    (\<forall>x\<in>set out. msg_from x = pn_id nd) \<and> pb_committed (pn_state nd') = pb_committed (pn_state nd)"
  using assms by (auto simp: pbft_tick_def Let_def res_simps broadcast_pbft_def split: if_splits)

lemma pbft_vtable_simps [simp]:
  "vt_id (pbft_vtable sha) = pn_id"
  "vt_cluster_size (pbft_vtable sha) = pn_cluster_size"
  "vt_fault_tolerance (pbft_vtable sha) = pbft_fault_tolerance"
  "vt_peers (pbft_vtable sha) = pn_peer_ids"
  "vt_propose (pbft_vtable sha) = pbft_propose sha"
  "vt_handle_message (pbft_vtable sha) = pbft_handle_message"
  "vt_tick (pbft_vtable sha) = pbft_tick"
  "vt_poll_committed (pbft_vtable sha) = pbft_poll_committed"
  "vt_leader (pbft_vtable sha) = pbft_leader"
  by (simp_all add: pbft_vtable_def)

text \<open>A well-formed node of a cluster of \<open>n\<close>.\<close>

definition pbft_member :: "usize \<Rightarrow> pbft_node \<Rightarrow> bool" where
  "pbft_member n nd \<longleftrightarrow> pbft_wf nd \<and> pn_cluster_size nd = n"

interpretation pb: consensus_node "pbft_vtable sha" "pbft_member n" "\<lambda>nd. pb_committed (pn_state nd)"
  for sha n
proof
  fix nd nd' :: pbft_node and p m r out l
  show "vt_propose (pbft_vtable sha) nd p = Inr (nd', NotLeader l, out) \<Longrightarrow> nd' = nd \<and> out = []"
    using pbft_propose_rejected by simp
  show "\<exists>es. pb_committed (pn_state nd') = pb_committed (pn_state nd) @ es"
    if "vt_handle_message (pbft_vtable sha) nd m = Inr (nd', out)"
    using that pbft_handle_frame by simp
qed (auto simp: pbft_poll_committed_def pbft_member_def pbft_poll_wf [simplified pbft_poll_committed_def fst_conv]
    dest: pbft_propose_frame pbft_handle_frame pbft_tick_frame pbft_propose_wf pbft_handle_wf pbft_tick_wf)

end
