(* ===== verification/PbftSafety.thy ===== *)
theory PbftSafety
  imports PbftInv ClusterSafety
begin

text \<open>
  PBFT discharges the sequenced-protocol contract: a \<open>PrePrepare\<close> is the message that binds
  a payload, and the primary of the view is the node that sends it.  The locale's theorems then
  hold of PBFT clusters of any size whose nodes follow the code, whatever the network loses,
  repeats or reorders and whenever views change.
\<close>

definition pbft_binding :: "network_message \<Rightarrow> (ViewNumber \<times> SequenceNumber \<times> payload) option" where
  "pbft_binding m = (case msg_payload m of Pbft (PrePrepare v sq d p) \<Rightarrow> Some (v, sq, p) | _ \<Rightarrow> None)"

fun pbft_view_of :: "pbft_message \<Rightarrow> ViewNumber" where
  "pbft_view_of (PrePrepare v sq d p) = v"
| "pbft_view_of (Prepare v sq d i) = v"
| "pbft_view_of (Commit v sq d i) = v"
| "pbft_view_of (ViewChange v i l) = v"
| "pbft_view_of (PbftNewView v sq) = v"

definition pbft_msg_view :: "network_message \<Rightarrow> ViewNumber" where
  "pbft_msg_view m = (case msg_payload m of Pbft pm \<Rightarrow> pbft_view_of pm | _ \<Rightarrow> 0)"

lemma mk_pbft_msg [simp]:
  "pbft_binding (mk_msg i j (Pbft m)) = (case m of PrePrepare v sq d p \<Rightarrow> Some (v, sq, p) | _ \<Rightarrow> None)"
  "pbft_msg_view (mk_msg i j (Pbft m)) = pbft_view_of m"
  by (simp_all add: pbft_binding_def pbft_msg_view_def)

lemma pbft_corrupt_digest [simp]:
  "pbft_binding (corrupt_digest m) = pbft_binding m" "pbft_msg_view (corrupt_digest m) = pbft_msg_view m"
  by (cases "msg_payload m" rule: corrupt_payload_digest.cases;
      simp add: corrupt_digest_def pbft_binding_def pbft_msg_view_def)+

lemma pbft_propose_binds:
  assumes "pbft_member n nd" and "pbft_propose sha nd p = Inr (nd', Accepted, out)"
  shows "leader_of n (pb_view (pn_state nd)) = pn_id nd \<and>
    pb_view (pn_state nd') = pb_view (pn_state nd) \<and>
    pb_next_sequence (pn_state nd) < pb_next_sequence (pn_state nd') \<and>
    pb_pending_payloads (pn_state nd') = (pb_pending_payloads (pn_state nd))(pb_next_sequence (pn_state nd) \<mapsto> p) \<and>
    (\<forall>x\<in>set out. pbft_msg_view x \<le> pb_view (pn_state nd) \<and>
       (\<forall>b. pbft_binding x = Some b \<longrightarrow> b = (pb_view (pn_state nd), pb_next_sequence (pn_state nd), p)))"
  using assms
  by (auto simp: pbft_propose_def pbft_member_def Let_def res_simps leader_of_def broadcast_pbft_def
      add_u64_less split: if_splits)

text \<open>
  What one message may do to a node, given the view the message carries and the binding it makes:
  the effect the contract asks for, proved arm by arm.
\<close>

definition pbft_effect ::
  "ViewNumber \<Rightarrow> (ViewNumber \<times> SequenceNumber \<times> payload) option \<Rightarrow> pbft_node \<Rightarrow> pbft_node \<Rightarrow> network_message list \<Rightarrow> bool" where
  "pbft_effect v b nd nd' out \<longleftrightarrow>
     (let st = pn_state nd; st' = pn_state nd' in
      pb_view st \<le> pb_view st' \<and> pb_view st' \<le> max (pb_view st) v \<and>
      (pb_view st' = pb_view st \<longrightarrow> pb_next_sequence st' = pb_next_sequence st) \<and>
      (\<forall>x\<in>set out. pbft_binding x = None \<and> pbft_msg_view x \<le> max (pb_view st) v) \<and>
      (\<forall>sq p. pb_pending_payloads st' sq = Some p \<longrightarrow>
         pb_view st' = pb_view st \<and> pb_pending_payloads st sq = Some p \<or> b = Some (pb_view st', sq, p)) \<and>
      (\<forall>e\<in>set (drop (length (pb_committed st)) (pb_committed st')).
         pb_pending_payloads st (ce_sequence e) = Some (ce_payload e)))"

lemma pbft_effect_none: "pbft_effect v b nd nd []"
  by (simp add: pbft_effect_def)

lemma pbft_pre_prepare_effect:
  "pbft_on_pre_prepare nd v sq d p = Inr (nd', out) \<Longrightarrow> pbft_effect v (Some (v, sq, p)) nd nd' out"
  by (auto simp: pbft_on_pre_prepare_def pbft_effect_def Let_def broadcast_pbft_def split: if_splits)

lemma pbft_effect_slots:
  assumes "\<forall>x\<in>set out. pbft_binding x = None \<and> pbft_msg_view x \<le> max (pb_view (pn_state nd)) v"
  shows "pbft_effect v b nd (nd\<lparr>pn_state := (pn_state nd)\<lparr>pb_slots := S\<rparr>\<rparr>) out"
  using assms by (simp add: pbft_effect_def)

lemma pbft_prepare_effect:
  assumes "pbft_on_prepare nd v sq d j = Inr (nd', out)"
  shows "pbft_effect v b nd nd' out"
  using assms
  by (auto simp: pbft_on_prepare_def Let_def res_simps pbft_effect_def broadcast_pbft_def
      split: if_splits option.splits)

lemma pbft_commit_slot_effect:
  "pb_pending_payloads (pbft_commit_slot st sq slot) s = Some p \<Longrightarrow> pb_pending_payloads st s = Some p"
  "e \<in> set (drop (length (pb_committed st)) (pb_committed (pbft_commit_slot st sq slot))) \<Longrightarrow>
     pb_pending_payloads st (ce_sequence e) = Some (ce_payload e)"
  by (auto simp: pbft_commit_slot_def Let_def split: option.splits if_splits)

lemma pbft_commit_slot_node_effect:
  "pbft_effect v b nd (nd\<lparr>pn_state := pbft_commit_slot (pn_state nd) sq slot\<rparr>) []"
  by (auto simp: pbft_effect_def Let_def dest: pbft_commit_slot_effect)

lemma pbft_commit_effect:
  assumes "pbft_on_commit nd v sq d j = Inr (nd', out)"
  shows "pbft_effect v b nd nd' out"
proof -
  have "out = [] \<and> (nd' = nd \<or> (\<exists>S. nd' = nd\<lparr>pn_state := (pn_state nd)\<lparr>pb_slots := S\<rparr>\<rparr>) \<or>
      (\<exists>slot. nd' = nd\<lparr>pn_state := pbft_commit_slot (pn_state nd) sq slot\<rparr>))"
    using assms by (auto simp: pbft_on_commit_def Let_def res_simps split: if_splits option.splits)
  then show ?thesis
    using pbft_commit_slot_node_effect [of v b nd sq] pbft_effect_slots [of "[]" nd v b]
      pbft_effect_none [of v b nd] by auto
qed

lemma pbft_lead_new_view_effect:
  assumes "pbft_lead_new_view nd st v = Inr (nd', out)" and "pb_view (pn_state nd) < v"
    and "pb_committed st = pb_committed (pn_state nd)"
  shows "pbft_effect v b nd nd' out"
  using pbft_lead_new_view_Inr [OF assms(1)] assms(2,3)
  by (auto simp: pbft_effect_def Let_def broadcast_pbft_def max_def)

lemma pbft_effect_append:
  "pbft_effect v b nd nd' out \<Longrightarrow>
     (\<forall>x\<in>set out'. pbft_binding x = None \<and> pbft_msg_view x \<le> max (pb_view (pn_state nd)) v) \<Longrightarrow>
     pbft_effect v b nd nd' (out' @ out)"
  by (auto simp: pbft_effect_def Let_def)

lemma pbft_view_change_effect:
  "pbft_on_view_change nd v j l = Inr (nd', out) \<Longrightarrow> pbft_effect v b nd nd' out"
  by (auto simp: pbft_on_view_change_def Let_def res_simps broadcast_pbft_def not_le split: if_splits
      intro!: pbft_effect_append elim!: pbft_lead_new_view_effect)
    (auto simp: pbft_effect_def Let_def max_def)

lemma pbft_new_view_effect:
  "pbft_on_new_view nd v s = Inr (nd', out) \<Longrightarrow> pbft_effect v b nd nd' out"
  by (auto simp: pbft_on_new_view_def pbft_effect_def pbft_enter_new_view_def Let_def max_def split: if_splits)

lemma pbft_handle_effect:
  "pbft_handle_message nd m = Inr (nd', out) \<Longrightarrow> pbft_effect (pbft_msg_view m) (pbft_binding m) nd nd' out"
  by (auto simp: pbft_handle_message_def pbft_binding_def pbft_msg_view_def pbft_effect_none
      split: protocol_message.splits pbft_message.splits
      intro: pbft_pre_prepare_effect pbft_prepare_effect pbft_commit_effect pbft_view_change_effect
        pbft_new_view_effect)

lemma pbft_tick_effect:
  assumes "pbft_tick nd = Inr (nd', out)"
  shows "pb_view (pn_state nd') = pb_view (pn_state nd) \<and>
    pb_next_sequence (pn_state nd') = pb_next_sequence (pn_state nd) \<and>
    pb_pending_payloads (pn_state nd') = pb_pending_payloads (pn_state nd) \<and>
    (\<forall>x\<in>set out. pbft_binding x = None)"
  using assms by (auto simp: pbft_tick_def Let_def res_simps broadcast_pbft_def split: if_splits)

interpretation pbs: sequenced_protocol "pbft_vtable sha" "pbft_member n" "\<lambda>nd. pb_committed (pn_state nd)"
  "\<lambda>nd. pb_view (pn_state nd)" "\<lambda>nd. pb_next_sequence (pn_state nd)"
  "\<lambda>nd. pb_pending_payloads (pn_state nd)" "leader_of n" pbft_binding pbft_msg_view
  for sha n
proof
  fix nd nd' :: pbft_node and p m out sq
  show "leader_of n (pb_view (pn_state nd)) = vt_id (pbft_vtable sha) nd \<and>
      pb_view (pn_state nd') = pb_view (pn_state nd) \<and>
      pb_next_sequence (pn_state nd) < pb_next_sequence (pn_state nd') \<and>
      pb_pending_payloads (pn_state nd') = (pb_pending_payloads (pn_state nd))(pb_next_sequence (pn_state nd) \<mapsto> p) \<and>
      (\<forall>x\<in>set out. pbft_msg_view x \<le> pb_view (pn_state nd) \<and>
        (\<forall>b. pbft_binding x = Some b \<longrightarrow> b = (pb_view (pn_state nd), pb_next_sequence (pn_state nd), p)))"
    if "pbft_member n nd" "vt_propose (pbft_vtable sha) nd p = Inr (nd', Accepted, out)"
    using pbft_propose_binds that by simp
next
  fix nd nd' :: pbft_node and m out sq p
  assume "vt_handle_message (pbft_vtable sha) nd m = Inr (nd', out)"
  then have "pbft_effect (pbft_msg_view m) (pbft_binding m) nd nd' out"
    by (simp add: pbft_handle_effect)
  note eff = this [unfolded pbft_effect_def Let_def]
  show "pb_view (pn_state nd) \<le> pb_view (pn_state nd') \<and>
      pb_view (pn_state nd') \<le> max (pb_view (pn_state nd)) (pbft_msg_view m) \<and>
      (pb_view (pn_state nd') = pb_view (pn_state nd) \<longrightarrow>
        pb_next_sequence (pn_state nd') = pb_next_sequence (pn_state nd))"
    using eff by blast
  show "\<forall>x\<in>set out. pbft_binding x = None \<and> pbft_msg_view x \<le> max (pb_view (pn_state nd)) (pbft_msg_view m)"
    using eff by blast
  show "pb_pending_payloads (pn_state nd') sq = Some p \<Longrightarrow>
      pb_view (pn_state nd') = pb_view (pn_state nd) \<and> pb_pending_payloads (pn_state nd) sq = Some p \<or>
      pbft_binding m = Some (pb_view (pn_state nd'), sq, p)"
    using eff by blast
  show "\<forall>e\<in>set (fresh_entries (\<lambda>nd. pb_committed (pn_state nd)) nd nd').
      pb_pending_payloads (pn_state nd) (ce_sequence e) = Some (ce_payload e)"
    using eff by (simp add: fresh_entries_def)
qed (auto simp: pbft_poll_committed_def dest: pbft_tick_effect)

end
