(* ===== verification/Evidence.thy ===== *)
theory Evidence
  imports AsyncNet
begin

text \<open>
  Evidence: what the messages sent so far prove.  A protocol states, over the set of all messages
  ever sent, what a node's state, a message and a decision must be backed by; if every method
  keeps to it, every reachable state of the asynchronous system does.  PBFT and HotStuff use it
  for their quorums of votes.
\<close>

text \<open>A set of at least \<open>k\<close> distinct members of \<open>A\<close>.\<close>

definition quorum_in :: "nat \<Rightarrow> 'a set \<Rightarrow> bool" where
  "quorum_in k A \<longleftrightarrow> (\<exists>Q. finite Q \<and> Q \<subseteq> A \<and> k \<le> card Q)"

lemma quorum_in_mono: "quorum_in k A \<Longrightarrow> A \<subseteq> B \<Longrightarrow> quorum_in k B"
  by (auto simp: quorum_in_def)

lemma quorum_inI: "finite Q \<Longrightarrow> k \<le> card Q \<Longrightarrow> Q \<subseteq> A \<Longrightarrow> quorum_in k A"
  by (auto simp: quorum_in_def)

locale evidence_protocol = consensus_node vt wf committed
  for vt :: "'n vtable" and wf :: "'n \<Rightarrow> bool" and committed :: "'n \<Rightarrow> committed_entry list" +
  fixes ids :: "node_id set"
    and view :: "'n \<Rightarrow> ViewNumber"
    and node_backed :: "network_message set \<Rightarrow> 'n \<Rightarrow> bool"
    and msg_backed :: "network_message set \<Rightarrow> network_message \<Rightarrow> bool"
    and entry_backed :: "network_message set \<Rightarrow> node_id \<Rightarrow> ViewNumber \<Rightarrow> committed_entry \<Rightarrow> bool"
  assumes node_mono: "node_backed S nd \<Longrightarrow> S \<subseteq> S' \<Longrightarrow> node_backed S' nd"
    and msg_mono: "msg_backed S m \<Longrightarrow> S \<subseteq> S' \<Longrightarrow> msg_backed S' m"
    and entry_mono: "entry_backed S i v e \<Longrightarrow> S \<subseteq> S' \<Longrightarrow> entry_backed S' i v e"
    and corrupt_backed: "msg_backed S m \<Longrightarrow> msg_backed S (corrupt_digest m)"
    and propose_backed: "wf nd \<Longrightarrow> vt_id vt nd \<in> ids \<Longrightarrow> node_backed S nd \<Longrightarrow>
      vt_propose vt nd p = Inr (nd', r, out) \<Longrightarrow> node_backed S nd' \<and> (\<forall>x\<in>set out. msg_backed S x)"
    and tick_backed: "wf nd \<Longrightarrow> vt_id vt nd \<in> ids \<Longrightarrow> node_backed S nd \<Longrightarrow>
      vt_tick vt nd = Inr (nd', out) \<Longrightarrow> node_backed S nd' \<and> (\<forall>x\<in>set out. msg_backed S x)"
    and poll_backed: "node_backed S nd \<Longrightarrow> node_backed S (fst (vt_poll_committed vt nd))"
    and handle_backed: "wf nd \<Longrightarrow> vt_id vt nd \<in> ids \<Longrightarrow> node_backed S nd \<Longrightarrow> m \<in> S \<Longrightarrow> \<forall>x\<in>S. msg_backed S x \<Longrightarrow>
      vt_handle_message vt nd m = Inr (nd', out) \<Longrightarrow> node_backed S nd' \<and> (\<forall>x\<in>set out. msg_backed S x) \<and>
      (\<forall>e\<in>set (fresh_entries committed nd nd'). entry_backed S (vt_id vt nd) (view nd) e)"
begin

definition backed_node :: "network_message set \<Rightarrow> node_id \<Rightarrow> 'n \<Rightarrow> bool" where
  "backed_node S i nd \<longleftrightarrow> wf nd \<and> vt_id vt nd = i \<and> node_backed S nd"

definition backed_net :: "'n net \<Rightarrow> bool" where
  "backed_net s \<longleftrightarrow>
     (\<forall>i\<in>ids. backed_node (nt_sent s) i (nt_nodes s i)) \<and>
     (\<forall>m\<in>nt_sent s. msg_backed (nt_sent s) m) \<and>
     (\<forall>i. \<forall>(v, e)\<in>set (nt_decided s i). i \<in> ids \<and> entry_backed (nt_sent s) i v e)"

text \<open>One node's step: everything else is backed by more messages than before.\<close>

lemma backed_net_update:
  assumes ok: "backed_net s" and i: "i \<in> ids"
    and nd': "backed_node (nt_sent s) i nd'" and out: "\<forall>x\<in>set out. msg_backed (nt_sent s) x"
    and new: "\<forall>e\<in>set es. entry_backed (nt_sent s) i v e"
    and t: "nt_nodes t = (nt_nodes s)(i := nd')" "nt_sent t = nt_sent s \<union> set out"
      "nt_decided t = (nt_decided s)(i := nt_decided s i @ map (Pair v) es)"
  shows "backed_net t"
proof -
  have sub: "nt_sent s \<subseteq> nt_sent t" using t by simp
  have "backed_node (nt_sent t) j (nt_nodes t j)" if "j \<in> ids" for j
    using that ok nd' t(1) node_mono [OF _ sub] by (auto simp: backed_net_def backed_node_def)
  moreover have "msg_backed (nt_sent t) m" if "m \<in> nt_sent t" for m
    using that ok out t(2) msg_mono [OF _ sub] by (auto simp: backed_net_def)
  moreover have "j \<in> ids \<and> entry_backed (nt_sent t) j w e" if "(w, e) \<in> set (nt_decided t j)" for j w e
    using that ok i new t(3) entry_mono [OF _ sub] by (fastforce simp: backed_net_def split: if_splits)
  ultimately show ?thesis unfolding backed_net_def by blast
qed

lemma backed_net_step:
  assumes "net_step timers vt ids view committed s t" and "backed_net s"
  shows "backed_net t"
  using assms
proof (induction rule: net_step.induct)
  case (net_propose i s p nd' r out)
  then have nd: "wf (nt_nodes s i)" "vt_id vt (nt_nodes s i) = i" "node_backed (nt_sent s) (nt_nodes s i)"
    by (auto simp: backed_net_def backed_node_def)
  note step = net_propose.hyps(2)
  have bk: "node_backed (nt_sent s) nd'" "\<forall>x\<in>set out. msg_backed (nt_sent s) x"
    using propose_backed [OF nd(1) _ nd(3) step] nd(2) net_propose.hyps(1) by auto
  then have "backed_node (nt_sent s) i nd'"
    using propose_wf [OF nd(1) step] propose_id [OF step] nd(2) by (simp add: backed_node_def)
  then show ?case
    by (rule backed_net_update [OF net_propose.prems net_propose.hyps(1) _ bk(2), where es = "[]"]) simp_all
next
  case (net_deliver i m s nd' out)
  then have nd: "wf (nt_nodes s i)" "vt_id vt (nt_nodes s i) = i" "node_backed (nt_sent s) (nt_nodes s i)"
    and sent: "\<forall>x\<in>nt_sent s. msg_backed (nt_sent s) x"
    by (auto simp: backed_net_def backed_node_def)
  note step = net_deliver.hyps(3)
  have bk: "node_backed (nt_sent s) nd'" "\<forall>x\<in>set out. msg_backed (nt_sent s) x"
    "\<forall>e\<in>set (fresh_entries committed (nt_nodes s i) nd'). entry_backed (nt_sent s) i (view (nt_nodes s i)) e"
    using handle_backed [OF nd(1) _ nd(3) net_deliver.hyps(2) sent step] nd(2) net_deliver.hyps(1) by auto
  then have "backed_node (nt_sent s) i nd'"
    using handle_wf [OF nd(1) step] handle_id [OF step] nd(2) by (simp add: backed_node_def)
  then show ?case
    by (rule backed_net_update [OF net_deliver.prems net_deliver.hyps(1) _ bk(2,3)]) simp_all
next
  case (net_tick i s nd' out)
  then have nd: "wf (nt_nodes s i)" "vt_id vt (nt_nodes s i) = i" "node_backed (nt_sent s) (nt_nodes s i)"
    by (auto simp: backed_net_def backed_node_def)
  note step = net_tick.hyps(3)
  have bk: "node_backed (nt_sent s) nd'" "\<forall>x\<in>set out. msg_backed (nt_sent s) x"
    using tick_backed [OF nd(1) _ nd(3) step] nd(2) net_tick.hyps(2) by auto
  then have "backed_node (nt_sent s) i nd'"
    using tick_wf [OF nd(1) step] tick_id [OF step] nd(2) by (simp add: backed_node_def)
  then show ?case
    by (rule backed_net_update [OF net_tick.prems net_tick.hyps(2) _ bk(2), where es = "[]"]) simp_all
next
  case (net_poll i s nd' es)
  then have nd: "wf (nt_nodes s i)" "vt_id vt (nt_nodes s i) = i" "node_backed (nt_sent s) (nt_nodes s i)"
    by (auto simp: backed_net_def backed_node_def)
  have "nd' = fst (vt_poll_committed vt (nt_nodes s i))" using net_poll.hyps(2) by simp
  then have "backed_node (nt_sent s) i nd'"
    using poll_backed [OF nd(3)] poll_wf [OF nd(1)] poll_id nd(2) by (simp add: backed_node_def)
  then show ?case
    by (rule backed_net_update [OF net_poll.prems net_poll.hyps(1), where out = "[]" and es = "[]"]) simp_all
next
  case (net_corrupt m s)
  let ?S = "insert (corrupt_digest m) (nt_sent s)"
  have sub: "nt_sent s \<subseteq> ?S" by auto
  have "backed_node ?S j (nt_nodes s j)" if "j \<in> ids" for j
    using that net_corrupt.prems node_mono [OF _ sub] by (auto simp: backed_net_def backed_node_def)
  moreover have "msg_backed ?S x" if "x \<in> ?S" for x
    using that net_corrupt corrupt_backed msg_mono [OF _ sub] by (auto simp: backed_net_def)
  moreover have "j \<in> ids \<and> entry_backed ?S j w e" if "(w, e) \<in> set (nt_decided s j)" for j w e
    using that net_corrupt.prems entry_mono [OF _ sub] by (fastforce simp: backed_net_def)
  ultimately show ?case by (auto simp: backed_net_def)
qed

lemma reach_backed:
  assumes "\<forall>i\<in>ids. backed_node {} i (nodes i)"
    and "net_reach timers vt ids view committed (net_init nodes) s"
  shows "backed_net s"
proof (rule net_reach_invariant [OF assms(2)])
  show "backed_net (net_init nodes)" using assms(1) by (auto simp: backed_net_def net_init_def)
qed (rule backed_net_step)

lemma decided_backed:
  assumes "\<forall>i\<in>ids. backed_node {} i (nodes i)"
    and "net_reach timers vt ids view committed (net_init nodes) s" and "(v, e) \<in> set (nt_decided s i)"
  shows "i \<in> ids \<and> entry_backed (nt_sent s) i v e"
  using reach_backed [OF assms(1,2)] assms(3) by (auto simp: backed_net_def)

end

end
