(* ===== verification/PbftQuorum.thy ===== *)
theory PbftQuorum
  imports PbftSafety Evidence
begin

text \<open>
  Quorum evidence in PBFT: a vote that a replica counts was sent by the replica it names, a
  replica sends a commit vote only after \<open>2f\<close> distinct prepare votes, and commits only after
  \<open>2f + 1\<close> distinct commit votes, its own included.
\<close>

definition prepared_by :: "network_message set \<Rightarrow> ViewNumber \<Rightarrow> SequenceNumber \<Rightarrow> node_id set" where
  "prepared_by S v sq = {r. \<exists>m\<in>S. msg_from m = r \<and> (\<exists>d. msg_payload m = Pbft (Prepare v sq d r))}"

definition committed_by :: "network_message set \<Rightarrow> ViewNumber \<Rightarrow> SequenceNumber \<Rightarrow> node_id set" where
  "committed_by S v sq = {r. \<exists>m\<in>S. msg_from m = r \<and> (\<exists>d. msg_payload m = Pbft (Commit v sq d r))}"

lemma voted_by_mono:
  "S \<subseteq> S' \<Longrightarrow> prepared_by S v sq \<subseteq> prepared_by S' v sq"
  "S \<subseteq> S' \<Longrightarrow> committed_by S v sq \<subseteq> committed_by S' v sq"
  by (auto simp: prepared_by_def committed_by_def)

definition pbft_msg_backed :: "usize \<Rightarrow> node_id set \<Rightarrow> network_message set \<Rightarrow> network_message \<Rightarrow> bool" where
  "pbft_msg_backed n ids S m \<longleftrightarrow>
     (\<forall>v sq d r. msg_payload m = Pbft (Prepare v sq d r) \<longrightarrow> r \<in> ids \<and> msg_from m = r) \<and>
     (\<forall>v sq d r. msg_payload m = Pbft (Commit v sq d r) \<longrightarrow>
        r \<in> ids \<and> msg_from m = r \<and> quorum_in (2 * pbft_f n) (prepared_by S v sq))"

definition pbft_slot_backed :: "network_message set \<Rightarrow> node_id \<Rightarrow> SequenceNumber \<Rightarrow> pbft_slot \<Rightarrow> bool" where
  "pbft_slot_backed S i sq slot \<longleftrightarrow>
     ps_prepare_voters slot \<subseteq> prepared_by S (ps_view slot) sq \<and>
     ps_commit_voters slot \<subseteq> insert i (committed_by S (ps_view slot) sq)"

definition pbft_node_backed :: "network_message set \<Rightarrow> pbft_node \<Rightarrow> bool" where
  "pbft_node_backed S nd \<longleftrightarrow>
     (\<forall>sq slot. pb_slots (pn_state nd) sq = Some slot \<longrightarrow> pbft_slot_backed S (pn_id nd) sq slot)"

definition pbft_entry_backed :: "usize \<Rightarrow> network_message set \<Rightarrow> node_id \<Rightarrow> ViewNumber \<Rightarrow> committed_entry \<Rightarrow> bool" where
  "pbft_entry_backed n S i v e \<longleftrightarrow>
     quorum_in (2 * pbft_f n + 1) (insert i (committed_by S v (ce_sequence e)))"

text \<open>The effect of one call on the evidence.\<close>

definition pbft_keeps_evidence ::
  "usize \<Rightarrow> node_id set \<Rightarrow> network_message set \<Rightarrow> pbft_node \<Rightarrow> pbft_node \<Rightarrow> network_message list \<Rightarrow> bool" where
  "pbft_keeps_evidence n ids S nd nd' out \<longleftrightarrow>
     pbft_node_backed S nd' \<and> (\<forall>x\<in>set out. pbft_msg_backed n ids S x) \<and>
     (\<forall>e\<in>set (drop (length (pb_committed (pn_state nd))) (pb_committed (pn_state nd'))).
        pbft_entry_backed n S (pn_id nd) (pb_view (pn_state nd)) e)"

lemma pbft_member_slot:
  assumes "pbft_member n nd" and "pb_slots (pn_state nd) sq = Some slot"
  shows "pbft_slot_ok (pn_id nd) n (pb_view (pn_state nd)) sq slot"
  using assms by (auto simp: pbft_member_def pbft_wf_def pbft_state_ok_def)

lemma pbft_commit_slot_slots:
  "pb_slots (pbft_commit_slot st sq slot) = (pb_slots st)(sq \<mapsto> slot\<lparr>ps_phase := Committed\<rparr>)"
  "\<forall>e\<in>set (drop (length (pb_committed st)) (pb_committed (pbft_commit_slot st sq slot))). ce_sequence e = sq"
  by (auto simp: pbft_commit_slot_def Let_def split: option.splits)

lemma pbft_fresh_slot_backed [simp]: "pbft_slot_backed S i sq ((pbft_slot_new v sq)\<lparr>ps_phase := ph\<rparr>)"
  by (simp add: pbft_slot_backed_def pbft_slot_new_def)

lemma pre_prepare_evidence:
  assumes "pn_id nd \<in> ids" and "pbft_node_backed S nd" and "pbft_on_pre_prepare nd v sq d p = Inr (nd', out)"
  shows "pbft_keeps_evidence n ids S nd nd' out"
  using assms
  by (auto simp: pbft_on_pre_prepare_def pbft_keeps_evidence_def pbft_node_backed_def pbft_msg_backed_def
      broadcast_pbft_def broadcast_def Let_def split: if_splits)

lemma prepare_evidence:
  assumes "pbft_member n nd" and "pn_id nd \<in> ids" and "pbft_node_backed S nd" and "j \<in> prepared_by S v sq"
    and "pbft_on_prepare nd v sq d j = Inr (nd', out)"
  shows "pbft_keeps_evidence n ids S nd nd' out"
proof (cases "pb_slots (pn_state nd) sq")
  case (Some slot)
  let ?voters = "insert j (ps_prepare_voters slot)"
  have ok: "pbft_slot_ok (pn_id nd) n (pb_view (pn_state nd)) sq slot" "pbft_slot_backed S (pn_id nd) sq slot"
    using assms Some pbft_member_slot by (auto simp: pbft_node_backed_def)
  show ?thesis
  proof (cases "v = pb_view (pn_state nd) \<and> ps_phase slot = PrePrepared")
    case True
    then have sv: "ps_view slot = v" and "?voters \<subseteq> prepared_by S v sq" "finite ?voters"
      using ok assms(4) by (auto simp: pbft_slot_ok_def pbft_slot_backed_def)
    then have Q: "2 * pbft_f n \<le> card ?voters \<Longrightarrow> quorum_in (2 * pbft_f n) (prepared_by S v sq)"
      and bk: "pbft_slot_backed S (pn_id nd) sq (slot\<lparr>ps_prepare_voters := ?voters\<rparr>)"
        "pbft_slot_backed S (pn_id nd) sq (slot\<lparr>ps_prepare_voters := ?voters, ps_phase := Prepared,
           ps_commit_voters := insert (pn_id nd) (ps_commit_voters slot)\<rparr>)"
      using ok by (auto simp: pbft_slot_backed_def intro: quorum_inI)
    show ?thesis
      using True Some assms(1,2,3,5) bk Q
      by (auto simp: pbft_on_prepare_def pbft_keeps_evidence_def pbft_node_backed_def pbft_msg_backed_def
          pbft_member_def broadcast_pbft_def broadcast_def Let_def res_simps split: if_splits)
  next
    case False
    then show ?thesis
      using Some assms(3,5)
      by (auto simp: pbft_on_prepare_def pbft_keeps_evidence_def Let_def split: if_splits)
  qed
qed (use assms in \<open>auto simp: pbft_on_prepare_def pbft_keeps_evidence_def Let_def split: if_splits\<close>)

lemma commit_evidence:
  assumes "pbft_member n nd" and "pbft_node_backed S nd" and "j \<in> committed_by S v sq"
    and "pbft_on_commit nd v sq d j = Inr (nd', out)"
  shows "pbft_keeps_evidence n ids S nd nd' out"
proof (cases "pb_slots (pn_state nd) sq")
  case (Some slot)
  let ?voters = "insert j (ps_commit_voters slot)"
  have ok: "pbft_slot_ok (pn_id nd) n (pb_view (pn_state nd)) sq slot" "pbft_slot_backed S (pn_id nd) sq slot"
    using assms Some pbft_member_slot by (auto simp: pbft_node_backed_def)
  show ?thesis
  proof (cases "v = pb_view (pn_state nd) \<and> (ps_phase slot = Prepared \<or> ps_phase slot = PrePrepared)")
    case True
    then have sv: "ps_view slot = v" and "?voters \<subseteq> insert (pn_id nd) (committed_by S v sq)" "finite ?voters"
      using ok assms(3) by (auto simp: pbft_slot_ok_def pbft_slot_backed_def)
    then have Q: "Suc (2 * pbft_f n) \<le> card ?voters \<Longrightarrow> ce_sequence e = sq \<Longrightarrow> pbft_entry_backed n S (pn_id nd) v e"
      and bk: "pbft_slot_backed S (pn_id nd) sq (slot\<lparr>ps_commit_voters := ?voters, ps_phase := ph\<rparr>)"
        "pbft_slot_backed S (pn_id nd) sq (slot\<lparr>ps_commit_voters := ?voters\<rparr>)" for e ph
      using ok by (auto simp: pbft_slot_backed_def pbft_entry_backed_def intro: quorum_inI)
    show ?thesis
      using True Some assms(1,2,4) bk Q pbft_commit_slot_slots
      by (auto simp: pbft_on_commit_def pbft_keeps_evidence_def pbft_node_backed_def
          pbft_member_def Let_def res_simps split: if_splits)
  next
    case False
    then show ?thesis
      using Some assms(2,4)
      by (auto simp: pbft_on_commit_def pbft_keeps_evidence_def Let_def split: if_splits)
  qed
qed (use assms in \<open>auto simp: pbft_on_commit_def pbft_keeps_evidence_def Let_def split: if_splits\<close>)

lemma lead_evidence:
  assumes "\<And>sq slot. pb_slots st sq = Some slot \<Longrightarrow> pbft_slot_backed S (pn_id nd) sq slot"
    and "pb_committed st = pb_committed (pn_state nd)" and "pbft_lead_new_view nd st v = Inr (nd', out)"
  shows "pbft_keeps_evidence n ids S nd nd' out"
  using assms
  by (auto simp: pbft_lead_new_view_def pbft_enter_new_view_def pbft_keeps_evidence_def pbft_node_backed_def
      pbft_msg_backed_def broadcast_pbft_def broadcast_def Let_def res_simps)

lemma keeps_evidence_append:
  "pbft_keeps_evidence n ids S nd nd' out \<Longrightarrow> \<forall>x\<in>set out'. pbft_msg_backed n ids S x \<Longrightarrow>
     pbft_keeps_evidence n ids S nd nd' (out' @ out)"
  by (auto simp: pbft_keeps_evidence_def)

lemma view_change_evidence:
  assumes "pbft_node_backed S nd" and "pbft_on_view_change nd v j l = Inr (nd', out)"
  shows "pbft_keeps_evidence n ids S nd nd' out"
proof -
  have out: "\<forall>x\<in>set (broadcast_pbft nd (ViewChange v i k)). pbft_msg_backed n ids S x" for v i k
    by (auto simp: pbft_msg_backed_def broadcast_pbft_def broadcast_def)
  show ?thesis
    using assms out
    by (auto simp: pbft_on_view_change_def pbft_node_backed_def Let_def res_simps split: if_splits
        intro!: keeps_evidence_append elim!: lead_evidence [rotated 2])
      (auto simp: pbft_keeps_evidence_def pbft_node_backed_def)
qed

lemma new_view_evidence:
  "pbft_node_backed S nd \<Longrightarrow> pbft_on_new_view nd v k = Inr (nd', out) \<Longrightarrow> pbft_keeps_evidence n ids S nd nd' out"
  by (auto simp: pbft_on_new_view_def pbft_enter_new_view_def pbft_keeps_evidence_def pbft_node_backed_def
      Let_def split: if_splits)

lemma pbft_handle_evidence:
  assumes "pbft_member n nd" and "pn_id nd \<in> ids" and "pbft_node_backed S nd" and "m \<in> S"
    and "pbft_msg_backed n ids S m" and "pbft_handle_message nd m = Inr (nd', out)"
  shows "pbft_keeps_evidence n ids S nd nd' out"
proof (cases "msg_payload m")
  case (Pbft pm)
  have "msg_payload m = Pbft (Prepare v sq d r) \<Longrightarrow> r \<in> prepared_by S v sq" for v sq d r
    using assms(4,5) by (auto simp: pbft_msg_backed_def prepared_by_def)
  moreover have "msg_payload m = Pbft (Commit v sq d r) \<Longrightarrow> r \<in> committed_by S v sq" for v sq d r
    using assms(4,5) by (auto simp: pbft_msg_backed_def committed_by_def)
  ultimately show ?thesis
    using Pbft assms(6) pre_prepare_evidence [OF assms(2,3)] prepare_evidence [OF assms(1-3)]
      commit_evidence [OF assms(1,3)] view_change_evidence [OF assms(3)] new_view_evidence [OF assms(3)]
    by (cases pm) (auto simp: pbft_handle_message_def)
qed (use assms in \<open>simp_all add: pbft_handle_message_def pbft_keeps_evidence_def\<close>)

lemma pbft_propose_evidence:
  assumes "pn_id nd \<in> ids" and "pbft_node_backed S nd" and "pbft_propose sha nd p = Inr (nd', r, out)"
  shows "pbft_node_backed S nd' \<and> (\<forall>x\<in>set out. pbft_msg_backed n ids S x)"
  using assms
  by (auto simp: pbft_propose_def pbft_node_backed_def pbft_msg_backed_def broadcast_pbft_def broadcast_def
      Let_def res_simps split: if_splits)

lemma pbft_tick_evidence:
  assumes "pbft_node_backed S nd" and "pbft_tick nd = Inr (nd', out)"
  shows "pbft_node_backed S nd' \<and> (\<forall>x\<in>set out. pbft_msg_backed n ids S x)"
  using assms
  by (auto simp: pbft_tick_def pbft_node_backed_def pbft_msg_backed_def broadcast_pbft_def broadcast_def
      Let_def res_simps split: if_splits)

lemma pbft_msg_backed_corrupt: "pbft_msg_backed n ids S m \<Longrightarrow> pbft_msg_backed n ids S (corrupt_digest m)"
  by (cases "msg_payload m" rule: corrupt_payload_digest.cases) (simp_all add: corrupt_digest_def pbft_msg_backed_def)

lemma pbft_backed_mono:
  "pbft_node_backed S nd \<Longrightarrow> S \<subseteq> S' \<Longrightarrow> pbft_node_backed S' nd"
  "pbft_msg_backed n ids S m \<Longrightarrow> S \<subseteq> S' \<Longrightarrow> pbft_msg_backed n ids S' m"
  "pbft_entry_backed n S i v e \<Longrightarrow> S \<subseteq> S' \<Longrightarrow> pbft_entry_backed n S' i v e"
  using voted_by_mono [of S S']
  by (auto simp: pbft_node_backed_def pbft_slot_backed_def pbft_msg_backed_def pbft_entry_backed_def
      intro: quorum_in_mono) (fast | (erule quorum_in_mono, fast))+

interpretation pbe: evidence_protocol "pbft_vtable sha" "pbft_member n" "\<lambda>nd. pb_committed (pn_state nd)" ids
  "\<lambda>nd. pb_view (pn_state nd)" pbft_node_backed "pbft_msg_backed n ids" "pbft_entry_backed n"
  for sha n ids
proof
  fix S :: "network_message set" and nd nd' :: pbft_node and m p r out
  show "pbft_node_backed S nd' \<and> (\<forall>x\<in>set out. pbft_msg_backed n ids S x)"
    if "vt_id (pbft_vtable sha) nd \<in> ids" "pbft_node_backed S nd" "vt_propose (pbft_vtable sha) nd p = Inr (nd', r, out)"
    using that pbft_propose_evidence by simp
  show "pbft_node_backed S nd' \<and> (\<forall>x\<in>set out. pbft_msg_backed n ids S x)"
    if "pbft_node_backed S nd" "vt_tick (pbft_vtable sha) nd = Inr (nd', out)"
    using that pbft_tick_evidence by simp
  show "pbft_node_backed S (fst (vt_poll_committed (pbft_vtable sha) nd))" if "pbft_node_backed S nd"
    using that by (simp add: pbft_poll_committed_def pbft_node_backed_def)
  show "pbft_node_backed S nd' \<and> (\<forall>x\<in>set out. pbft_msg_backed n ids S x) \<and>
      (\<forall>e\<in>set (fresh_entries (\<lambda>nd. pb_committed (pn_state nd)) nd nd').
         pbft_entry_backed n S (vt_id (pbft_vtable sha) nd) (pb_view (pn_state nd)) e)"
    if "pbft_member n nd" "vt_id (pbft_vtable sha) nd \<in> ids" "pbft_node_backed S nd" "m \<in> S"
      "\<forall>x\<in>S. pbft_msg_backed n ids S x" "vt_handle_message (pbft_vtable sha) nd m = Inr (nd', out)"
    using that pbft_handle_evidence [of n nd ids S m nd' out] by (simp add: pbft_keeps_evidence_def fresh_entries_def)
qed (rule pbft_backed_mono pbft_msg_backed_corrupt; assumption)+

end
