(* ===== verification/PbftLive.thy ===== *)
theory PbftLive
  imports PbftSafety
begin

text \<open>
  One PBFT replica over whole exchanges: what it does when the votes of a slot arrive, when its
  timer runs out and when a view change reaches its quorum; and the only calls that can panic.
\<close>

section \<open>The votes of a slot\<close>

definition pbft_msgs :: "node_id list \<Rightarrow> node_id \<Rightarrow> (node_id \<Rightarrow> pbft_message) \<Rightarrow> network_message list" where
  "pbft_msgs froms dest m = map (\<lambda>r. mk_msg r dest (Pbft (m r))) froms"

lemma prepare_votes:
  assumes "pb_slots (pn_state nd) sq = Some slot" and "ps_phase slot = PrePrepared"
    and "finite (ps_prepare_voters slot)" and "0 < pn_cluster_size nd"
    and "rs \<noteq> []" and "distinct rs" and "set rs \<inter> ps_prepare_voters slot = {}"
    and "card (ps_prepare_voters slot) + length rs = 2 * pbft_f (pn_cluster_size nd)"
  shows "node_run (pbft_vtable sha) nd (handle_all (pbft_msgs rs dest (Prepare (pb_view (pn_state nd)) sq d))) =
    Inr (nd\<lparr>pn_state := (pn_state nd)\<lparr>pb_slots := (pb_slots (pn_state nd))(sq \<mapsto>
           slot\<lparr>ps_prepare_voters := ps_prepare_voters slot \<union> set rs, ps_phase := Prepared,
                ps_commit_voters := insert (pn_id nd) (ps_commit_voters slot)\<rparr>)\<rparr>\<rparr>,
         broadcast_pbft nd (Commit (pb_view (pn_state nd)) sq d (pn_id nd)), [])"
  using assms
proof (induction rs arbitrary: nd slot)
  case (Cons r rs)
  let ?A = "insert r (ps_prepare_voters slot)"
  have card: "card ?A = Suc (card (ps_prepare_voters slot))" using Cons.prems by simp
  have t: "pbft_prepare_threshold nd = Inr (2 * pbft_f (pn_cluster_size nd))"
    using Cons.prems(4) by (simp add: pbft_prepare_threshold_Inr)
  show ?case
  proof (cases "rs = []")
    case True
    then show ?thesis
      using Cons.prems card t
      by (simp add: handle_all_def pbft_msgs_def pbft_handle_message_def pbft_on_prepare_def Let_def
          broadcast_pbft_def fun_upd_def)
  next
    case False
    let ?nd = "nd\<lparr>pn_state := (pn_state nd)\<lparr>pb_slots := (pb_slots (pn_state nd))(sq \<mapsto> slot\<lparr>ps_prepare_voters := ?A\<rparr>)\<rparr>\<rparr>"
    have few: "card ?A < 2 * pbft_f (pn_cluster_size nd)"
      using Cons.prems(8) card False by (cases rs) auto
    have "node_run (pbft_vtable sha) ?nd (handle_all (pbft_msgs rs dest (Prepare (pb_view (pn_state ?nd)) sq d))) =
      Inr (?nd\<lparr>pn_state := (pn_state ?nd)\<lparr>pb_slots := (pb_slots (pn_state ?nd))(sq \<mapsto>
           (slot\<lparr>ps_prepare_voters := ?A\<rparr>)\<lparr>ps_prepare_voters := ps_prepare_voters (slot\<lparr>ps_prepare_voters := ?A\<rparr>) \<union> set rs,
              ps_phase := Prepared,
              ps_commit_voters := insert (pn_id ?nd) (ps_commit_voters (slot\<lparr>ps_prepare_voters := ?A\<rparr>))\<rparr>)\<rparr>\<rparr>,
         broadcast_pbft ?nd (Commit (pb_view (pn_state ?nd)) sq d (pn_id ?nd)), [])"
      using Cons.prems False card by (intro Cons.IH) auto
    then show ?thesis
      using Cons.prems few t
      by (simp add: handle_all_def pbft_msgs_def pbft_handle_message_def pbft_on_prepare_def Let_def
          broadcast_pbft_def fun_upd_def cong: if_cong)
  qed
qed simp

lemma pbft_commit_slot_overwrites:
  "pbft_commit_slot (st\<lparr>pb_slots := (pb_slots st)(sq \<mapsto> s0)\<rparr>) sq slot = pbft_commit_slot st sq slot"
  by (cases "pb_pending_payloads st sq") (simp_all add: pbft_commit_slot_def Let_def cong: if_cong)

lemma commit_votes:
  assumes "pb_slots (pn_state nd) sq = Some slot" and "ps_phase slot = Prepared"
    and "finite (ps_commit_voters slot)" and "0 < pn_cluster_size nd"
    and "cs \<noteq> []" and "distinct cs" and "set cs \<inter> ps_commit_voters slot = {}"
    and "card (ps_commit_voters slot) + length cs = 2 * pbft_f (pn_cluster_size nd) + 1"
  shows "node_run (pbft_vtable sha) nd (handle_all (pbft_msgs cs dest (Commit (pb_view (pn_state nd)) sq d))) =
    Inr (nd\<lparr>pn_state := pbft_commit_slot (pn_state nd) sq
           (slot\<lparr>ps_commit_voters := ps_commit_voters slot \<union> set cs\<rparr>)\<rparr>, [], [])"
  using assms
proof (induction cs arbitrary: nd slot)
  case (Cons r cs)
  let ?A = "insert r (ps_commit_voters slot)"
  have card: "card ?A = Suc (card (ps_commit_voters slot))" using Cons.prems by simp
  have q: "pbft_quorum nd = Inr (2 * pbft_f (pn_cluster_size nd) + 1)"
    using Cons.prems(4) by (simp add: pbft_quorum_Inr)
  show ?case
  proof (cases "cs = []")
    case True
    then show ?thesis
      using Cons.prems card q
      by (simp add: handle_all_def pbft_msgs_def pbft_handle_message_def pbft_on_commit_def Let_def)
  next
    case False
    let ?nd = "nd\<lparr>pn_state := (pn_state nd)\<lparr>pb_slots := (pb_slots (pn_state nd))(sq \<mapsto> slot\<lparr>ps_commit_voters := ?A\<rparr>)\<rparr>\<rparr>"
    have few: "card ?A < 2 * pbft_f (pn_cluster_size nd) + 1"
      using Cons.prems(8) card False by (cases cs) auto
    have "node_run (pbft_vtable sha) ?nd (handle_all (pbft_msgs cs dest (Commit (pb_view (pn_state ?nd)) sq d))) =
      Inr (?nd\<lparr>pn_state := pbft_commit_slot (pn_state ?nd) sq ((slot\<lparr>ps_commit_voters := ?A\<rparr>)\<lparr>ps_commit_voters :=
          ps_commit_voters (slot\<lparr>ps_commit_voters := ?A\<rparr>) \<union> set cs\<rparr>)\<rparr>, [], [])"
      using Cons.prems False card by (intro Cons.IH) auto
    then show ?thesis
      using Cons.prems few q
      by (simp add: handle_all_def pbft_msgs_def pbft_handle_message_def pbft_on_commit_def Let_def
          pbft_commit_slot_overwrites)
  qed
qed simp

section \<open>The timer\<close>

lemma pbft_ticks_down:
  assumes "leader_of (pn_cluster_size nd) (pb_view (pn_state nd)) \<noteq> pn_id nd"
    and "word_of_nat (pn_cluster_size nd) \<noteq> (0 :: u64)"
    and "\<not> pb_view_change_in_progress (pn_state nd)"
    and "unat (pb_view_change_timeout (pn_state nd)) = k"
  shows "node_run (pbft_vtable sha) nd (replicate k OpTick) =
    Inr (nd\<lparr>pn_state := (pn_state nd)\<lparr>pb_view_change_timeout := 0\<rparr>\<rparr>, [], [])"
  using assms
proof (induction k arbitrary: nd)
  case 0
  then have "pb_view_change_timeout (pn_state nd) = 0" by (simp add: unat_eq_zero)
  then show ?case by simp
next
  case (Suc k)
  let ?t = "pb_view_change_timeout (pn_state nd)"
  let ?nd = "nd\<lparr>pn_state := (pn_state nd)\<lparr>pb_view_change_timeout := ?t - 1\<rparr>\<rparr>"
  have t: "?t \<noteq> 0" using Suc.prems(4) by auto
  then have s: "sub_u64 ?t 1 = Inr (?t - 1)" by (simp add: sub_u64_def)
  then have k: "unat (?t - 1) = k" using Suc.prems(4) sub_u64_unat [OF s] by simp
  have "node_run (pbft_vtable sha) ?nd (replicate k OpTick) =
    Inr (?nd\<lparr>pn_state := (pn_state ?nd)\<lparr>pb_view_change_timeout := 0\<rparr>\<rparr>, [], [])"
    using Suc.prems k by (intro Suc.IH) auto
  then show ?case
    using Suc.prems(1-3) s t by (simp add: pbft_tick_def pbft_primary_for_view_def rem_u64_def leader_of_def Let_def)
qed

section \<open>Panics\<close>

text \<open>What may panic in a cluster of at least one node: running out of views or sequence numbers.\<close>

lemma pbft_helpers_total:
  assumes "0 < pn_cluster_size nd" and "pn_cluster_size nd < 2 ^ 64"
  shows "pbft_quorum nd = Inr (2 * pbft_f (pn_cluster_size nd) + 1)"
    and "pbft_prepare_threshold nd = Inr (2 * pbft_f (pn_cluster_size nd))"
    and "pbft_primary_for_view nd v = Inr (leader_of (pn_cluster_size nd) v)"
proof -
  have "word_of_nat (pn_cluster_size nd) \<noteq> (0 :: u64)"
    using assms word_of_nat_inj_small [of "pn_cluster_size nd" 0] by auto
  then show "pbft_primary_for_view nd v = Inr (leader_of (pn_cluster_size nd) v)"
    by (simp add: pbft_primary_Inr leader_of_def)
qed (use assms in \<open>simp_all add: pbft_quorum_Inr pbft_prepare_threshold_Inr\<close>)

lemma pbft_propose_panics:
  assumes "0 < pn_cluster_size nd" and "pn_cluster_size nd < 2 ^ 64" and "pbft_propose sha nd p = Inl e"
  shows "pb_next_sequence (pn_state nd) = - 1"
  using assms pbft_helpers_total [OF assms(1,2)]
  by (auto simp: pbft_propose_def Let_def rbind_eq_Inl add_u64_Inl split: if_splits)

lemma pbft_tick_panics:
  assumes "0 < pn_cluster_size nd" and "pn_cluster_size nd < 2 ^ 64" and "pbft_tick nd = Inl e"
  shows "pb_view (pn_state nd) = - 1"
  using assms pbft_helpers_total [OF assms(1,2)]
  by (auto simp: pbft_tick_def Let_def rbind_eq_Inl add_u64_Inl sub_u64_Inl split: if_splits)

lemma pbft_lead_new_view_panics: "pbft_lead_new_view nd st v = Inl e \<Longrightarrow> pb_highest_committed_seq st = - 1"
  by (auto simp: pbft_lead_new_view_def pbft_enter_new_view_def Let_def rbind_eq_Inl add_u64_Inl)

lemma pbft_handle_panics:
  assumes "0 < pn_cluster_size nd" and "pn_cluster_size nd < 2 ^ 64" and "pbft_handle_message nd m = Inl e"
  shows "pb_highest_committed_seq (pn_state nd) = - 1 \<and> (\<exists>v r l. msg_payload m = Pbft (ViewChange v r l))"
  using assms pbft_helpers_total [OF assms(1,2)]
  by (auto simp: pbft_handle_message_def pbft_on_pre_prepare_def pbft_on_prepare_def pbft_on_commit_def
      pbft_on_view_change_def pbft_on_new_view_def Let_def rbind_eq_Inl dest!: pbft_lead_new_view_panics
      split: protocol_message.splits pbft_message.splits if_splits option.splits prod.splits)

section \<open>A whole exchange\<close>

lemma pbft_replica_run:
  assumes size: "4 \<le> pn_cluster_size nd" and start: "\<not> pb_view_change_in_progress (pn_state nd)"
    and rs: "distinct rs" "length rs = 2 * pbft_f (pn_cluster_size nd)"
    and cs: "distinct cs" "length cs = 2 * pbft_f (pn_cluster_size nd)" "pn_id nd \<notin> set cs"
  defines "v \<equiv> pb_view (pn_state nd)"
  shows "\<exists>nd'. node_run (pbft_vtable sha) nd
      (handle_all (mk_msg l (pn_id nd) (Pbft (PrePrepare v sq d p)) #
         pbft_msgs rs (pn_id nd) (Prepare v sq d) @ pbft_msgs cs (pn_id nd) (Commit v sq d))) =
      Inr (nd', broadcast_pbft nd (Prepare v sq d (pn_id nd)) @ broadcast_pbft nd (Commit v sq d (pn_id nd)), []) \<and>
    pb_committed (pn_state nd') = pb_committed (pn_state nd) @ [\<lparr>ce_sequence = sq, ce_payload = p\<rparr>] \<and>
    pb_pending_payloads (pn_state nd') = (pb_pending_payloads (pn_state nd))(sq := None) \<and>
    pb_view (pn_state nd') = v \<and> sq \<le> pb_highest_committed_seq (pn_state nd')"
proof -
  let ?f = "pbft_f (pn_cluster_size nd)"
  have f: "1 \<le> ?f" and n: "0 < pn_cluster_size nd" using size by (auto simp: pbft_f_def)
  define slot where "slot = (pbft_slot_new v sq)\<lparr>ps_phase := PrePrepared\<rparr>"
  define st1 where "st1 = (pn_state nd)\<lparr>pb_primary_active := True, pb_view_change_timeout := PBFT_VIEW_CHANGE_TIMEOUT,
    pb_slots := (pb_slots (pn_state nd))(sq \<mapsto> slot), pb_pending_payloads := (pb_pending_payloads (pn_state nd))(sq \<mapsto> p)\<rparr>"
  define nd1 where "nd1 = nd\<lparr>pn_state := st1\<rparr>"
  define slot2 where "slot2 = slot\<lparr>ps_prepare_voters := set rs, ps_phase := Prepared, ps_commit_voters := {pn_id nd}\<rparr>"
  define nd2 where "nd2 = nd1\<lparr>pn_state := st1\<lparr>pb_slots := (pb_slots st1)(sq \<mapsto> slot2)\<rparr>\<rparr>"
  define nd3 where "nd3 = nd2\<lparr>pn_state := pbft_commit_slot (pn_state nd2) sq (slot2\<lparr>ps_commit_voters := insert (pn_id nd) (set cs)\<rparr>)\<rparr>"
  have s1: "pbft_handle_message nd (mk_msg l (pn_id nd) (Pbft (PrePrepare v sq d p))) =
      Inr (nd1, broadcast_pbft nd (Prepare v sq d (pn_id nd)))"
    using start by (simp add: pbft_handle_message_def pbft_on_pre_prepare_def v_def nd1_def st1_def slot_def Let_def)
  have view: "pb_view (pn_state nd1) = v" "pb_view (pn_state nd2) = v"
    by (simp_all add: nd1_def nd2_def st1_def v_def)
  have slot0: "ps_phase slot = PrePrepared" "ps_prepare_voters slot = {}" "ps_commit_voters slot = {}"
    by (simp_all add: slot_def pbft_slot_new_def)
  have s2: "node_run (pbft_vtable sha) nd1 (handle_all (pbft_msgs rs (pn_id nd) (Prepare v sq d))) =
      Inr (nd2, broadcast_pbft nd (Commit v sq d (pn_id nd)), [])"
    using prepare_votes [of nd1 sq slot rs sha "pn_id nd" d] rs f n slot0 view
    by (simp add: nd1_def st1_def nd2_def slot2_def broadcast_pbft_def fun_upd_def cong: if_cong) fastforce
  have s3: "node_run (pbft_vtable sha) nd2 (handle_all (pbft_msgs cs (pn_id nd) (Commit v sq d))) = Inr (nd3, [], [])"
    using commit_votes [of nd2 sq slot2 cs sha "pn_id nd" d] cs f n view
    by (simp add: nd2_def slot2_def nd1_def nd3_def) fastforce
  have "handle_all (mk_msg l (pn_id nd) (Pbft (PrePrepare v sq d p)) # pbft_msgs rs (pn_id nd) (Prepare v sq d) @
      pbft_msgs cs (pn_id nd) (Commit v sq d)) =
    OpHandle (mk_msg l (pn_id nd) (Pbft (PrePrepare v sq d p))) #
      handle_all (pbft_msgs rs (pn_id nd) (Prepare v sq d)) @ handle_all (pbft_msgs cs (pn_id nd) (Commit v sq d))"
    by (simp add: handle_all_def)
  then have "node_run (pbft_vtable sha) nd (handle_all (mk_msg l (pn_id nd) (Pbft (PrePrepare v sq d p)) #
      pbft_msgs rs (pn_id nd) (Prepare v sq d) @ pbft_msgs cs (pn_id nd) (Commit v sq d))) =
    Inr (nd3, broadcast_pbft nd (Prepare v sq d (pn_id nd)) @ broadcast_pbft nd (Commit v sq d (pn_id nd)), [])"
    using s1 s2 s3 by (simp add: node_run_append)
  moreover have "pb_committed (pn_state nd3) = pb_committed (pn_state nd) @ [\<lparr>ce_sequence = sq, ce_payload = p\<rparr>] \<and>
    pb_pending_payloads (pn_state nd3) = (pb_pending_payloads (pn_state nd))(sq := None) \<and>
    pb_view (pn_state nd3) = v \<and> sq \<le> pb_highest_committed_seq (pn_state nd3)"
    by (simp add: nd3_def nd2_def nd1_def st1_def v_def pbft_commit_slot_def Let_def not_less)
  ultimately show ?thesis by blast
qed

lemma pbft_timeout_run:
  assumes "leader_of (pn_cluster_size nd) (pb_view (pn_state nd)) \<noteq> pn_id nd"
    and "0 < pn_cluster_size nd" and "pn_cluster_size nd < 2 ^ 64"
    and "\<not> pb_view_change_in_progress (pn_state nd)" and "pb_view (pn_state nd) \<noteq> - 1"
  shows "\<exists>nd'. node_run (pbft_vtable sha) nd (replicate (Suc (unat (pb_view_change_timeout (pn_state nd)))) OpTick) =
      Inr (nd', broadcast_pbft nd (ViewChange (pb_view (pn_state nd) + 1) (pn_id nd)
        (pb_highest_committed_seq (pn_state nd))), []) \<and>
    pb_view_change_in_progress (pn_state nd') \<and> pb_view (pn_state nd') = pb_view (pn_state nd) \<and>
    pn_id nd \<in> set_at (pb_view_change_votes (pn_state nd')) (pb_view (pn_state nd) + 1)"
proof -
  let ?st = "pn_state nd" and ?k = "unat (pb_view_change_timeout (pn_state nd))"
  have size: "word_of_nat (pn_cluster_size nd) \<noteq> (0 :: u64)"
    using assms(2,3) word_of_nat_inj_small [of "pn_cluster_size nd" 0] by auto
  have down: "node_run (pbft_vtable sha) nd (replicate ?k OpTick) =
      Inr (nd\<lparr>pn_state := ?st\<lparr>pb_view_change_timeout := 0\<rparr>\<rparr>, [], [])"
    by (rule pbft_ticks_down [OF assms(1) size assms(4) refl])
  obtain w where w: "add_u64 (pb_view ?st) 1 = Inr w"
    using assms(5) add_u64_Inl [of "pb_view ?st"] by (cases "add_u64 (pb_view ?st) 1") auto
  then have w': "w = pb_view ?st + 1" by (simp add: add_u64_Inr_iff)
  have "replicate (Suc ?k) OpTick = replicate ?k OpTick @ [OpTick]" by (simp add: replicate_append_same)
  then show ?thesis
    using down w w' assms(1,4) size
    by (simp add: node_run_append pbft_tick_def pbft_primary_for_view_def rem_u64_def leader_of_def Let_def
        broadcast_pbft_def)
qed

section \<open>Digests\<close>

text \<open>No handler compares a digest: a message with a corrupted digest has the effect of the original.\<close>

lemma pbft_digest_state:
  "map_sum id fst (pbft_handle_message nd (corrupt_digest m)) = map_sum id fst (pbft_handle_message nd m)"
proof (cases "msg_payload m" rule: corrupt_payload_digest.cases)
  case (2 v sq d i)
  then show ?thesis
    by (cases "pbft_prepare_threshold nd")
      (simp_all add: corrupt_digest_def pbft_handle_message_def pbft_on_prepare_def Let_def split: option.splits)
next
  case (3 v sq d i)
  then show ?thesis
    by (simp add: corrupt_digest_def pbft_handle_message_def pbft_on_commit_def Let_def split: option.splits)
qed (simp_all add: corrupt_digest_def pbft_handle_message_def pbft_on_pre_prepare_def Let_def)

end
