(* ===== verification/HotStuffNode.thy ===== *)
theory HotStuffNode
  imports Consensus
begin

text \<open>
  HotStuff: \<open>src/src/consensus/hotstuff/mod.rs\<close> (phases and slots) and \<open>state.rs\<close>
  (the node).  Replicas talk to the leader of the view only; the leader collects votes and
  broadcasts a certificate per phase.  The layout follows the PBFT theory: one definition per
  method, one per message arm.
\<close>

section \<open>State\<close>

datatype hs_phase = HsIdle | HsPrepare | HsPreCommit | HsCommit | HsDecided

record hs_slot =
  ss_view :: ViewNumber
  ss_sequence :: SequenceNumber
  ss_phase :: hs_phase
  ss_prepare_voters :: "node_id set"
  ss_precommit_voters :: "node_id set"
  ss_commit_voters :: "node_id set"

definition hs_slot_new :: "ViewNumber \<Rightarrow> SequenceNumber \<Rightarrow> hs_slot" where
  "hs_slot_new v s =
     \<lparr>ss_view = v, ss_sequence = s, ss_phase = HsIdle, ss_prepare_voters = {},
      ss_precommit_voters = {}, ss_commit_voters = {}\<rparr>"

definition HS_VIEW_CHANGE_TIMEOUT :: u64 where
  "HS_VIEW_CHANGE_TIMEOUT = 40"

record hs_state =
  hs_view :: ViewNumber
  hs_next_sequence :: SequenceNumber
  hs_slots :: "SequenceNumber \<rightharpoonup> hs_slot"
  hs_pending_payloads :: "SequenceNumber \<rightharpoonup> payload"
  hs_committed :: "committed_entry list"
  hs_highest_qc_view :: ViewNumber
  hs_highest_qc_phase :: phase_tag
  hs_view_change_timeout :: u64
  hs_new_view_messages :: "ViewNumber \<rightharpoonup> node_id set"
  hs_leader_active :: bool

record hs_node =
  hn_id :: node_id
  hn_cluster_size :: usize
  hn_peer_ids :: "node_id list"
  hn_current_view :: u64
  hn_state :: hs_state

definition hs_new :: "node_id \<Rightarrow> usize \<Rightarrow> hs_node" where
  "hs_new i n =
     \<lparr>hn_id = i, hn_cluster_size = n, hn_peer_ids = peers_of i n, hn_current_view = 0,
      hn_state =
        \<lparr>hs_view = 0, hs_next_sequence = 1, hs_slots = Map.empty, hs_pending_payloads = Map.empty,
         hs_committed = [], hs_highest_qc_view = 0, hs_highest_qc_phase = TagPrepare,
         hs_view_change_timeout = HS_VIEW_CHANGE_TIMEOUT, hs_new_view_messages = Map.empty,
         hs_leader_active = False\<rparr>\<rparr>"

section \<open>Helpers\<close>

definition hs_leader_for_view :: "hs_node \<Rightarrow> ViewNumber \<Rightarrow> node_id res" where
  "hs_leader_for_view nd v =
     rbind (rem_u64 v (word_of_nat (hn_cluster_size nd))) (\<lambda>k. Inr (NodeId k))"

definition hs_fault_tolerance :: "hs_node \<Rightarrow> usize res" where
  "hs_fault_tolerance nd = rbind (sub_usize (hn_cluster_size nd) 1) (\<lambda>k. Inr (k div 3))"

definition hs_quorum :: "hs_node \<Rightarrow> usize res" where
  "hs_quorum nd = rbind (sub_usize (hn_cluster_size nd) 1) (\<lambda>k. let f = k div 3 in Inr (2 * f + 1))"

definition broadcast_hotstuff :: "hs_node \<Rightarrow> hotstuff_message \<Rightarrow> network_message list" where
  "broadcast_hotstuff nd m = broadcast (hn_id nd) (hn_peer_ids nd) (HotStuff m)"

definition hs_enter_new_view :: "hs_state \<Rightarrow> ViewNumber \<Rightarrow> hs_state" where
  "hs_enter_new_view st new_view =
     st\<lparr>hs_view := new_view,
        hs_view_change_timeout := HS_VIEW_CHANGE_TIMEOUT,
        hs_leader_active := False,
        hs_slots := map_retain (\<lambda>slot. ss_phase slot = HsDecided) (hs_slots st),
        hs_pending_payloads := Map.empty\<rparr>"

fun phase_ord :: "phase_tag \<Rightarrow> u8" where
  "phase_ord TagPrepare = 0"
| "phase_ord TagPreCommit = 1"
| "phase_ord TagCommit = 2"

section \<open>Proposing\<close>

definition hs_propose ::
  "(u8 list \<Rightarrow> u8 list) \<Rightarrow> hs_node \<Rightarrow> payload \<Rightarrow> (hs_node \<times> propose_result \<times> network_message list) res" where
  "hs_propose sha nd p =
     (let st = hn_state nd in
      rbind (hs_leader_for_view nd (hs_view st)) (\<lambda>leader.
      if leader \<noteq> hn_id nd then Inr (nd, NotLeader (Some leader), [])
      else
        let sq = hs_next_sequence st in
        rbind (add_u64 sq 1) (\<lambda>next.
        let v = hs_view st;
            d = payload_digest sha p;
            slot = (hs_slot_new v sq)\<lparr>ss_phase := HsPrepare, ss_prepare_voters := {hn_id nd}\<rparr>;
            st' = st\<lparr>hs_next_sequence := next,
                     hs_slots := (hs_slots st)(sq \<mapsto> slot),
                     hs_pending_payloads := (hs_pending_payloads st)(sq \<mapsto> p)\<rparr>
        in Inr (nd\<lparr>hn_state := st'\<rparr>, Accepted,
                broadcast_hotstuff nd
                  (Propose v sq d p (hs_highest_qc_view st) (hs_highest_qc_phase st))))))"

section \<open>Handling a message, arm by arm\<close>

definition hs_on_propose ::
  "hs_node \<Rightarrow> ViewNumber \<Rightarrow> SequenceNumber \<Rightarrow> digest \<Rightarrow> payload \<Rightarrow> (hs_node \<times> network_message list) res" where
  "hs_on_propose nd v sq d p =
     (let nd1 = (if hs_view (hn_state nd) < v
                 then nd\<lparr>hn_state := hs_enter_new_view (hn_state nd) v, hn_current_view := v\<rparr>
                 else nd);
          st = hn_state nd1
      in if v \<noteq> hs_view st then Inr (nd1, [])
         else
           let slot = (hs_slot_new v sq)\<lparr>ss_phase := HsPrepare\<rparr>;
               st' = st\<lparr>hs_leader_active := True,
                        hs_view_change_timeout := HS_VIEW_CHANGE_TIMEOUT,
                        hs_slots := (hs_slots st)(sq \<mapsto> slot),
                        hs_pending_payloads := (hs_pending_payloads st)(sq \<mapsto> p)\<rparr>
           in rbind (hs_leader_for_view nd1 v) (\<lambda>leader.
              Inr (nd1\<lparr>hn_state := st'\<rparr>,
                   [mk_msg (hn_id nd) leader (HotStuff (Vote v sq d TagPrepare (hn_id nd)))])))"

text \<open>
  The vote block: \<open>None\<close> when the slot is in another phase (the arm returns early), otherwise
  the slot with the vote counted and, at the quorum, moved on; the second component is the
  certificate to broadcast: its phase, its vote count and whether the entry is now decided.
\<close>

definition hs_count_vote ::
  "node_id \<Rightarrow> usize \<Rightarrow> hs_slot \<Rightarrow> phase_tag \<Rightarrow> node_id \<Rightarrow> (hs_slot \<times> (phase_tag \<times> usize \<times> bool) option) option" where
  "hs_count_vote me quorum slot phase voter =
     (case phase of
        TagPrepare \<Rightarrow>
          if ss_phase slot \<noteq> HsPrepare then None
          else
            let slot1 = slot\<lparr>ss_prepare_voters := insert voter (ss_prepare_voters slot)\<rparr>;
                vc = card (ss_prepare_voters slot1)
            in if quorum \<le> vc
               then Some (slot1\<lparr>ss_phase := HsPreCommit,
                                ss_precommit_voters := insert me (ss_precommit_voters slot1)\<rparr>,
                          Some (TagPrepare, vc, False))
               else Some (slot1, None)
      | TagPreCommit \<Rightarrow>
          if ss_phase slot \<noteq> HsPreCommit then None
          else
            let slot1 = slot\<lparr>ss_precommit_voters := insert voter (ss_precommit_voters slot)\<rparr>;
                vc = card (ss_precommit_voters slot1)
            in if quorum \<le> vc
               then Some (slot1\<lparr>ss_phase := HsCommit,
                                ss_commit_voters := insert me (ss_commit_voters slot1)\<rparr>,
                          Some (TagPreCommit, vc, False))
               else Some (slot1, None)
      | TagCommit \<Rightarrow>
          if ss_phase slot \<noteq> HsCommit then None
          else
            let slot1 = slot\<lparr>ss_commit_voters := insert voter (ss_commit_voters slot)\<rparr>;
                vc = card (ss_commit_voters slot1)
            in if quorum \<le> vc
               then Some (slot1\<lparr>ss_phase := HsDecided\<rparr>, Some (TagCommit, vc, True))
               else Some (slot1, None))"

text \<open>\<open>if let Some(payload) = pending_payloads.remove(&sequence) { committed.push(..) }\<close>.\<close>

definition hs_take_pending :: "hs_state \<Rightarrow> SequenceNumber \<Rightarrow> hs_state" where
  "hs_take_pending st sq =
     (case hs_pending_payloads st sq of
        None \<Rightarrow> st
      | Some p \<Rightarrow> st\<lparr>hs_pending_payloads := (hs_pending_payloads st)(sq := None),
                    hs_committed := hs_committed st @ [\<lparr>ce_sequence = sq, ce_payload = p\<rparr>]\<rparr>)"

definition hs_on_vote ::
  "hs_node \<Rightarrow> ViewNumber \<Rightarrow> SequenceNumber \<Rightarrow> digest \<Rightarrow> phase_tag \<Rightarrow> node_id \<Rightarrow> (hs_node \<times> network_message list) res" where
  "hs_on_vote nd v sq d phase voter =
     (let st = hn_state nd in
      rbind (hs_leader_for_view nd v) (\<lambda>leader.
      if leader \<noteq> hn_id nd then Inr (nd, [])
      else if v \<noteq> hs_view st then Inr (nd, [])
      else
        rbind (hs_quorum nd) (\<lambda>quorum.
        case hs_slots st sq of
          None \<Rightarrow> Inr (nd, [])
        | Some slot \<Rightarrow>
            (case hs_count_vote (hn_id nd) quorum slot phase voter of
               None \<Rightarrow> Inr (nd, [])
             | Some (slot', action) \<Rightarrow>
                 let st1 = st\<lparr>hs_slots := (hs_slots st)(sq \<mapsto> slot')\<rparr> in
                 (case action of
                    None \<Rightarrow> Inr (nd\<lparr>hn_state := st1\<rparr>, [])
                  | Some (qc_phase, vote_count, do_commit) \<Rightarrow>
                      let st2 = st1\<lparr>hs_highest_qc_view := v, hs_highest_qc_phase := qc_phase\<rparr>;
                          st3 = (if do_commit then hs_take_pending st2 sq else st2)
                      in Inr (nd\<lparr>hn_state := st3\<rparr>,
                              broadcast_hotstuff nd (QuorumCertificate v sq d qc_phase vote_count)))))))"

text \<open>The three phases of a certificate, on a replica that has the certificate's view.\<close>

definition hs_advance_slot :: "hs_state \<Rightarrow> SequenceNumber \<Rightarrow> hs_phase \<Rightarrow> hs_phase \<Rightarrow> hs_state" where
  "hs_advance_slot st sq from_phase to_phase =
     (case hs_slots st sq of
        None \<Rightarrow> st
      | Some slot \<Rightarrow>
          if ss_phase slot = from_phase
          then st\<lparr>hs_slots := (hs_slots st)(sq \<mapsto> slot\<lparr>ss_phase := to_phase\<rparr>)\<rparr> else st)"

definition hs_decide_slot :: "hs_state \<Rightarrow> SequenceNumber \<Rightarrow> hs_state" where
  "hs_decide_slot st sq =
     (case hs_slots st sq of
        None \<Rightarrow> st
      | Some slot \<Rightarrow>
          if ss_phase slot \<noteq> HsDecided
          then hs_take_pending (st\<lparr>hs_slots := (hs_slots st)(sq \<mapsto> slot\<lparr>ss_phase := HsDecided\<rparr>)\<rparr>) sq
          else st)"

definition hs_track_qc :: "hs_state \<Rightarrow> ViewNumber \<Rightarrow> phase_tag \<Rightarrow> hs_state" where
  "hs_track_qc st v phase =
     (if hs_highest_qc_view st < v \<or>
         (v = hs_highest_qc_view st \<and> phase_ord (hs_highest_qc_phase st) < phase_ord phase)
      then st\<lparr>hs_highest_qc_view := v, hs_highest_qc_phase := phase\<rparr> else st)"

definition hs_on_qc ::
  "hs_node \<Rightarrow> ViewNumber \<Rightarrow> SequenceNumber \<Rightarrow> digest \<Rightarrow> phase_tag \<Rightarrow> usize \<Rightarrow> (hs_node \<times> network_message list) res" where
  "hs_on_qc nd v sq d phase vote_count =
     rbind (hs_quorum nd) (\<lambda>quorum.
     if vote_count < quorum then Inr (nd, [])
     else
       let st = hs_track_qc (hn_state nd) v phase;
           vote = (\<lambda>leader tag. [mk_msg (hn_id nd) leader (HotStuff (Vote v sq d tag (hn_id nd)))])
       in if v \<noteq> hs_view st then Inr (nd\<lparr>hn_state := st\<rparr>, [])
          else
            rbind (hs_leader_for_view nd v) (\<lambda>leader.
            case phase of
              TagPrepare \<Rightarrow>
                Inr (nd\<lparr>hn_state := hs_advance_slot st sq HsPrepare HsPreCommit\<rparr>, vote leader TagPreCommit)
            | TagPreCommit \<Rightarrow>
                Inr (nd\<lparr>hn_state := hs_advance_slot st sq HsPreCommit HsCommit\<rparr>, vote leader TagCommit)
            | TagCommit \<Rightarrow>
                Inr (nd\<lparr>hn_state := hs_decide_slot st sq\<rparr>, [])))"

definition hs_on_new_view :: "hs_node \<Rightarrow> ViewNumber \<Rightarrow> node_id \<Rightarrow> (hs_node \<times> network_message list) res" where
  "hs_on_new_view nd new_view replica =
     (let st = hn_state nd in
      if new_view \<le> hs_view st then Inr (nd, [])
      else
        let votes = insert replica (set_at (hs_new_view_messages st) new_view);
            st1 = st\<lparr>hs_new_view_messages := (hs_new_view_messages st)(new_view \<mapsto> votes)\<rparr>
        in rbind (hs_quorum nd) (\<lambda>quorum.
           rbind (hs_leader_for_view nd new_view) (\<lambda>leader.
           if quorum \<le> card votes \<and> leader = hn_id nd
           then Inr (nd\<lparr>hn_state := hs_enter_new_view st1 new_view, hn_current_view := new_view\<rparr>, [])
           else Inr (nd\<lparr>hn_state := st1\<rparr>, []))))"

definition hs_handle_message :: "hs_node \<Rightarrow> network_message \<Rightarrow> (hs_node \<times> network_message list) res" where
  "hs_handle_message nd msg =
     (case msg_payload msg of
        HotStuff m \<Rightarrow>
          (case m of
             Propose v sq d p justify_view justify_phase \<Rightarrow> hs_on_propose nd v sq d p
           | Vote v sq d phase voter \<Rightarrow> hs_on_vote nd v sq d phase voter
           | QuorumCertificate v sq d phase vote_count \<Rightarrow> hs_on_qc nd v sq d phase vote_count
           | HsNewView new_view highest_qc_view highest_qc_phase replica \<Rightarrow> hs_on_new_view nd new_view replica)
      | Pbft _ \<Rightarrow> Inr (nd, [])
      | Raft _ \<Rightarrow> Inr (nd, []))"

section \<open>Ticking, polling, the leader\<close>

definition hs_tick :: "hs_node \<Rightarrow> (hs_node \<times> network_message list) res" where
  "hs_tick nd =
     (let st = hn_state nd in
      rbind (hs_leader_for_view nd (hs_view st)) (\<lambda>leader.
      if leader = hn_id nd then Inr (nd, [])
      else if hs_view_change_timeout st = 0 then
        rbind (add_u64 (hs_view st) 1) (\<lambda>new_view.
        rbind (hs_leader_for_view nd new_view) (\<lambda>next_leader.
        let votes = insert (hn_id nd) (set_at (hs_new_view_messages st) new_view);
            st' = st\<lparr>hs_new_view_messages := (hs_new_view_messages st)(new_view \<mapsto> votes),
                     hs_view_change_timeout := HS_VIEW_CHANGE_TIMEOUT\<rparr>
        in Inr (nd\<lparr>hn_state := st'\<rparr>,
                [mk_msg (hn_id nd) next_leader
                   (HotStuff (HsNewView new_view (hs_highest_qc_view st) (hs_highest_qc_phase st) (hn_id nd)))])))
      else
        rbind (sub_u64 (hs_view_change_timeout st) 1) (\<lambda>t.
        Inr (nd\<lparr>hn_state := st\<lparr>hs_view_change_timeout := t\<rparr>\<rparr>, []))))"

definition hs_poll_committed :: "hs_node \<Rightarrow> hs_node \<times> committed_entry list" where
  "hs_poll_committed nd = (nd\<lparr>hn_state := (hn_state nd)\<lparr>hs_committed := []\<rparr>\<rparr>, hs_committed (hn_state nd))"

definition hs_leader :: "hs_node \<Rightarrow> node_id option res" where
  "hs_leader nd = rbind (hs_leader_for_view nd (hn_current_view nd)) (\<lambda>p. Inr (Some p))"

definition hs_vtable :: "(u8 list \<Rightarrow> u8 list) \<Rightarrow> hs_node vtable" where
  "hs_vtable sha =
     \<lparr>vt_id = hn_id, vt_cluster_size = hn_cluster_size, vt_fault_tolerance = hs_fault_tolerance,
      vt_peers = hn_peer_ids, vt_propose = hs_propose sha, vt_handle_message = hs_handle_message,
      vt_tick = hs_tick, vt_poll_committed = hs_poll_committed, vt_leader = hs_leader\<rparr>"

lemma hs_vtable_simps [simp]:
  "vt_id (hs_vtable sha) = hn_id"
  "vt_cluster_size (hs_vtable sha) = hn_cluster_size"
  "vt_fault_tolerance (hs_vtable sha) = hs_fault_tolerance"
  "vt_peers (hs_vtable sha) = hn_peer_ids"
  "vt_propose (hs_vtable sha) = hs_propose sha"
  "vt_handle_message (hs_vtable sha) = hs_handle_message"
  "vt_tick (hs_vtable sha) = hs_tick"
  "vt_poll_committed (hs_vtable sha) = hs_poll_committed"
  "vt_leader (hs_vtable sha) = hs_leader"
  by (simp_all add: hs_vtable_def)

end
