(* ===== verification/RaftNode.thy ===== *)
theory RaftNode
  imports Consensus
begin

text \<open>
  Raft: \<open>src/src/consensus/raft/mod.rs\<close> and \<open>state.rs\<close>.  One definition per method,
  one per message arm.  The node owns a random generator for its election timeouts; the state
  of the generator is the type parameter, its \<open>gen_range\<close> the external function of
  \<open>extern\<close>.  \<open>match_index\<close>, whose values are iterated over, is an association list.
\<close>

section \<open>State\<close>

datatype raft_role = Follower | Candidate | Leader

record 'rng raft_state =
  rf_current_term :: u64
  rf_voted_for :: "node_id option"
  rf_log :: "log_entry list"
  rf_commit_index :: u64
  rf_role :: raft_role
  rf_leader_id :: "node_id option"
  rf_next_index :: "node_id \<rightharpoonup> u64"
  rf_match_index :: "(node_id \<times> u64) list"
  rf_votes_received :: usize
  rf_election_ticks_remaining :: u64
  rf_heartbeat_ticks_remaining :: u64
  rf_rng :: 'rng
  rf_committed :: "committed_entry list"

record 'rng raft_node =
  rn_id :: node_id
  rn_cluster_size :: usize
  rn_peer_ids :: "node_id list"
  rn_leader_id_atomic :: u64
  rn_state :: "'rng raft_state"

definition HEARTBEAT_INTERVAL :: u64 where "HEARTBEAT_INTERVAL = 5"
definition ELECTION_TIMEOUT_MIN :: u64 where "ELECTION_TIMEOUT_MIN = 15"
definition ELECTION_TIMEOUT_MAX :: u64 where "ELECTION_TIMEOUT_MAX = 30"
definition NO_LEADER :: u64 where "NO_LEADER = - 1"

definition raft_new_seeded :: "'rng extern \<Rightarrow> node_id \<Rightarrow> usize \<Rightarrow> 'rng \<Rightarrow> 'rng raft_node" where
  "raft_new_seeded X i n rng =
     (case gen_range X ELECTION_TIMEOUT_MIN ELECTION_TIMEOUT_MAX rng of
        (election_timeout, rng') \<Rightarrow>
          \<lparr>rn_id = i, rn_cluster_size = n, rn_peer_ids = peers_of i n, rn_leader_id_atomic = NO_LEADER,
           rn_state =
             \<lparr>rf_current_term = 0, rf_voted_for = None, rf_log = [], rf_commit_index = 0,
              rf_role = Follower, rf_leader_id = None, rf_next_index = Map.empty, rf_match_index = [],
              rf_votes_received = 0, rf_election_ticks_remaining = election_timeout,
              rf_heartbeat_ticks_remaining = 0, rf_rng = rng', rf_committed = []\<rparr>\<rparr>)"

section \<open>Helpers\<close>

definition log_len :: "'rng raft_state \<Rightarrow> u64" where
  "log_len st = word_of_nat (length (rf_log st))"

text \<open>The loop that sets \<open>next_index\<close> and \<open>match_index\<close> of every peer.\<close>

fun init_indices :: "u64 \<Rightarrow> node_id list \<Rightarrow> 'rng raft_state \<Rightarrow> 'rng raft_state" where
  "init_indices next [] st = st"
| "init_indices next (peer # peers) st =
     init_indices next peers
       (st\<lparr>rf_next_index := (rf_next_index st)(peer \<mapsto> next),
           rf_match_index := AList.update peer 0 (rf_match_index st)\<rparr>)"

definition raft_force_leader :: "'rng raft_node \<Rightarrow> 'rng raft_node res" where
  "raft_force_leader nd =
     (let st = (rn_state nd)\<lparr>rf_role := Leader, rf_current_term := 1, rf_leader_id := Some (rn_id nd)\<rparr> in
      rbind (add_u64 (log_len st) 1) (\<lambda>next.
      Inr (nd\<lparr>rn_leader_id_atomic := node_num (rn_id nd),
              rn_state := init_indices next (rn_peer_ids nd) st\<rparr>)))"

definition raft_fault_tolerance :: "'rng raft_node \<Rightarrow> usize res" where
  "raft_fault_tolerance nd = rbind (sub_usize (rn_cluster_size nd) 1) (\<lambda>k. Inr (k div 2))"

definition raft_majority :: "'rng raft_node \<Rightarrow> usize" where
  "raft_majority nd = rn_cluster_size nd div 2 + 1"

definition reset_election_timeout :: "'rng extern \<Rightarrow> 'rng raft_state \<Rightarrow> 'rng raft_state" where
  "reset_election_timeout X st =
     (case gen_range X ELECTION_TIMEOUT_MIN ELECTION_TIMEOUT_MAX (rf_rng st) of
        (t, rng') \<Rightarrow> st\<lparr>rf_election_ticks_remaining := t, rf_rng := rng'\<rparr>)"

definition build_append_entries :: "'rng raft_node \<Rightarrow> 'rng raft_state \<Rightarrow> node_id \<Rightarrow> network_message res" where
  "build_append_entries nd st peer =
     (let next = (case rf_next_index st peer of None \<Rightarrow> 1 | Some k \<Rightarrow> k);
          prev_log_index = saturating_sub next 1;
          prev_log_term =
            (if 0 < prev_log_index
             then (case vec_get (rf_log st) (unat (prev_log_index - 1)) of None \<Rightarrow> 0 | Some e \<Rightarrow> le_term e)
             else 0)
      in rbind (sub_u64 next 1) (\<lambda>k.
         let entries = drop (unat k) (rf_log st) in
         Inr (mk_msg (rn_id nd) peer
           (Raft (AppendEntries (rf_current_term st) (rn_id nd) prev_log_index prev_log_term entries
                    (rf_commit_index st))))))"

definition append_entries_to_peers :: "'rng raft_node \<Rightarrow> 'rng raft_state \<Rightarrow> network_message list res" where
  "append_entries_to_peers nd st = map_res (build_append_entries nd st) (rn_peer_ids nd)"

definition last_log_term :: "'rng raft_state \<Rightarrow> u64" where
  "last_log_term st = (if rf_log st = [] then 0 else le_term (last (rf_log st)))"

definition entry_of :: "log_entry \<Rightarrow> committed_entry" where
  "entry_of e = \<lparr>ce_sequence = le_index e, ce_payload = le_payload e\<rparr>"

text \<open>Moving the commit index to \<open>new\<close> hands out the log slice between the old and the new index.\<close>

definition commit_to :: "'rng raft_state \<Rightarrow> u64 \<Rightarrow> 'rng raft_state res" where
  "commit_to st new =
     rbind (slice (rf_log st) (unat (rf_commit_index st)) (unat new)) (\<lambda>es.
     Inr (st\<lparr>rf_commit_index := new, rf_committed := rf_committed st @ map entry_of es\<rparr>))"

section \<open>Proposing\<close>

definition raft_propose ::
  "'rng raft_node \<Rightarrow> payload \<Rightarrow> ('rng raft_node \<times> propose_result \<times> network_message list) res" where
  "raft_propose nd p =
     (let st = rn_state nd in
      if rf_role st \<noteq> Leader then Inr (nd, NotLeader (rf_leader_id st), [])
      else
        rbind (add_u64 (log_len st) 1) (\<lambda>index.
        let entry = \<lparr>le_term = rf_current_term st, le_index = index, le_payload = p\<rparr>;
            st' = st\<lparr>rf_log := rf_log st @ [entry]\<rparr>
        in rbind (append_entries_to_peers nd st') (\<lambda>outgoing.
           Inr (nd\<lparr>rn_state := st'\<rparr>, Accepted, outgoing))))"

section \<open>Handling a message, arm by arm\<close>

definition raft_on_request_vote ::
  "'rng extern \<Rightarrow> 'rng raft_node \<Rightarrow> node_id \<Rightarrow> u64 \<Rightarrow> node_id \<Rightarrow> u64 \<Rightarrow> u64
     \<Rightarrow> ('rng raft_node \<times> network_message list) res" where
  "raft_on_request_vote X nd sender term candidate last_index last_term =
     (let st0 = rn_state nd;
          st = (if rf_current_term st0 < term
                then st0\<lparr>rf_current_term := term, rf_role := Follower, rf_voted_for := None,
                         rf_leader_id := None\<rparr>
                else st0);
          vote_granted =
            (if term < rf_current_term st \<or>
                (rf_voted_for st \<noteq> None \<and> rf_voted_for st \<noteq> Some candidate) then False
             else if last_log_term st < last_term then True
             else if last_term = last_log_term st then log_len st \<le> last_index
             else False);
          st' = (if vote_granted
                 then reset_election_timeout X (st\<lparr>rf_voted_for := Some candidate\<rparr>) else st)
      in Inr (nd\<lparr>rn_state := st'\<rparr>,
              [mk_msg (rn_id nd) sender (Raft (RequestVoteResponse (rf_current_term st') vote_granted))]))"

definition raft_on_request_vote_response ::
  "'rng raft_node \<Rightarrow> u64 \<Rightarrow> bool \<Rightarrow> ('rng raft_node \<times> network_message list) res" where
  "raft_on_request_vote_response nd term vote_granted =
     (let st = rn_state nd in
      if rf_current_term st < term
      then Inr (nd\<lparr>rn_state := st\<lparr>rf_current_term := term, rf_role := Follower\<rparr>\<rparr>, [])
      else if vote_granted \<and> rf_role st = Candidate then
        let st1 = st\<lparr>rf_votes_received := rf_votes_received st + 1\<rparr> in
        if raft_majority nd \<le> rf_votes_received st1 then
          rbind (add_u64 (log_len st1) 1) (\<lambda>next.
          let st2 = init_indices next (rn_peer_ids nd)
                      (st1\<lparr>rf_role := Leader, rf_leader_id := Some (rn_id nd)\<rparr>)
          in rbind (append_entries_to_peers nd st2) (\<lambda>outgoing.
             Inr (nd\<lparr>rn_leader_id_atomic := node_num (rn_id nd), rn_state := st2\<rparr>, outgoing)))
        else Inr (nd\<lparr>rn_state := st1\<rparr>, [])
      else Inr (nd, []))"

text \<open>The loop that merges the received entries into the log.\<close>

fun append_loop :: "log_entry list \<Rightarrow> log_entry list \<Rightarrow> log_entry list res" where
  "append_loop lg [] = Inr lg"
| "append_loop lg (e # es) =
     rbind (sub_u64 (le_index e) 1) (\<lambda>k.
     let idx = unat k in
     if idx < length lg then
       if le_term (lg ! idx) \<noteq> le_term e then append_loop (take idx lg @ [e]) es
       else append_loop lg es
     else append_loop (lg @ [e]) es)"

definition raft_on_append_entries ::
  "'rng extern \<Rightarrow> 'rng raft_node \<Rightarrow> node_id \<Rightarrow> u64 \<Rightarrow> node_id \<Rightarrow> u64 \<Rightarrow> u64 \<Rightarrow> log_entry list \<Rightarrow> u64
     \<Rightarrow> ('rng raft_node \<times> network_message list) res" where
  "raft_on_append_entries X nd sender term leader prev_log_index prev_log_term entries leader_commit =
     (let st0 = rn_state nd;
          reply = (\<lambda>st success match_index.
            [mk_msg (rn_id nd) sender (Raft (AppendEntriesResponse (rf_current_term st) success match_index))])
      in
      if term < rf_current_term st0 then Inr (nd, reply st0 False 0)
      else
        let st1 = reset_election_timeout X
                    (st0\<lparr>rf_current_term := term, rf_role := Follower, rf_leader_id := Some leader\<rparr>);
            nd1 = nd\<lparr>rn_leader_id_atomic := node_num leader, rn_state := st1\<rparr>;
            prev = (if 0 < prev_log_index then Some (vec_get (rf_log st1) (unat (prev_log_index - 1))) else None)
        in
        if prev = Some None then Inr (nd1, reply st1 False (log_len st1))
        else if (case prev of Some (Some e) \<Rightarrow> le_term e \<noteq> prev_log_term | _ \<Rightarrow> False) then
          let st2 = st1\<lparr>rf_log := take (unat (prev_log_index - 1)) (rf_log st1)\<rparr>
          in Inr (nd1\<lparr>rn_state := st2\<rparr>, reply st2 False (log_len st2))
        else
          rbind (append_loop (rf_log st1) entries) (\<lambda>log'.
          let st2 = st1\<lparr>rf_log := log'\<rparr>;
              match_idx = log_len st2
          in rbind (if rf_commit_index st2 < leader_commit
                    then commit_to st2 (min leader_commit (log_len st2)) else Inr st2) (\<lambda>st3.
             Inr (nd1\<lparr>rn_state := st3\<rparr>, reply st3 True match_idx))))"

text \<open>
  The highest index a leader may commit: scanned downwards from the end of the log, an index of
  the current term that a majority holds (the leader counts itself).
\<close>

definition replicated_on :: "'rng raft_state \<Rightarrow> u64 \<Rightarrow> usize" where
  "replicated_on st n = length (filter (\<lambda>kv. n \<le> snd kv) (rf_match_index st)) + 1"

definition committable :: "'rng raft_node \<Rightarrow> 'rng raft_state \<Rightarrow> u64 \<Rightarrow> bool" where
  "committable nd st n \<longleftrightarrow>
     (case vec_get (rf_log st) (unat (n - 1)) of None \<Rightarrow> True | Some e \<Rightarrow> le_term e = rf_current_term st) \<and>
     raft_majority nd \<le> replicated_on st n"

definition commit_candidates :: "'rng raft_state \<Rightarrow> u64 \<Rightarrow> u64 list" where
  "commit_candidates st from =
     rev (map word_of_nat [unat from..<Suc (unat (log_len st))])"

definition raft_on_append_entries_response ::
  "'rng raft_node \<Rightarrow> node_id \<Rightarrow> u64 \<Rightarrow> bool \<Rightarrow> u64 \<Rightarrow> ('rng raft_node \<times> network_message list) res" where
  "raft_on_append_entries_response nd sender term success match_index =
     (let st = rn_state nd in
      if rf_current_term st < term
      then Inr (nd\<lparr>rn_state := st\<lparr>rf_current_term := term, rf_role := Follower\<rparr>\<rparr>, [])
      else if rf_role st \<noteq> Leader then Inr (nd, [])
      else if success then
        rbind (add_u64 match_index 1) (\<lambda>next.
        let st1 = st\<lparr>rf_match_index := AList.update sender match_index (rf_match_index st),
                     rf_next_index := (rf_next_index st)(sender \<mapsto> next)\<rparr>
        in rbind (add_u64 (rf_commit_index st1) 1) (\<lambda>from.
           case find (committable nd st1) (commit_candidates st1 from) of
             None \<Rightarrow> Inr (nd\<lparr>rn_state := st1\<rparr>, [])
           | Some n \<Rightarrow> rbind (commit_to st1 n) (\<lambda>st2. Inr (nd\<lparr>rn_state := st2\<rparr>, []))))
      else
        let next = (case rf_next_index st sender of None \<Rightarrow> 1 | Some k \<Rightarrow> k);
            st1 = (if 1 < next then st\<lparr>rf_next_index := (rf_next_index st)(sender \<mapsto> next - 1)\<rparr> else st)
        in rbind (build_append_entries nd st1 sender) (\<lambda>m. Inr (nd\<lparr>rn_state := st1\<rparr>, [m])))"

definition raft_handle_message ::
  "'rng extern \<Rightarrow> 'rng raft_node \<Rightarrow> network_message \<Rightarrow> ('rng raft_node \<times> network_message list) res" where
  "raft_handle_message X nd msg =
     (case msg_payload msg of
        Raft m \<Rightarrow>
          (case m of
             RequestVote term candidate last_index last_term \<Rightarrow>
               raft_on_request_vote X nd (msg_from msg) term candidate last_index last_term
           | RequestVoteResponse term vote_granted \<Rightarrow> raft_on_request_vote_response nd term vote_granted
           | AppendEntries term leader prev_index prev_term entries leader_commit \<Rightarrow>
               raft_on_append_entries X nd (msg_from msg) term leader prev_index prev_term entries leader_commit
           | AppendEntriesResponse term success match_index \<Rightarrow>
               raft_on_append_entries_response nd (msg_from msg) term success match_index)
      | Pbft _ \<Rightarrow> Inr (nd, [])
      | HotStuff _ \<Rightarrow> Inr (nd, []))"

section \<open>Ticking, polling, the leader\<close>

definition raft_start_election :: "'rng extern \<Rightarrow> 'rng raft_node \<Rightarrow> ('rng raft_node \<times> network_message list) res" where
  "raft_start_election X nd =
     (let st = rn_state nd in
      rbind (add_u64 (rf_current_term st) 1) (\<lambda>term.
      let st' = reset_election_timeout X
                  (st\<lparr>rf_current_term := term, rf_role := Candidate, rf_voted_for := Some (rn_id nd),
                      rf_votes_received := 1, rf_leader_id := None\<rparr>)
      in Inr (nd\<lparr>rn_state := st'\<rparr>,
              broadcast (rn_id nd) (rn_peer_ids nd)
                (Raft (RequestVote term (rn_id nd) (log_len st') (last_log_term st'))))))"

definition raft_tick :: "'rng extern \<Rightarrow> 'rng raft_node \<Rightarrow> ('rng raft_node \<times> network_message list) res" where
  "raft_tick X nd =
     (let st = rn_state nd in
      if rf_role st = Leader then
        if rf_heartbeat_ticks_remaining st = 0 then
          let st' = st\<lparr>rf_heartbeat_ticks_remaining := HEARTBEAT_INTERVAL\<rparr> in
          rbind (append_entries_to_peers nd st') (\<lambda>outgoing. Inr (nd\<lparr>rn_state := st'\<rparr>, outgoing))
        else
          rbind (sub_u64 (rf_heartbeat_ticks_remaining st) 1) (\<lambda>t.
          Inr (nd\<lparr>rn_state := st\<lparr>rf_heartbeat_ticks_remaining := t\<rparr>\<rparr>, []))
      else if rf_election_ticks_remaining st = 0 then raft_start_election X nd
      else
        rbind (sub_u64 (rf_election_ticks_remaining st) 1) (\<lambda>t.
        Inr (nd\<lparr>rn_state := st\<lparr>rf_election_ticks_remaining := t\<rparr>\<rparr>, [])))"

definition raft_poll_committed :: "'rng raft_node \<Rightarrow> 'rng raft_node \<times> committed_entry list" where
  "raft_poll_committed nd = (nd\<lparr>rn_state := (rn_state nd)\<lparr>rf_committed := []\<rparr>\<rparr>, rf_committed (rn_state nd))"

definition raft_leader :: "'rng raft_node \<Rightarrow> node_id option res" where
  "raft_leader nd =
     Inr (if rn_leader_id_atomic nd = NO_LEADER then None else Some (NodeId (rn_leader_id_atomic nd)))"

definition raft_vtable :: "'rng extern \<Rightarrow> 'rng raft_node vtable" where
  "raft_vtable X =
     \<lparr>vt_id = rn_id, vt_cluster_size = rn_cluster_size, vt_fault_tolerance = raft_fault_tolerance,
      vt_peers = rn_peer_ids, vt_propose = raft_propose, vt_handle_message = raft_handle_message X,
      vt_tick = raft_tick X, vt_poll_committed = raft_poll_committed, vt_leader = raft_leader\<rparr>"

lemma raft_vtable_simps [simp]:
  "vt_id (raft_vtable X) = rn_id"
  "vt_cluster_size (raft_vtable X) = rn_cluster_size"
  "vt_fault_tolerance (raft_vtable X) = raft_fault_tolerance"
  "vt_peers (raft_vtable X) = rn_peer_ids"
  "vt_propose (raft_vtable X) = raft_propose"
  "vt_handle_message (raft_vtable X) = raft_handle_message X"
  "vt_tick (raft_vtable X) = raft_tick X"
  "vt_poll_committed (raft_vtable X) = raft_poll_committed"
  "vt_leader (raft_vtable X) = raft_leader"
  by (simp_all add: raft_vtable_def)

end
