(* ===== verification/Clusters.thy ===== *)
theory Clusters
  imports Cluster PbftNode HotStuffNode RaftNode
begin

text \<open>
  The constructors of \<open>src/src/cluster/mod.rs\<close>.  A generator the source draws from the
  system's entropy is an argument: \<open>entropy\<close> for the fault configuration, and one per node for
  an unseeded Raft cluster.
\<close>

definition pbft_nodes :: "usize \<Rightarrow> pbft_node list" where
  "pbft_nodes n = map (\<lambda>i. pbft_new i n) (node_ids n)"

definition hs_nodes :: "usize \<Rightarrow> hs_node list" where
  "hs_nodes n = map (\<lambda>i. hs_new i n) (node_ids n)"

definition new_pbft :: "'rng \<Rightarrow> usize \<Rightarrow> (pbft_node, 'rng) cluster" where
  "new_pbft entropy n = cluster_of (pbft_nodes n) (fault_default entropy)"

definition new_hotstuff :: "'rng \<Rightarrow> usize \<Rightarrow> (hs_node, 'rng) cluster" where
  "new_hotstuff entropy n = cluster_of (hs_nodes n) (fault_default entropy)"

definition new_pbft_seeded :: "'rng extern \<Rightarrow> usize \<Rightarrow> u64 \<Rightarrow> (pbft_node, 'rng) cluster" where
  "new_pbft_seeded X n seed =
     (case gen_u64 X (seed_from_u64 X seed) of
        (fault_seed, master) \<Rightarrow> cluster_of (pbft_nodes n) (fault_with_seed X fault_seed))"

definition new_hotstuff_seeded :: "'rng extern \<Rightarrow> usize \<Rightarrow> u64 \<Rightarrow> (hs_node, 'rng) cluster" where
  "new_hotstuff_seeded X n seed =
     (case gen_u64 X (seed_from_u64 X seed) of
        (fault_seed, master) \<Rightarrow> cluster_of (hs_nodes n) (fault_with_seed X fault_seed))"

definition raft_nodes :: "'rng extern \<Rightarrow> (node_id \<Rightarrow> 'rng) \<Rightarrow> usize \<Rightarrow> 'rng raft_node list" where
  "raft_nodes X node_entropy n = map (\<lambda>i. raft_new_seeded X i n (node_entropy i)) (node_ids n)"

definition new_raft :: "'rng extern \<Rightarrow> 'rng \<Rightarrow> (node_id \<Rightarrow> 'rng) \<Rightarrow> usize \<Rightarrow> ('rng raft_node, 'rng) cluster" where
  "new_raft X entropy node_entropy n = cluster_of (raft_nodes X node_entropy n) (fault_default entropy)"

text \<open>\<open>raft_nodes[0].force_leader()\<close>.\<close>

fun force_first :: "'rng raft_node list \<Rightarrow> 'rng raft_node list res" where
  "force_first [] = Inl IndexOutOfRange"
| "force_first (nd # nds) = rbind (raft_force_leader nd) (\<lambda>nd'. Inr (nd' # nds))"

definition new_raft_with_leader ::
  "'rng extern \<Rightarrow> 'rng \<Rightarrow> (node_id \<Rightarrow> 'rng) \<Rightarrow> usize \<Rightarrow> ('rng raft_node, 'rng) cluster res" where
  "new_raft_with_leader X entropy node_entropy n =
     rbind (force_first (raft_nodes X node_entropy n)) (\<lambda>nds. Inr (cluster_of nds (fault_default entropy)))"

text \<open>Seeded Raft nodes each get a generator seeded with the next draw of the master generator.\<close>

fun seed_nodes :: "'rng extern \<Rightarrow> usize \<Rightarrow> 'rng \<Rightarrow> node_id list \<Rightarrow> 'rng raft_node list \<times> 'rng" where
  "seed_nodes X n master [] = ([], master)"
| "seed_nodes X n master (i # is) =
     (case gen_u64 X master of
        (child_seed, master1) \<Rightarrow>
          (case seed_nodes X n master1 is of
             (nds, master2) \<Rightarrow> (raft_new_seeded X i n (seed_from_u64 X child_seed) # nds, master2)))"

definition new_raft_seeded :: "'rng extern \<Rightarrow> usize \<Rightarrow> u64 \<Rightarrow> ('rng raft_node, 'rng) cluster" where
  "new_raft_seeded X n seed =
     (case seed_nodes X n (seed_from_u64 X seed) (node_ids n) of
        (nds, master) \<Rightarrow>
          (case gen_u64 X master of
             (fault_seed, master') \<Rightarrow> cluster_of nds (fault_with_seed X fault_seed)))"

definition new_raft_with_leader_seeded ::
  "'rng extern \<Rightarrow> usize \<Rightarrow> u64 \<Rightarrow> ('rng raft_node, 'rng) cluster res" where
  "new_raft_with_leader_seeded X n seed =
     (case seed_nodes X n (seed_from_u64 X seed) (node_ids n) of
        (nds, master) \<Rightarrow>
          rbind (force_first nds) (\<lambda>nds'.
          case gen_u64 X master of
            (fault_seed, master') \<Rightarrow> Inr (cluster_of nds' (fault_with_seed X fault_seed))))"

end
