(* ===== verification/Concrete.thy ===== *)
theory Concrete
  imports Clusters ClusterNet
begin

text \<open>
  Concrete external functions for the runs that are evaluated: a digest of 32 bytes cut from the
  input, a generator that counts, and a range draw that alternates over the range's start.  They
  satisfy what the documentation of the crates promises; nothing else depends on them.
\<close>

definition demo_sha :: "u8 list \<Rightarrow> u8 list" where
  "demo_sha bs = take 32 (bs @ replicate 32 0)"

definition demo_extern :: "u64 extern" where
  "demo_extern =
     \<lparr>sha256 = demo_sha, gen_f64 = (\<lambda>r. (Finite (1 / 2), r + 1)), gen_u64 = (\<lambda>r. (r, r + 1)),
      gen_range = (\<lambda>lo hi r. (if lo + r \<le> hi \<and> lo \<le> lo + r then lo + r else lo, r + 1)), seed_from_u64 = (\<lambda>k. k)\<rparr>"

lemma demo_sha_ok: "sha256_ok (sha256 demo_extern)"
  by (auto simp: sha256_ok_def demo_extern_def demo_sha_def min_def)

lemma demo_range_ok: "gen_range_ok (gen_range demo_extern)"
  by (simp add: gen_range_ok_def demo_extern_def)

abbreviation demo_pbft :: "pbft_node vtable" where
  "demo_pbft \<equiv> pbft_vtable (sha256 demo_extern)"

abbreviation demo_hs :: "hs_node vtable" where
  "demo_hs \<equiv> hs_vtable (sha256 demo_extern)"

abbreviation demo_raft :: "u64 raft_node vtable" where
  "demo_raft \<equiv> raft_vtable demo_extern"

text \<open>The state a run ends in satisfies a predicate; a panic satisfies none.\<close>

definition ends_with :: "'a res \<Rightarrow> ('a \<Rightarrow> bool) \<Rightarrow> bool" where
  "ends_with r P \<longleftrightarrow> (case r of Inl e \<Rightarrow> False | Inr x \<Rightarrow> P x)"

lemma ends_withE: "ends_with r P \<Longrightarrow> (\<And>x. r = Inr x \<Longrightarrow> P x \<Longrightarrow> thesis) \<Longrightarrow> thesis"
  by (auto simp: ends_with_def split: sum.splits)

text \<open>One proposal, delivered to the end and collected.\<close>

definition one_round :: "u64 cluster_op list" where
  "one_round = [DoPropose (Payload [1]), DoRun 100, DoCollect True]"

end
