(* ===== verification/PbftProps.thy ===== *)
theory PbftProps
  imports PbftQuorum PbftLive ClusterSafety Concrete
begin

text \<open>The properties of PBFT, over the asynchronous system and over clusters.\<close>

abbreviation pbft_view :: "pbft_node \<Rightarrow> ViewNumber" where
  "pbft_view nd \<equiv> pb_view (pn_state nd)"

abbreviation pbft_entries :: "pbft_node \<Rightarrow> committed_entry list" where
  "pbft_entries nd \<equiv> pb_committed (pn_state nd)"

lemma pbft_new_member: "pbft_member n (pbft_new i n)"
  by (simp add: pbft_member_def pbft_new_wf) (simp add: pbft_new_def)

lemma pbft_new_simps [simp]:
  "pn_id (pbft_new i n) = i" "pb_pending_payloads (pn_state (pbft_new i n)) = Map.empty"
  "pb_view (pn_state (pbft_new i n)) = 0" "pb_committed (pn_state (pbft_new i n)) = []"
  by (simp_all add: pbft_new_def)

lemma pbft_fresh:
  "\<forall>i\<in>ids. nodes i = pbft_new i n \<Longrightarrow> pbs.fresh_nodes sha n ids nodes"
  by (simp add: pbs.fresh_nodes_def pbft_new_member)

lemma pbft_ids: "map pn_id (pbft_nodes n) = node_ids n"
  by (simp add: pbft_nodes_def o_def)

lemma pbft_start: "n < 2 ^ 64 \<Longrightarrow> pbs.start_nodes sha n (pbft_nodes n)"
  unfolding pbs.start_nodes_def
  by (simp add: pbft_ids [unfolded pbft_nodes_def] distinct_node_ids pbft_nodes_def pbft_new_member o_def)

section \<open>Agreement in the asynchronous system\<close>

text \<open>
  C1: In a PBFT cluster of any size, whatever the network loses, repeats or reorders, whichever
  digests it corrupts and however timers fire, two nodes that commit the same sequence number in the same view commit the same
  payload, and a client proposed it.
\<close>

theorem pbft_view_agreement:
  assumes "\<forall>i\<in>ids. nodes i = pbft_new i n"
    and "net_reach timers (pbft_vtable sha) ids pbft_view pbft_entries (net_init nodes) s"
    and "(v, e) \<in> set (nt_decided s i)" and "(v, e') \<in> set (nt_decided s j)"
    and "ce_sequence e = ce_sequence e'"
  shows "ce_payload e = ce_payload e' \<and> ce_payload e \<in> nt_proposed s"
  using pbs.view_agreement [OF pbft_fresh [OF assms(1)] assms(2-5)]
    pbs.decided_validity [OF pbft_fresh [OF assms(1)] assms(2,3)] by simp

lemma pbft_node_at_gen:
  assumes "n < 2 ^ 64"
  shows "\<forall>i\<in>set (node_ids n). node_at (pbft_vtable sha) (pbft_nodes n) i = pbft_new i n"
proof
  fix i
  assume i: "i \<in> set (node_ids n)"
  have d: "distinct (map (vt_id (pbft_vtable sha)) (pbft_nodes n))"
    using assms by (simp add: pbft_ids distinct_node_ids)
  have "pbft_new i n \<in> set (pbft_nodes n)" using i by (simp add: pbft_nodes_def)
  from node_at_self [OF d this] show "node_at (pbft_vtable sha) (pbft_nodes n) i = pbft_new i n" by simp
qed

lemma pbft_node_at: "\<forall>i\<in>set (node_ids 4). node_at (pbft_vtable sha) (pbft_nodes 4) i = pbft_new i 4"
  by (rule pbft_node_at_gen) simp

text \<open>A concrete run: one proposal in a cluster of four.\<close>

lemma pbft_demo_run:
  "\<exists>s e. net_reach False demo_pbft (set (node_ids 4)) pbft_view pbft_entries
       (net_init (node_at demo_pbft (pbft_nodes 4))) s \<and>
     (0, e) \<in> set (nt_decided s (NodeId 1)) \<and> (0, e) \<in> set (nt_decided s (NodeId 2))"
proof -
  define e where "e = \<lparr>ce_sequence = 1, ce_payload = Payload [1]\<rparr>"
  have n: "(4 :: usize) < 2 ^ 64" by simp
  have ops: "\<forall>x\<in>set one_round. loyal_op False False x" by (simp add: one_round_def)
  have "ends_with (cluster_run demo_extern demo_pbft (new_pbft 0 4) one_round) (\<lambda>c.
      list_at (lg_commits (cl_commit_log c)) (NodeId 1) = [\<lparr>ce_sequence = 1, ce_payload = Payload [1]\<rparr>] \<and>
      list_at (lg_commits (cl_commit_log c)) (NodeId 2) = [\<lparr>ce_sequence = 1, ce_payload = Payload [1]\<rparr>])"
    by code_simp
  then obtain c where c: "cluster_run demo_extern demo_pbft (cluster_of (pbft_nodes 4) (fault_default 0)) one_round = Inr c"
    and log: "list_at (lg_commits (cl_commit_log c)) (NodeId 1) = [e]" "list_at (lg_commits (cl_commit_log c)) (NodeId 2) = [e]"
    unfolding e_def new_pbft_def by (blast elim: ends_withE)
  show ?thesis
    using pbs.cluster_still_sim [OF pbft_start [OF n] _ c ops] log by (force simp: pbft_ids)
qed

theorem pbft_view_agreement_witness:
  "\<exists>(s :: pbft_node net) e. (0, e) \<in> set (nt_decided s (NodeId 1)) \<and> (0, e) \<in> set (nt_decided s (NodeId 2)) \<and>
     ce_payload e \<in> nt_proposed s"
proof -
  obtain s e where s: "net_reach False demo_pbft (set (node_ids 4)) pbft_view pbft_entries
      (net_init (node_at demo_pbft (pbft_nodes 4))) s"
    "(0, e) \<in> set (nt_decided s (NodeId 1))" "(0, e) \<in> set (nt_decided s (NodeId 2))"
    using pbft_demo_run by blast
  from pbft_view_agreement [OF pbft_node_at s(1-3) refl] s show ?thesis by auto
qed

section \<open>Agreement and validity of a cluster's log\<close>

text \<open>
  C4: A PBFT cluster in which no node equivocates and no timer runs passes the agreement check
  after every sequence of proposals, steps, runs, fault changes and collections, whatever is
  dropped, partitioned or isolated and however many nodes corrupt digests or drop phases, for
  every set of nodes taken as honest.
\<close>

theorem pbft_cluster_agreement:
  assumes "n < 2 ^ 64"
    and "cluster_run X (pbft_vtable (sha256 X)) (new_pbft entropy n) ops = Inr c"
    and "\<forall>x\<in>set ops. loyal_op False False x"
  shows "check_agreement (cl_commit_log c) honest = Pass"
  by (rule pbs.cluster_agreement [OF pbft_start [OF assms(1)] _ assms(2)[unfolded new_pbft_def] assms(3)])
    simp

theorem pbft_cluster_agreement_witness:
  "ends_with (cluster_run demo_extern demo_pbft (new_pbft (0 :: u64) 4) one_round)
     (\<lambda>c. check_agreement (cl_commit_log c) (node_ids 4) = Pass \<and> commit_count (cl_commit_log c) (NodeId 3) = 1)"
proof -
  have "ends_with (cluster_run demo_extern demo_pbft (new_pbft (0 :: u64) 4) one_round)
      (\<lambda>c. commit_count (cl_commit_log c) (NodeId 3) = 1)" by code_simp
  moreover have "\<forall>x\<in>set one_round. loyal_op False False x" by (simp add: one_round_def)
  ultimately show ?thesis
    using pbft_cluster_agreement [of 4 demo_extern 0 one_round] by (auto simp: ends_with_def split: sum.splits)
qed

text \<open>
  C10: While no node equivocates, the validity check of a PBFT cluster passes after every sequence
  of calls, ticks and leader waits included: what a node commits, a client proposed.
\<close>

theorem pbft_cluster_validity:
  assumes "n < 2 ^ 64"
    and "cluster_run X (pbft_vtable (sha256 X)) (new_pbft entropy n) ops = Inr c"
    and "\<forall>x\<in>set ops. loyal_op True False x"
  shows "check_validity (cl_commit_log c) honest = Pass"
  by (rule pbs.cluster_validity [OF pbft_start [OF assms(1)] _ assms(2)[unfolded new_pbft_def] assms(3)])
    simp

theorem pbft_cluster_validity_witness:
  "ends_with (cluster_run demo_extern demo_pbft (new_pbft (0 :: u64) 4) (DoTick # one_round))
     (\<lambda>c. check_validity (cl_commit_log c) (node_ids 4) = Pass \<and> commit_count (cl_commit_log c) (NodeId 3) = 1)"
proof -
  have "ends_with (cluster_run demo_extern demo_pbft (new_pbft (0 :: u64) 4) (DoTick # one_round))
      (\<lambda>c. commit_count (cl_commit_log c) (NodeId 3) = 1)" by code_simp
  moreover have "\<forall>x\<in>set (DoTick # one_round). loyal_op True False x" by (simp add: one_round_def)
  ultimately show ?thesis
    using pbft_cluster_validity [of 4 demo_extern 0 "DoTick # one_round"]
    by (auto simp: ends_with_def simp del: cluster_run.simps split: sum.splits)
qed

section \<open>Quorums\<close>

lemma pbft_new_backed: "pbe.backed_node sha n {} i (pbft_new i n)"
  by (simp add: pbe.backed_node_def pbft_new_member pbft_node_backed_def) (simp add: pbft_new_def)



section \<open>One replica\<close>

text \<open>
  C16: A replica of a cluster of at least four that is not changing views commits what its primary
  proposes once the votes arrive: after the pre-prepare, the prepares of any \<open>2f\<close> distinct
  replicas and the commits of any \<open>2f\<close> distinct others it has broadcast its own prepare and its
  own commit and nothing else, and has appended the payload under the proposed number to its
  committed entries.
\<close>

theorem pbft_replica_commits:
  assumes "4 \<le> pn_cluster_size nd" and "\<not> pb_view_change_in_progress (pn_state nd)"
    and "distinct rs" and "length rs = 2 * ((pn_cluster_size nd - 1) div 3)"
    and "distinct cs" and "length cs = 2 * ((pn_cluster_size nd - 1) div 3)" and "pn_id nd \<notin> set cs"
  shows "\<exists>nd'. node_run (pbft_vtable sha) nd
      (handle_all (mk_msg l (pn_id nd) (Pbft (PrePrepare (pbft_view nd) sq d p)) #
         pbft_msgs rs (pn_id nd) (Prepare (pbft_view nd) sq d) @ pbft_msgs cs (pn_id nd) (Commit (pbft_view nd) sq d))) =
      Inr (nd', broadcast_pbft nd (Prepare (pbft_view nd) sq d (pn_id nd)) @
        broadcast_pbft nd (Commit (pbft_view nd) sq d (pn_id nd)), []) \<and>
    pbft_entries nd' = pbft_entries nd @ [\<lparr>ce_sequence = sq, ce_payload = p\<rparr>] \<and>
    pb_pending_payloads (pn_state nd') = (pb_pending_payloads (pn_state nd))(sq := None) \<and>
    pbft_view nd' = pbft_view nd \<and> sq \<le> pb_highest_committed_seq (pn_state nd')"
  by (rule pbft_replica_run) (use assms in \<open>simp_all add: pbft_f_def\<close>)

theorem pbft_replica_commits_witness:
  "\<exists>nd' out. node_run demo_pbft (pbft_new (NodeId 1) 4)
      (handle_all (mk_msg (NodeId 0) (NodeId 1) (Pbft (PrePrepare 0 1 (Digest []) (Payload [7]))) #
         pbft_msgs [NodeId 0, NodeId 2] (NodeId 1) (Prepare 0 1 (Digest [])) @
         pbft_msgs [NodeId 0, NodeId 3] (NodeId 1) (Commit 0 1 (Digest [])))) = Inr (nd', out, []) \<and>
    pbft_entries nd' = [\<lparr>ce_sequence = 1, ce_payload = Payload [7]\<rparr>]"
  using pbft_replica_commits [of "pbft_new (NodeId 1) 4" "[NodeId 0, NodeId 2]" "[NodeId 0, NodeId 3]"
      "sha256 demo_extern" "NodeId 0" 1 "Digest []" "Payload [7]"]
  by (auto simp: pbft_new_def)



text \<open>
  C23: In a cluster of at least one node a PBFT node panics only when it runs out of numbers: a
  proposal when the next sequence number, a tick when the view and a view change when the highest
  committed number is the last 64-bit word; no other message ever makes it panic.
\<close>

theorem pbft_panics:
  assumes "0 < pn_cluster_size nd" and "pn_cluster_size nd < 2 ^ 64"
  shows "(pbft_propose sha nd p = Inl e \<longrightarrow> pb_next_sequence (pn_state nd) = - 1) \<and>
    (pbft_tick nd = Inl e \<longrightarrow> pbft_view nd = - 1) \<and>
    (pbft_handle_message nd m = Inl e \<longrightarrow>
       pb_highest_committed_seq (pn_state nd) = - 1 \<and> (\<exists>v r l. msg_payload m = Pbft (ViewChange v r l)))"
  using pbft_propose_panics [OF assms] pbft_tick_panics [OF assms] pbft_handle_panics [OF assms] by blast

theorem pbft_panics_witness:
  "pbft_propose demo_sha ((pbft_new (NodeId 0) 4)\<lparr>pn_state := (pn_state (pbft_new (NodeId 0) 4))\<lparr>pb_next_sequence := - 1\<rparr>\<rparr>)
     (Payload []) = Inl ArithmeticOverflow \<and>
   pbft_tick (pbft_new (NodeId 1) 4) \<noteq> Inl ArithmeticOverflow"
proof
  show "pbft_tick (pbft_new (NodeId 1) 4) \<noteq> Inl ArithmeticOverflow"
    using pbft_panics [of "pbft_new (NodeId 1) 4" demo_sha "Payload []" ArithmeticOverflow] by (auto simp: pbft_new_def)
qed code_simp

text \<open>
  Digests are never verified: handling a message whose digest was corrupted leaves a node in
  the same state, or panics in the same way, as handling the original.
\<close>

theorem pbft_digest_unverified:
  "map_sum id fst (pbft_handle_message nd (corrupt_digest m)) = map_sum id fst (pbft_handle_message nd m)"
  by (rule pbft_digest_state)

text \<open>
  C18: Every node of every reachable state is well formed: each slot has left its idle phase,
  belongs to the current view unless committed, is prepared only with \<open>2f\<close> prepare voters and
  committed only with \<open>2f + 1\<close> commit voters; payloads are pending exactly for the uncommitted
  slots, and no committed number exceeds the recorded highest one.
\<close>

theorem pbft_reachable_wf:
  assumes "\<forall>i\<in>ids. nodes i = pbft_new i n"
    and "net_reach timers (pbft_vtable sha) ids pbft_view pbft_entries (net_init nodes) s" and "i \<in> ids"
  shows "pbft_wf (nt_nodes s i) \<and> pn_id (nt_nodes s i) = i \<and> pn_cluster_size (nt_nodes s i) = n"
proof -
  have start: "\<forall>i\<in>ids. pbe.backed_node sha n {} i (nodes i)" using assms(1) pbft_new_backed by simp
  show ?thesis
    using pbe.reach_backed [OF start assms(2)] assms(3)
    by (simp add: pbe.backed_net_def pbe.backed_node_def pbft_member_def)
qed

theorem pbft_reachable_wf_witness:
  "\<exists>(s :: pbft_node net). (\<exists>e. (0, e) \<in> set (nt_decided s (NodeId 1))) \<and> pbft_wf (nt_nodes s (NodeId 1))"
proof -
  obtain s e where s: "net_reach False demo_pbft (set (node_ids 4)) pbft_view pbft_entries
      (net_init (node_at demo_pbft (pbft_nodes 4))) s" "(0, e) \<in> set (nt_decided s (NodeId 1))"
    using pbft_demo_run by blast
  have "NodeId 1 \<in> set (node_ids 4)" by (simp add: mem_node_ids_iff)
  from pbft_reachable_wf [OF pbft_node_at s(1) this] s(2) show ?thesis by auto
qed

end
