(* ===== verification/HsInv.thy ===== *)
theory HsInv
  imports HotStuffNode
begin

text \<open>
  The HotStuff node on its own: its well-formedness invariant, what every method keeps of it,
  and the trait's contract, discharged for the HotStuff methods.
\<close>

section \<open>Inversion of the helpers\<close>

definition hs_f :: "usize \<Rightarrow> usize" where
  "hs_f n = (n - 1) div 3"

lemma hs_quorum_Inr [res_simps]:
  "hs_quorum nd = Inr q \<longleftrightarrow> 0 < hn_cluster_size nd \<and> q = 2 * hs_f (hn_cluster_size nd) + 1"
  by (auto simp: hs_quorum_def hs_f_def sub_usize_def Let_def split: if_splits)

lemma hs_leader_Inr [res_simps]:
  "hs_leader_for_view nd v = Inr p \<longleftrightarrow>
     word_of_nat (hn_cluster_size nd) \<noteq> (0 :: u64) \<and> p = NodeId (v mod word_of_nat (hn_cluster_size nd))"
  by (auto simp: hs_leader_for_view_def rem_u64_def split: if_splits)

section \<open>The invariant\<close>

text \<open>
  A slot under key \<open>sq\<close> of a node in view \<open>v\<close>: it has left \<open>HsIdle\<close>, its voter sets
  are finite, and unless decided it belongs to the current view.  A payload is pending exactly
  for the undecided slots; the timer never exceeds its start value.
\<close>

definition hs_slot_ok :: "ViewNumber \<Rightarrow> SequenceNumber \<Rightarrow> hs_slot \<Rightarrow> bool" where
  "hs_slot_ok v sq slot \<longleftrightarrow>
     ss_sequence slot = sq \<and> ss_phase slot \<noteq> HsIdle \<and>
     finite (ss_prepare_voters slot) \<and> finite (ss_precommit_voters slot) \<and> finite (ss_commit_voters slot) \<and>
     ss_view slot \<le> v \<and> (ss_phase slot \<noteq> HsDecided \<longrightarrow> ss_view slot = v)"

definition hs_state_ok :: "hs_state \<Rightarrow> bool" where
  "hs_state_ok st \<longleftrightarrow>
     (\<forall>sq slot. hs_slots st sq = Some slot \<longrightarrow> hs_slot_ok (hs_view st) sq slot) \<and>
     (\<forall>sq. hs_pending_payloads st sq \<noteq> None \<longleftrightarrow>
        (\<exists>slot. hs_slots st sq = Some slot \<and> ss_phase slot \<noteq> HsDecided)) \<and>
     hs_view_change_timeout st \<le> HS_VIEW_CHANGE_TIMEOUT \<and>
     (\<forall>v. finite (set_at (hs_new_view_messages st) v))"

definition hs_wf :: "hs_node \<Rightarrow> bool" where
  "hs_wf nd \<longleftrightarrow>
     hn_current_view nd = hs_view (hn_state nd) \<and>
     hn_peer_ids nd = peers_of (hn_id nd) (hn_cluster_size nd) \<and>
     hs_state_ok (hn_state nd)"

lemma hs_new_wf: "hs_wf (hs_new i n)"
  by (simp add: hs_wf_def hs_new_def hs_state_ok_def HS_VIEW_CHANGE_TIMEOUT_def)

lemma hs_state_ok_timeout: "hs_state_ok st \<Longrightarrow> hs_view_change_timeout st \<le> HS_VIEW_CHANGE_TIMEOUT"
  by (simp add: hs_state_ok_def)

lemma hs_state_ok_votes: "hs_state_ok st \<Longrightarrow> finite (set_at (hs_new_view_messages st) v)"
  by (simp add: hs_state_ok_def)

text \<open>Updates that leave the slots and the pending payloads alone.\<close>

lemma hs_state_ok_frame:
  assumes "hs_state_ok st"
    and "hs_view st' = hs_view st" and "hs_slots st' = hs_slots st"
    and "hs_pending_payloads st' = hs_pending_payloads st"
    and "hs_view_change_timeout st' \<le> HS_VIEW_CHANGE_TIMEOUT"
    and "\<And>v. finite (set_at (hs_new_view_messages st') v)"
  shows "hs_state_ok st'"
  using assms unfolding hs_state_ok_def by simp

lemma hs_start_slot_ok:
  assumes "hs_state_ok st"
    and "hs_view st' = hs_view st"
    and "hs_slots st' = (hs_slots st)(sq \<mapsto> (hs_slot_new (hs_view st) sq)\<lparr>ss_phase := HsPrepare, ss_prepare_voters := A\<rparr>)"
    and "finite A"
    and "hs_pending_payloads st' = (hs_pending_payloads st)(sq \<mapsto> p)"
    and "hs_view_change_timeout st' \<le> HS_VIEW_CHANGE_TIMEOUT"
    and "hs_new_view_messages st' = hs_new_view_messages st"
  shows "hs_state_ok st'"
  using assms unfolding hs_state_ok_def by (auto simp: hs_slot_ok_def hs_slot_new_def)

lemma hs_update_slot_ok:
  assumes "hs_state_ok st" and "hs_slots st sq = Some slot" and "ss_phase slot \<noteq> HsDecided"
    and "hs_slot_ok (hs_view st) sq slot'" and "ss_phase slot' \<noteq> HsDecided"
  shows "hs_state_ok (st\<lparr>hs_slots := (hs_slots st)(sq \<mapsto> slot')\<rparr>)"
  using assms by (auto simp: hs_state_ok_def)

lemma hs_take_pending_simps [simp]:
  "hs_view (hs_take_pending st sq) = hs_view st"
  "hs_slots (hs_take_pending st sq) = hs_slots st"
  "hs_next_sequence (hs_take_pending st sq) = hs_next_sequence st"
  "hs_view_change_timeout (hs_take_pending st sq) = hs_view_change_timeout st"
  "hs_new_view_messages (hs_take_pending st sq) = hs_new_view_messages st"
  "hs_pending_payloads (hs_take_pending st sq) = (hs_pending_payloads st)(sq := None)"
  by (auto simp: hs_take_pending_def split: option.splits)

lemma hs_take_pending_committed:
  "hs_committed (hs_take_pending st sq) =
     hs_committed st @ (case hs_pending_payloads st sq of None \<Rightarrow> [] | Some p \<Rightarrow> [\<lparr>ce_sequence = sq, ce_payload = p\<rparr>])"
  by (auto simp: hs_take_pending_def split: option.splits)

lemma hs_decided_slot_ok:
  assumes "hs_state_ok st" and "hs_slots st' = (hs_slots st)(sq \<mapsto> slot')"
    and "hs_slot_ok (hs_view st) sq slot'" and "ss_phase slot' = HsDecided"
    and "hs_view st' = hs_view st" and "hs_pending_payloads st' = hs_pending_payloads st"
    and "hs_view_change_timeout st' = hs_view_change_timeout st"
    and "hs_new_view_messages st' = hs_new_view_messages st"
  shows "hs_state_ok (hs_take_pending st' sq)"
  using assms by (auto simp: hs_state_ok_def)

lemma hs_enter_new_view_ok:
  assumes "hs_state_ok st" and "hs_view st < v"
  shows "hs_state_ok (hs_enter_new_view st v)"
  using assms by (fastforce simp: hs_state_ok_def hs_enter_new_view_def hs_slot_ok_def)

lemma hs_track_qc_simps [simp]:
  "hs_view (hs_track_qc st v ph) = hs_view st"
  "hs_slots (hs_track_qc st v ph) = hs_slots st"
  "hs_next_sequence (hs_track_qc st v ph) = hs_next_sequence st"
  "hs_pending_payloads (hs_track_qc st v ph) = hs_pending_payloads st"
  "hs_view_change_timeout (hs_track_qc st v ph) = hs_view_change_timeout st"
  "hs_new_view_messages (hs_track_qc st v ph) = hs_new_view_messages st"
  "hs_committed (hs_track_qc st v ph) = hs_committed st"
  by (simp_all add: hs_track_qc_def)

lemma hs_track_qc_ok: "hs_state_ok st \<Longrightarrow> hs_state_ok (hs_track_qc st v ph)"
  by (simp add: hs_state_ok_def)

section \<open>Every method keeps it\<close>

lemma hs_propose_wf:
  assumes "hs_wf nd" and "hs_propose sha nd p = Inr (nd', r, out)"
  shows "hs_wf nd'"
proof -
  have ok: "hs_state_ok (hn_state nd)" using assms(1) by (simp add: hs_wf_def)
  note start = hs_start_slot_ok [OF ok _ _ _ _ _ _, where p = p and A = "{hn_id nd}"]
  show ?thesis
    using assms hs_state_ok_timeout [OF ok]
    by (auto simp: hs_propose_def hs_wf_def Let_def res_simps split: if_splits intro!: start)
qed

text \<open>The replica's side of a proposal, on a state that has the proposal's view.\<close>

lemma hs_accept_ok:
  assumes "hs_state_ok st" and "hs_view st = v"
  shows "hs_state_ok (st\<lparr>hs_leader_active := True, hs_view_change_timeout := HS_VIEW_CHANGE_TIMEOUT,
    hs_slots := (hs_slots st)(sq \<mapsto> (hs_slot_new v sq)\<lparr>ss_phase := HsPrepare\<rparr>),
    hs_pending_payloads := (hs_pending_payloads st)(sq \<mapsto> p)\<rparr>)"
proof -
  have "(hs_slot_new v sq)\<lparr>ss_phase := HsPrepare\<rparr> = (hs_slot_new v sq)\<lparr>ss_phase := HsPrepare, ss_prepare_voters := {}\<rparr>"
    by (simp add: hs_slot_new_def)
  then show ?thesis
    using assms(2) by (intro hs_start_slot_ok [OF assms(1), where A = "{}" and p = p and sq = sq]) auto
qed

lemma hs_on_propose_cases:
  assumes "hs_on_propose nd v sq d p = Inr (nd', out)"
  obtains (stale) "v < hs_view (hn_state nd)" "nd' = nd" "out = []"
  | (accept) st where
      "st = (if hs_view (hn_state nd) < v then hs_enter_new_view (hn_state nd) v else hn_state nd)"
      "hs_view st = v" "hs_view (hn_state nd) \<le> v"
      "hn_id nd' = hn_id nd" "hn_cluster_size nd' = hn_cluster_size nd" "hn_peer_ids nd' = hn_peer_ids nd"
      "hn_current_view nd' = (if hs_view (hn_state nd) < v then v else hn_current_view nd)"
      "hn_state nd' = st\<lparr>hs_leader_active := True, hs_view_change_timeout := HS_VIEW_CHANGE_TIMEOUT,
         hs_slots := (hs_slots st)(sq \<mapsto> (hs_slot_new v sq)\<lparr>ss_phase := HsPrepare\<rparr>),
         hs_pending_payloads := (hs_pending_payloads st)(sq \<mapsto> p)\<rparr>"
      "word_of_nat (hn_cluster_size nd) \<noteq> (0 :: u64)"
      "out = [mk_msg (hn_id nd) (NodeId (v mod word_of_nat (hn_cluster_size nd)))
                (HotStuff (Vote v sq d TagPrepare (hn_id nd)))]"
proof (cases "v < hs_view (hn_state nd)")
  case True
  then have "\<not> hs_view (hn_state nd) < v" "v \<noteq> hs_view (hn_state nd)" by auto
  then have "nd' = nd \<and> out = []" using assms by (simp add: hs_on_propose_def Let_def)
  with True show ?thesis by (intro stale) auto
next
  case False
  then have le: "hs_view (hn_state nd) \<le> v" by simp
  let ?st = "if hs_view (hn_state nd) < v then hs_enter_new_view (hn_state nd) v else hn_state nd"
  have "hs_view ?st = v" using le by (auto simp: hs_enter_new_view_def)
  then show ?thesis
    using assms le
    by (intro accept [of ?st]) (auto simp: hs_on_propose_def Let_def res_simps split: if_splits)
qed

lemma hs_on_propose_wf:
  assumes wf: "hs_wf nd" and step: "hs_on_propose nd v sq d p = Inr (nd', out)"
  shows "hs_wf nd'"
  using step
proof (cases rule: hs_on_propose_cases)
  case stale
  then show ?thesis using wf by simp
next
  case (accept st)
  have ok: "hs_state_ok (hn_state nd)" using wf by (simp add: hs_wf_def)
  then have "hs_state_ok st" using accept(1) hs_enter_new_view_ok by auto
  from hs_accept_ok [OF this accept(2)] show ?thesis
    using accept wf by (auto simp: hs_wf_def)
qed

text \<open>What counting a vote does to a slot, and when it ends in a certificate.\<close>

lemma hs_count_vote_Some:
  assumes "hs_count_vote me q slot ph voter = Some (slot', action)"
  shows "ss_view slot' = ss_view slot \<and> ss_sequence slot' = ss_sequence slot \<and>
    ss_phase slot \<notin> {HsIdle, HsDecided} \<and> ss_phase slot' \<noteq> HsIdle \<and>
    (finite (ss_prepare_voters slot) \<longrightarrow> finite (ss_prepare_voters slot')) \<and>
    (finite (ss_precommit_voters slot) \<longrightarrow> finite (ss_precommit_voters slot')) \<and>
    (finite (ss_commit_voters slot) \<longrightarrow> finite (ss_commit_voters slot')) \<and>
    (case action of
       None \<Rightarrow> ss_phase slot' = ss_phase slot
     | Some (tag, vc, decide) \<Rightarrow>
         tag = ph \<and> q \<le> vc \<and> decide = (ph = TagCommit) \<and> (ss_phase slot' = HsDecided \<longleftrightarrow> decide))"
  using assms by (cases ph) (auto simp: hs_count_vote_def Let_def split: if_splits)

lemma hs_on_vote_cases:
  assumes "hs_on_vote nd v sq d ph voter = Inr (nd', out)"
  obtains (ignored) "nd' = nd" "out = []"
  | (counted) slot slot' where
      "v = hs_view (hn_state nd)" "hs_slots (hn_state nd) sq = Some slot"
      "hs_count_vote (hn_id nd) (2 * hs_f (hn_cluster_size nd) + 1) slot ph voter = Some (slot', None)"
      "nd' = nd\<lparr>hn_state := (hn_state nd)\<lparr>hs_slots := (hs_slots (hn_state nd))(sq \<mapsto> slot')\<rparr>\<rparr>" "out = []"
  | (certified) slot slot' vc where
      "v = hs_view (hn_state nd)" "hs_slots (hn_state nd) sq = Some slot"
      "NodeId (v mod word_of_nat (hn_cluster_size nd)) = hn_id nd"
      "hs_count_vote (hn_id nd) (2 * hs_f (hn_cluster_size nd) + 1) slot ph voter =
         Some (slot', Some (ph, vc, ph = TagCommit))"
      "nd' = nd\<lparr>hn_state :=
         (let st = (hn_state nd)\<lparr>hs_slots := (hs_slots (hn_state nd))(sq \<mapsto> slot'),
                      hs_highest_qc_view := v, hs_highest_qc_phase := ph\<rparr>
          in if ph = TagCommit then hs_take_pending st sq else st)\<rparr>"
      "out = broadcast_hotstuff nd (QuorumCertificate v sq d ph vc)"
proof -
  have split: "action = None \<or> (\<exists>vc. action = Some (ph, vc, ph = TagCommit))"
    if "hs_count_vote me q slot ph voter = Some (slot', action)" for me q slot slot' action
    using hs_count_vote_Some [OF that] by (auto split: option.splits)
  show ?thesis
  proof (cases "nd' = nd \<and> out = []")
    case True
    then show ?thesis using ignored by simp
  next
    case False
    then obtain slot slot' action where
      v: "v = hs_view (hn_state nd)" "hs_slots (hn_state nd) sq = Some slot"
        "NodeId (v mod word_of_nat (hn_cluster_size nd)) = hn_id nd"
      and c: "hs_count_vote (hn_id nd) (2 * hs_f (hn_cluster_size nd) + 1) slot ph voter = Some (slot', action)"
      and r: "(case action of
          None \<Rightarrow> Inr (nd\<lparr>hn_state := (hn_state nd)\<lparr>hs_slots := (hs_slots (hn_state nd))(sq \<mapsto> slot')\<rparr>\<rparr>, [])
        | Some (qc_phase, vote_count, do_commit) \<Rightarrow>
            let st2 = (hn_state nd)\<lparr>hs_slots := (hs_slots (hn_state nd))(sq \<mapsto> slot'),
                        hs_highest_qc_view := v, hs_highest_qc_phase := qc_phase\<rparr>;
                st3 = (if do_commit then hs_take_pending st2 sq else st2)
            in Inr (nd\<lparr>hn_state := st3\<rparr>,
                    broadcast_hotstuff nd (QuorumCertificate v sq d qc_phase vote_count))) = (Inr (nd', out) :: (hs_node \<times> network_message list) res)"
      using assms
      by (simp add: hs_on_vote_def Let_def res_simps split: if_splits option.splits) (auto simp: Let_def)
    from split [OF c] show ?thesis
    proof (elim disjE exE)
      assume "action = None"
      then show ?thesis using counted [OF v(1,2)] c r by simp
    next
      fix vc
      assume "action = Some (ph, vc, ph = TagCommit)"
      then show ?thesis using certified [OF v] c r by (simp add: Let_def)
    qed
  qed
qed

lemma hs_on_vote_wf:
  assumes wf: "hs_wf nd" and step: "hs_on_vote nd v sq d ph voter = Inr (nd', out)"
  shows "hs_wf nd'"
proof -
  let ?st = "hn_state nd"
  have ok: "hs_state_ok ?st" using wf by (simp add: hs_wf_def)
  have slot_ok: "hs_slot_ok (hs_view ?st) sq slot' \<and> ss_phase slot \<noteq> HsDecided"
    if "hs_slots ?st sq = Some slot" "hs_count_vote me q slot ph voter = Some (slot', action)"
    for me q slot slot' action
  proof -
    have "hs_slot_ok (hs_view ?st) sq slot" using ok that(1) by (simp add: hs_state_ok_def)
    then show ?thesis using hs_count_vote_Some [OF that(2)] by (auto simp: hs_slot_ok_def)
  qed
  from step show ?thesis
  proof (cases rule: hs_on_vote_cases)
    case ignored
    then show ?thesis using wf by simp
  next
    case (counted slot slot')
    have "hs_state_ok (?st\<lparr>hs_slots := (hs_slots ?st)(sq \<mapsto> slot')\<rparr>)"
      using slot_ok [OF counted(2,3)] hs_count_vote_Some [OF counted(3)]
      by (intro hs_update_slot_ok [OF ok counted(2)]) auto
    then show ?thesis using counted(4) wf by (simp add: hs_wf_def)
  next
    case (certified slot slot' vc)
    note s = slot_ok [OF certified(2,4)] and c = hs_count_vote_Some [OF certified(4)]
    let ?st2 = "?st\<lparr>hs_slots := (hs_slots ?st)(sq \<mapsto> slot'), hs_highest_qc_view := v, hs_highest_qc_phase := ph\<rparr>"
    have "hs_state_ok (if ph = TagCommit then hs_take_pending ?st2 sq else ?st2)"
    proof (cases "ph = TagCommit")
      case True
      then show ?thesis
        using s c by (auto intro!: hs_decided_slot_ok [OF ok, of _ sq slot'])
    next
      case False
      have "hs_state_ok (?st\<lparr>hs_slots := (hs_slots ?st)(sq \<mapsto> slot')\<rparr>)"
        using s c False by (intro hs_update_slot_ok [OF ok certified(2)]) auto
      then show ?thesis using False by (simp add: hs_state_ok_def)
    qed
    then show ?thesis using certified(5) wf by (auto simp: hs_wf_def Let_def)
  qed
qed

lemma hs_advance_slot_ok:
  assumes ok: "hs_state_ok st" and "a \<notin> {HsIdle, HsDecided}" and "b \<notin> {HsIdle, HsDecided}"
  shows "hs_state_ok (hs_advance_slot st sq a b)"
proof (cases "hs_slots st sq")
  case None
  then show ?thesis using ok by (simp add: hs_advance_slot_def)
next
  case (Some slot)
  then have s: "hs_slot_ok (hs_view st) sq slot" using ok by (simp add: hs_state_ok_def)
  show ?thesis
  proof (cases "ss_phase slot = a")
    case True
    then have "hs_state_ok (st\<lparr>hs_slots := (hs_slots st)(sq \<mapsto> slot\<lparr>ss_phase := b\<rparr>)\<rparr>)"
      using s assms(2,3) by (intro hs_update_slot_ok [OF ok Some]) (auto simp: hs_slot_ok_def)
    then show ?thesis using Some True by (simp add: hs_advance_slot_def)
  next
    case False
    then show ?thesis using Some ok by (simp add: hs_advance_slot_def)
  qed
qed

lemma hs_decide_slot_ok:
  assumes ok: "hs_state_ok st"
  shows "hs_state_ok (hs_decide_slot st sq)"
proof (cases "hs_slots st sq")
  case None
  then show ?thesis using ok by (simp add: hs_decide_slot_def)
next
  case (Some slot)
  then have "hs_slot_ok (hs_view st) sq slot" using ok by (simp add: hs_state_ok_def)
  then have "hs_slot_ok (hs_view st) sq (slot\<lparr>ss_phase := HsDecided\<rparr>)" by (simp add: hs_slot_ok_def)
  then have "hs_state_ok (hs_take_pending (st\<lparr>hs_slots := (hs_slots st)(sq \<mapsto> slot\<lparr>ss_phase := HsDecided\<rparr>)\<rparr>) sq)"
    by (intro hs_decided_slot_ok [OF ok]) auto
  then show ?thesis using Some ok by (simp add: hs_decide_slot_def)
qed

text \<open>The states of the two helpers differ from the old one in slots, payloads and entries only.\<close>

lemma hs_slot_helpers_simps [simp]:
  "hs_view (hs_advance_slot st sq a b) = hs_view st"
  "hs_next_sequence (hs_advance_slot st sq a b) = hs_next_sequence st"
  "hs_committed (hs_advance_slot st sq a b) = hs_committed st"
  "hs_pending_payloads (hs_advance_slot st sq a b) = hs_pending_payloads st"
  "hs_view (hs_decide_slot st sq) = hs_view st"
  "hs_next_sequence (hs_decide_slot st sq) = hs_next_sequence st"
  by (auto simp: hs_advance_slot_def hs_decide_slot_def split: option.splits)

lemma hs_on_qc_wf:
  assumes wf: "hs_wf nd" and step: "hs_on_qc nd v sq d ph vc = Inr (nd', out)"
  shows "hs_wf nd'"
proof -
  have "hs_state_ok (hs_track_qc (hn_state nd) v ph)"
    using wf by (simp add: hs_wf_def hs_track_qc_ok)
  note ok = this hs_advance_slot_ok [OF this] hs_decide_slot_ok [OF this]
  show ?thesis
    using step wf ok
    by (cases ph) (auto simp: hs_on_qc_def hs_wf_def Let_def res_simps split: if_splits)
qed

lemma hs_on_new_view_wf:
  assumes wf: "hs_wf nd" and step: "hs_on_new_view nd v j = Inr (nd', out)"
  shows "hs_wf nd'"
proof -
  let ?st = "hn_state nd"
  let ?st1 = "?st\<lparr>hs_new_view_messages := (hs_new_view_messages ?st)(v \<mapsto> insert j (set_at (hs_new_view_messages ?st) v))\<rparr>"
  have ok: "hs_state_ok ?st" using wf by (simp add: hs_wf_def)
  have ok1: "hs_state_ok ?st1"
    using hs_state_ok_timeout [OF ok] hs_state_ok_votes [OF ok] by (intro hs_state_ok_frame [OF ok]) auto
  then have ok2: "hs_view ?st < v \<Longrightarrow> hs_state_ok (hs_enter_new_view ?st1 v)"
    by (intro hs_enter_new_view_ok) auto
  show ?thesis
    using step wf ok1 ok2
    by (auto simp: hs_on_new_view_def hs_wf_def Let_def res_simps not_le hs_enter_new_view_def split: if_splits)
qed

lemma hs_handle_wf:
  "hs_wf nd \<Longrightarrow> hs_handle_message nd m = Inr (nd', out) \<Longrightarrow> hs_wf nd'"
  by (auto simp: hs_handle_message_def split: protocol_message.splits hotstuff_message.splits
      dest: hs_on_propose_wf hs_on_vote_wf hs_on_qc_wf hs_on_new_view_wf)

lemma hs_tick_wf:
  assumes wf: "hs_wf nd" and step: "hs_tick nd = Inr (nd', out)"
  shows "hs_wf nd'"
proof -
  have ok: "hs_state_ok (hn_state nd)" using wf by (simp add: hs_wf_def)
  note frame = hs_state_ok_frame [OF ok]
  have "sub_u64 t 1 = Inr t' \<Longrightarrow> t \<le> HS_VIEW_CHANGE_TIMEOUT \<Longrightarrow> t' \<le> HS_VIEW_CHANGE_TIMEOUT" for t t'
    by (drule sub_u64_unat) (simp add: word_le_nat_alt)
  then show ?thesis
    using assms hs_state_ok_timeout [OF ok] hs_state_ok_votes [OF ok]
    by (auto simp: hs_tick_def hs_wf_def Let_def res_simps split: if_splits intro!: frame)
qed

lemma hs_poll_wf: "hs_wf nd \<Longrightarrow> hs_wf (fst (hs_poll_committed nd))"
  by (simp add: hs_poll_committed_def hs_wf_def hs_state_ok_def)

end
