(* ===== verification/HsSafety.thy ===== *)
theory HsSafety
  imports HsInv ClusterSafety Workload
begin

text \<open>
  HotStuff discharges the trait's contract and the sequenced-protocol contract: a
  \<open>Propose\<close> is the message that binds a payload, and the leader of the view sends it.
\<close>

section \<open>What the handlers do\<close>

definition hs_binding :: "network_message \<Rightarrow> (ViewNumber \<times> SequenceNumber \<times> payload) option" where
  "hs_binding m = (case msg_payload m of HotStuff (Propose v sq d p jv jp) \<Rightarrow> Some (v, sq, p) | _ \<Rightarrow> None)"

fun hs_view_of :: "hotstuff_message \<Rightarrow> ViewNumber" where
  "hs_view_of (Propose v sq d p jv jp) = v"
| "hs_view_of (Vote v sq d ph i) = v"
| "hs_view_of (QuorumCertificate v sq d ph c) = v"
| "hs_view_of (HsNewView nv hv hp i) = nv"

definition hs_msg_view :: "network_message \<Rightarrow> ViewNumber" where
  "hs_msg_view m = (case msg_payload m of HotStuff hm \<Rightarrow> hs_view_of hm | _ \<Rightarrow> 0)"

lemma hs_corrupt_digest [simp]:
  "hs_binding (corrupt_digest m) = hs_binding m" "hs_msg_view (corrupt_digest m) = hs_msg_view m"
  by (cases "msg_payload m" rule: corrupt_payload_digest.cases;
      simp add: corrupt_digest_def hs_binding_def hs_msg_view_def)+

lemma mk_hs_msg [simp]:
  "hs_binding (mk_msg i j (HotStuff m)) = (case m of Propose v sq d p jv jp \<Rightarrow> Some (v, sq, p) | _ \<Rightarrow> None)"
  "hs_msg_view (mk_msg i j (HotStuff m)) = hs_view_of m"
  by (simp_all add: hs_binding_def hs_msg_view_def)

text \<open>
  The effect of a message that carries a view and makes a binding: identity and size stay, what
  is sent is signed and binds nothing, the view moves at most to the message's, entries are only
  added and were pending, and what is pending afterwards was pending or is the binding.
\<close>

definition hs_effect ::
  "ViewNumber \<Rightarrow> (ViewNumber \<times> SequenceNumber \<times> payload) option \<Rightarrow> hs_node \<Rightarrow> hs_node \<Rightarrow> network_message list \<Rightarrow> bool" where
  "hs_effect v b nd nd' out \<longleftrightarrow>
     (let st = hn_state nd; st' = hn_state nd' in
      hn_id nd' = hn_id nd \<and> hn_cluster_size nd' = hn_cluster_size nd \<and>
      hs_view st \<le> hs_view st' \<and> hs_view st' \<le> max (hs_view st) v \<and>
      (hs_view st' = hs_view st \<longrightarrow> hs_next_sequence st' = hs_next_sequence st) \<and>
      (\<forall>x\<in>set out. msg_from x = hn_id nd \<and> hs_binding x = None \<and> hs_msg_view x \<le> max (hs_view st) v) \<and>
      (\<forall>sq p. hs_pending_payloads st' sq = Some p \<longrightarrow>
         hs_view st' = hs_view st \<and> hs_pending_payloads st sq = Some p \<or> b = Some (hs_view st', sq, p)) \<and>
      (\<exists>es. hs_committed st' = hs_committed st @ es \<and>
         (\<forall>e\<in>set es. hs_pending_payloads st (ce_sequence e) = Some (ce_payload e))))"

lemma hs_effect_none: "hs_effect v b nd nd []"
  by (simp add: hs_effect_def)

text \<open>A new state with the old view and numbering, fewer pending payloads and the entries they became.\<close>

lemma hs_effect_state:
  assumes "hs_view st' = hs_view (hn_state nd)" and "hs_next_sequence st' = hs_next_sequence (hn_state nd)"
    and "\<forall>x\<in>set out. msg_from x = hn_id nd \<and> hs_binding x = None \<and> hs_msg_view x \<le> max (hs_view (hn_state nd)) v"
    and "\<forall>sq p. hs_pending_payloads st' sq = Some p \<longrightarrow> hs_pending_payloads (hn_state nd) sq = Some p"
    and "\<exists>es. hs_committed st' = hs_committed (hn_state nd) @ es \<and>
      (\<forall>e\<in>set es. hs_pending_payloads (hn_state nd) (ce_sequence e) = Some (ce_payload e))"
  shows "hs_effect v b nd (nd\<lparr>hn_state := st'\<rparr>) out"
  using assms by (simp add: hs_effect_def)

lemma hs_take_pending_entries:
  "\<exists>es. hs_committed (hs_take_pending st sq) = hs_committed st @ es \<and>
     (\<forall>e\<in>set es. hs_pending_payloads st (ce_sequence e) = Some (ce_payload e))"
  by (auto simp: hs_take_pending_committed split: option.splits)

lemma hs_decide_slot_entries:
  "\<exists>es. hs_committed (hs_decide_slot st sq) = hs_committed st @ es \<and>
     (\<forall>e\<in>set es. hs_pending_payloads st (ce_sequence e) = Some (ce_payload e))"
  by (auto simp: hs_decide_slot_def hs_take_pending_committed split: option.splits)

lemma hs_decide_slot_pending:
  "hs_pending_payloads (hs_decide_slot st sq) s = Some p \<Longrightarrow> hs_pending_payloads st s = Some p"
  by (auto simp: hs_decide_slot_def split: option.splits if_splits)

lemma hs_on_propose_effect:
  assumes "hs_on_propose nd v sq d p = Inr (nd', out)"
  shows "hs_effect v (Some (v, sq, p)) nd nd' out"
  using assms
proof (cases rule: hs_on_propose_cases)
  case stale
  then show ?thesis by (simp add: hs_effect_none)
next
  case (accept st)
  have "hs_committed st = hs_committed (hn_state nd)"
    "hs_view (hn_state nd) = v \<Longrightarrow> st = hn_state nd"
    "hs_view (hn_state nd) \<noteq> v \<Longrightarrow> hs_pending_payloads st = Map.empty"
    using accept(1,3) by (auto simp: hs_enter_new_view_def)
  then show ?thesis
    using accept(2-) by (cases "hs_view (hn_state nd) = v") (auto simp: hs_effect_def Let_def)
qed

lemma hs_on_vote_effect:
  assumes "hs_on_vote nd v sq d ph voter = Inr (nd', out)"
  shows "hs_effect v b nd nd' out"
  using assms
proof (cases rule: hs_on_vote_cases)
  case ignored
  then show ?thesis by (simp add: hs_effect_none)
next
  case (counted slot slot')
  then show ?thesis by (auto intro!: hs_effect_state)
next
  case (certified slot slot' vc)
  let ?st = "(hn_state nd)\<lparr>hs_slots := (hs_slots (hn_state nd))(sq \<mapsto> slot'),
    hs_highest_qc_view := v, hs_highest_qc_phase := ph\<rparr>"
  have "hs_effect v b nd (nd\<lparr>hn_state := (if ph = TagCommit then hs_take_pending ?st sq else ?st)\<rparr>) out"
    using certified(6) hs_take_pending_entries [of ?st sq]
    by (intro hs_effect_state) (auto simp: broadcast_hotstuff_def split: if_splits)
  then show ?thesis using certified(5) by (simp add: Let_def)
qed

lemma hs_on_qc_effect:
  assumes step: "hs_on_qc nd v sq d ph vc = Inr (nd', out)"
  shows "hs_effect v b nd nd' out"
proof -
  let ?st = "hs_track_qc (hn_state nd) v ph"
  have none: "hs_effect v b nd (nd\<lparr>hn_state := ?st\<rparr>) []"
    by (intro hs_effect_state) auto
  have advance: "hs_effect v b nd (nd\<lparr>hn_state := hs_advance_slot ?st sq x y\<rparr>)
      [mk_msg (hn_id nd) l (HotStuff (Vote v sq d t (hn_id nd)))]" for x y l t
    by (intro hs_effect_state) auto
  have decide: "hs_effect v b nd (nd\<lparr>hn_state := hs_decide_slot ?st sq\<rparr>) []"
    using hs_decide_slot_entries [of ?st sq] hs_decide_slot_pending [of ?st sq]
    by (intro hs_effect_state) auto
  show ?thesis
    using step none advance decide
    by (cases ph) (auto simp: hs_on_qc_def Let_def res_simps hs_effect_none split: if_splits)
qed

lemma hs_on_new_view_effect:
  assumes "hs_on_new_view nd v j = Inr (nd', out)"
  shows "hs_effect v b nd nd' out"
proof (cases "v \<le> hs_view (hn_state nd)")
  case True
  then show ?thesis using assms by (simp add: hs_on_new_view_def hs_effect_none Let_def)
next
  case False
  then show ?thesis
    using assms
    by (auto simp: hs_on_new_view_def Let_def res_simps hs_effect_def hs_enter_new_view_def max_def split: if_splits)
qed

lemma hs_handle_effect:
  assumes "hs_handle_message nd m = Inr (nd', out)"
  shows "hs_effect (hs_msg_view m) (hs_binding m) nd nd' out"
proof (cases "msg_payload m")
  case (HotStuff hm)
  then show ?thesis
    using assms
    by (cases hm) (simp_all add: hs_handle_message_def hs_msg_view_def hs_binding_def hs_on_propose_effect
        hs_on_vote_effect hs_on_qc_effect hs_on_new_view_effect)
qed (use assms in \<open>auto simp: hs_handle_message_def hs_effect_none\<close>)

lemma hs_propose_frame:
  assumes "hs_propose sha nd p = Inr (nd', r, out)"
  shows "hn_id nd' = hn_id nd \<and> hn_cluster_size nd' = hn_cluster_size nd \<and>
    (\<forall>x\<in>set out. msg_from x = hn_id nd) \<and> hs_committed (hn_state nd') = hs_committed (hn_state nd)"
  using assms by (auto simp: hs_propose_def Let_def res_simps broadcast_hotstuff_def split: if_splits)

lemma hs_propose_rejected: "hs_propose sha nd p = Inr (nd', NotLeader l, out) \<Longrightarrow> nd' = nd \<and> out = []"
  by (auto simp: hs_propose_def Let_def res_simps split: if_splits)

lemma hs_tick_frame:
  assumes "hs_tick nd = Inr (nd', out)"
  shows "hn_id nd' = hn_id nd \<and> hn_cluster_size nd' = hn_cluster_size nd \<and>
    (\<forall>x\<in>set out. msg_from x = hn_id nd \<and> hs_binding x = None) \<and>
    hs_committed (hn_state nd') = hs_committed (hn_state nd) \<and>
    hs_view (hn_state nd') = hs_view (hn_state nd) \<and>
    hs_next_sequence (hn_state nd') = hs_next_sequence (hn_state nd) \<and>
    hs_pending_payloads (hn_state nd') = hs_pending_payloads (hn_state nd)"
  using assms by (auto simp: hs_tick_def Let_def res_simps split: if_splits)

section \<open>The contracts\<close>

definition hs_member :: "usize \<Rightarrow> hs_node \<Rightarrow> bool" where
  "hs_member n nd \<longleftrightarrow> hs_wf nd \<and> hn_cluster_size nd = n"

lemma hs_propose_binds:
  assumes "hs_member n nd" and "hs_propose sha nd p = Inr (nd', Accepted, out)"
  shows "leader_of n (hs_view (hn_state nd)) = hn_id nd \<and>
    hs_view (hn_state nd') = hs_view (hn_state nd) \<and>
    hs_next_sequence (hn_state nd) < hs_next_sequence (hn_state nd') \<and>
    hs_pending_payloads (hn_state nd') = (hs_pending_payloads (hn_state nd))(hs_next_sequence (hn_state nd) \<mapsto> p) \<and>
    (\<forall>x\<in>set out. hs_msg_view x \<le> hs_view (hn_state nd) \<and>
       (\<forall>b. hs_binding x = Some b \<longrightarrow> b = (hs_view (hn_state nd), hs_next_sequence (hn_state nd), p)))"
  using assms
  by (auto simp: hs_propose_def hs_member_def Let_def res_simps leader_of_def broadcast_hotstuff_def
      add_u64_less split: if_splits)

interpretation hb: consensus_node "hs_vtable sha" "hs_member n" "\<lambda>nd. hs_committed (hn_state nd)"
  for sha n
proof
  fix nd nd' :: hs_node and p m r out l
  show "vt_propose (hs_vtable sha) nd p = Inr (nd', NotLeader l, out) \<Longrightarrow> nd' = nd \<and> out = []"
    using hs_propose_rejected by simp
  assume "vt_handle_message (hs_vtable sha) nd m = Inr (nd', out)"
  then have eff: "hs_effect (hs_msg_view m) (hs_binding m) nd nd' out" by (simp add: hs_handle_effect)
  show "vt_id (hs_vtable sha) nd' = vt_id (hs_vtable sha) nd"
    "\<forall>x\<in>set out. msg_from x = vt_id (hs_vtable sha) nd"
    "\<exists>es. hs_committed (hn_state nd') = hs_committed (hn_state nd) @ es"
    using eff by (auto simp: hs_effect_def Let_def)
  show "hs_member n nd \<Longrightarrow> hs_member n nd'"
    using eff hs_handle_wf [of nd m nd' out] \<open>vt_handle_message _ nd m = _\<close>
    by (simp add: hs_member_def hs_effect_def Let_def)
qed (auto simp: hs_poll_committed_def hs_member_def hs_poll_wf [simplified hs_poll_committed_def fst_conv]
    dest: hs_propose_frame hs_tick_frame hs_propose_wf hs_tick_wf)

interpretation hbs: sequenced_protocol "hs_vtable sha" "hs_member n" "\<lambda>nd. hs_committed (hn_state nd)"
  "\<lambda>nd. hs_view (hn_state nd)" "\<lambda>nd. hs_next_sequence (hn_state nd)"
  "\<lambda>nd. hs_pending_payloads (hn_state nd)" "leader_of n" hs_binding hs_msg_view
  for sha n
proof
  fix nd nd' :: hs_node and p m out sq
  show "leader_of n (hs_view (hn_state nd)) = vt_id (hs_vtable sha) nd \<and>
      hs_view (hn_state nd') = hs_view (hn_state nd) \<and>
      hs_next_sequence (hn_state nd) < hs_next_sequence (hn_state nd') \<and>
      hs_pending_payloads (hn_state nd') = (hs_pending_payloads (hn_state nd))(hs_next_sequence (hn_state nd) \<mapsto> p) \<and>
      (\<forall>x\<in>set out. hs_msg_view x \<le> hs_view (hn_state nd) \<and>
        (\<forall>b. hs_binding x = Some b \<longrightarrow> b = (hs_view (hn_state nd), hs_next_sequence (hn_state nd), p)))"
    if "hs_member n nd" "vt_propose (hs_vtable sha) nd p = Inr (nd', Accepted, out)"
    using hs_propose_binds that by simp
next
  fix nd nd' :: hs_node and m out sq p
  assume "vt_handle_message (hs_vtable sha) nd m = Inr (nd', out)"
  then have "hs_effect (hs_msg_view m) (hs_binding m) nd nd' out"
    by (simp add: hs_handle_effect)
  note eff = this [unfolded hs_effect_def Let_def]
  show "hs_view (hn_state nd) \<le> hs_view (hn_state nd') \<and>
      hs_view (hn_state nd') \<le> max (hs_view (hn_state nd)) (hs_msg_view m) \<and>
      (hs_view (hn_state nd') = hs_view (hn_state nd) \<longrightarrow>
        hs_next_sequence (hn_state nd') = hs_next_sequence (hn_state nd))"
    using eff by blast
  show "\<forall>x\<in>set out. hs_binding x = None \<and> hs_msg_view x \<le> max (hs_view (hn_state nd)) (hs_msg_view m)"
    using eff by blast
  show "hs_pending_payloads (hn_state nd') sq = Some p \<Longrightarrow>
      hs_view (hn_state nd') = hs_view (hn_state nd) \<and> hs_pending_payloads (hn_state nd) sq = Some p \<or>
      hs_binding m = Some (hs_view (hn_state nd'), sq, p)"
    using eff by blast
  show "\<forall>e\<in>set (fresh_entries (\<lambda>nd. hs_committed (hn_state nd)) nd nd').
      hs_pending_payloads (hn_state nd) (ce_sequence e) = Some (ce_payload e)"
    using eff by (auto simp: fresh_entries_def)
qed (auto simp: hs_poll_committed_def dest: hs_tick_frame)

end
