(* ===== verification/HsQuorum.thy ===== *)
theory HsQuorum
  imports HsSafety Evidence
begin

text \<open>
  Quorum evidence in HotStuff: a certificate of a phase is sent only when \<open>2f + 1\<close> distinct
  nodes have voted in that phase and in every earlier one, the leader counting itself; a replica
  decides only on a commit certificate, the leader only on the votes for one.
\<close>

definition voted_by :: "network_message set \<Rightarrow> ViewNumber \<Rightarrow> SequenceNumber \<Rightarrow> phase_tag \<Rightarrow> node_id set" where
  "voted_by S v sq ph = {r. \<exists>m\<in>S. msg_from m = r \<and> (\<exists>d. msg_payload m = HotStuff (Vote v sq d ph r))}"

text \<open>A quorum of each phase up to \<open>ph\<close>.\<close>

definition certified :: "usize \<Rightarrow> network_message set \<Rightarrow> ViewNumber \<Rightarrow> SequenceNumber \<Rightarrow> phase_tag \<Rightarrow> bool" where
  "certified n S v sq ph \<longleftrightarrow>
     (\<forall>ph'. phase_ord ph' \<le> phase_ord ph \<longrightarrow>
        quorum_in (2 * hs_f n + 1) (insert (leader_of n v) (voted_by S v sq ph')))"

fun ss_voters :: "hs_slot \<Rightarrow> phase_tag \<Rightarrow> node_id set" where
  "ss_voters slot TagPrepare = ss_prepare_voters slot"
| "ss_voters slot TagPreCommit = ss_precommit_voters slot"
| "ss_voters slot TagCommit = ss_commit_voters slot"

definition hs_slot_backed :: "usize \<Rightarrow> network_message set \<Rightarrow> SequenceNumber \<Rightarrow> hs_slot \<Rightarrow> bool" where
  "hs_slot_backed n S sq slot \<longleftrightarrow>
     (\<forall>ph. ss_voters slot ph \<subseteq> insert (leader_of n (ss_view slot)) (voted_by S (ss_view slot) sq ph)) \<and>
     (ss_phase slot = HsPreCommit \<longrightarrow> certified n S (ss_view slot) sq TagPrepare) \<and>
     (ss_phase slot = HsCommit \<longrightarrow> certified n S (ss_view slot) sq TagPreCommit)"

definition hs_node_backed :: "usize \<Rightarrow> network_message set \<Rightarrow> hs_node \<Rightarrow> bool" where
  "hs_node_backed n S nd \<longleftrightarrow> (\<forall>sq slot. hs_slots (hn_state nd) sq = Some slot \<longrightarrow> hs_slot_backed n S sq slot)"

definition hs_msg_backed :: "usize \<Rightarrow> node_id set \<Rightarrow> network_message set \<Rightarrow> network_message \<Rightarrow> bool" where
  "hs_msg_backed n ids S m \<longleftrightarrow>
     (\<forall>v sq d ph r. msg_payload m = HotStuff (Vote v sq d ph r) \<longrightarrow> r \<in> ids \<and> msg_from m = r) \<and>
     (\<forall>v sq d ph c. msg_payload m = HotStuff (QuorumCertificate v sq d ph c) \<longrightarrow> certified n S v sq ph)"

definition hs_entry_backed :: "usize \<Rightarrow> network_message set \<Rightarrow> node_id \<Rightarrow> ViewNumber \<Rightarrow> committed_entry \<Rightarrow> bool" where
  "hs_entry_backed n S i v e \<longleftrightarrow> certified n S v (ce_sequence e) TagCommit"

definition hs_keeps_evidence ::
  "usize \<Rightarrow> node_id set \<Rightarrow> network_message set \<Rightarrow> hs_node \<Rightarrow> hs_node \<Rightarrow> network_message list \<Rightarrow> bool" where
  "hs_keeps_evidence n ids S nd nd' out \<longleftrightarrow>
     hs_node_backed n S nd' \<and> (\<forall>x\<in>set out. hs_msg_backed n ids S x) \<and>
     (\<forall>e\<in>set (drop (length (hs_committed (hn_state nd))) (hs_committed (hn_state nd'))).
        hs_entry_backed n S (hn_id nd) (hs_view (hn_state nd)) e)"

section \<open>Certificates\<close>

lemma certified_prepare: "quorum_in (2 * hs_f n + 1) (insert (leader_of n v) (voted_by S v sq TagPrepare)) \<Longrightarrow>
    certified n S v sq TagPrepare"
  unfolding certified_def by (intro allI impI, rename_tac ph, case_tac ph) auto

lemma certified_next:
  assumes "certified n S v sq ph"
    and "quorum_in (2 * hs_f n + 1) (insert (leader_of n v) (voted_by S v sq ph'))"
    and "(ph, ph') \<in> {(TagPrepare, TagPreCommit), (TagPreCommit, TagCommit)}"
  shows "certified n S v sq ph'"
proof -
  have "quorum_in (2 * hs_f n + 1) (insert (leader_of n v) (voted_by S v sq q))"
    if "phase_ord q \<le> phase_ord ph'" for q
    using that assms by (cases q) (auto simp: certified_def word_le_nat_alt)
  then show ?thesis by (simp add: certified_def)
qed

lemma voted_by_mono': "S \<subseteq> S' \<Longrightarrow> voted_by S v sq ph \<subseteq> voted_by S' v sq ph"
  by (auto simp: voted_by_def)

lemma certified_mono: "certified n S v sq ph \<Longrightarrow> S \<subseteq> S' \<Longrightarrow> certified n S' v sq ph"
  unfolding certified_def using quorum_in_mono voted_by_mono' by (metis insert_mono)

lemma hs_backed_mono:
  assumes "S \<subseteq> S'"
  shows "hs_node_backed n S nd \<Longrightarrow> hs_node_backed n S' nd"
    and "hs_msg_backed n ids S m \<Longrightarrow> hs_msg_backed n ids S' m"
    and "hs_entry_backed n S i v e \<Longrightarrow> hs_entry_backed n S' i v e"
proof -
  have "insert l (voted_by S v sq ph) \<subseteq> insert l (voted_by S' v sq ph)" for l v sq ph
    using voted_by_mono' [OF assms] by blast
  then show "hs_node_backed n S nd \<Longrightarrow> hs_node_backed n S' nd"
    unfolding hs_node_backed_def hs_slot_backed_def
    using certified_mono [OF _ assms] by (meson subset_trans)
qed (use certified_mono [OF _ assms] in \<open>auto simp: hs_msg_backed_def hs_entry_backed_def\<close>)

lemma hs_msg_backed_corrupt: "hs_msg_backed n ids S m \<Longrightarrow> hs_msg_backed n ids S (corrupt_digest m)"
  by (cases "msg_payload m" rule: corrupt_payload_digest.cases) (simp_all add: corrupt_digest_def hs_msg_backed_def)

section \<open>What the handlers keep\<close>

lemma hs_fresh_slot_backed:
  "A \<subseteq> {leader_of n v} \<Longrightarrow> hs_slot_backed n S sq ((hs_slot_new v sq)\<lparr>ss_phase := HsPrepare, ss_prepare_voters := A\<rparr>)"
  "hs_slot_backed n S sq ((hs_slot_new v sq)\<lparr>ss_phase := HsPrepare\<rparr>)"
  by (auto simp: hs_slot_backed_def hs_slot_new_def) (case_tac ph; auto)+

lemma hs_on_propose_evidence:
  assumes "hn_id nd \<in> ids" and "hs_node_backed n S nd" and "hs_on_propose nd v sq d p = Inr (nd', out)"
  shows "hs_keeps_evidence n ids S nd nd' out"
  using assms(3)
proof (cases rule: hs_on_propose_cases)
  case stale
  then show ?thesis using assms(2) by (simp add: hs_keeps_evidence_def)
next
  case (accept st)
  have "hs_slot_backed n S k slot" if "hs_slots st k = Some slot" for k slot
    using that accept(1) assms(2) by (auto simp: hs_node_backed_def hs_enter_new_view_def split: if_splits)
  moreover have "hs_committed st = hs_committed (hn_state nd)"
    using accept(1) by (simp add: hs_enter_new_view_def)
  ultimately show ?thesis
    using accept assms(1) hs_fresh_slot_backed(2) [of n S sq v]
    by (auto simp: hs_keeps_evidence_def hs_node_backed_def hs_msg_backed_def)
qed

lemma hs_count_vote_backed:
  assumes "hs_slot_backed n S sq slot" and "\<forall>ph. finite (ss_voters slot ph)"
    and "voter \<in> voted_by S (ss_view slot) sq ph"
    and "leader_of n (ss_view slot) = me"
    and "hs_count_vote me (2 * hs_f n + 1) slot ph voter = Some (slot', action)"
  shows "hs_slot_backed n S sq slot' \<and> (action \<noteq> None \<longrightarrow> certified n S (ss_view slot) sq ph)"
proof -
  let ?A = "insert voter (ss_voters slot ph)"
  have sub: "?A \<subseteq> insert (leader_of n (ss_view slot)) (voted_by S (ss_view slot) sq ph)" and fin: "finite ?A"
    using assms(1,2,3) by (auto simp: hs_slot_backed_def)
  have Q: "2 * hs_f n + 1 \<le> card ?A \<Longrightarrow>
      quorum_in (2 * hs_f n + 1) (insert (leader_of n (ss_view slot)) (voted_by S (ss_view slot) sq ph))"
    using quorum_inI [OF fin _ sub] by blast
  have old: "ss_voters slot q \<subseteq> insert (leader_of n (ss_view slot)) (voted_by S (ss_view slot) sq q)" for q
    using assms(1) by (simp add: hs_slot_backed_def)
  have cert: "2 * hs_f n + 1 \<le> card ?A \<Longrightarrow>
      (ph = TagPrepare \<or> ph = TagPreCommit \<and> ss_phase slot = HsPreCommit \<or> ph = TagCommit \<and> ss_phase slot = HsCommit) \<Longrightarrow>
      certified n S (ss_view slot) sq ph"
    using Q certified_prepare certified_next assms(1) by (auto simp: hs_slot_backed_def)
  have voters: "ss_voters slot' q \<subseteq> insert (leader_of n (ss_view slot)) (voted_by S (ss_view slot) sq q)" for q
    using assms(4,5) sub old [of TagPrepare] old [of TagPreCommit] old [of TagCommit]
    by (cases ph; cases q) (auto simp: hs_count_vote_def Let_def split: if_splits)
  have view: "ss_view slot' = ss_view slot" using hs_count_vote_Some [OF assms(5)] by simp
  have "(ss_phase slot' = HsPreCommit \<longrightarrow> certified n S (ss_view slot) sq TagPrepare) \<and>
      (ss_phase slot' = HsCommit \<longrightarrow> certified n S (ss_view slot) sq TagPreCommit) \<and>
      (action \<noteq> None \<longrightarrow> certified n S (ss_view slot) sq ph)"
    using assms(1,5) cert
    by (cases ph) (auto simp: hs_count_vote_def Let_def hs_slot_backed_def split: if_splits)
  then show ?thesis using voters view by (simp add: hs_slot_backed_def)
qed

lemma hs_member_slot:
  assumes "hs_member n nd" and "hs_slots (hn_state nd) sq = Some slot"
  shows "hs_slot_ok (hs_view (hn_state nd)) sq slot"
  using assms by (auto simp: hs_member_def hs_wf_def hs_state_ok_def)

lemma hs_take_pending_sequence:
  "\<forall>e\<in>set (drop (length (hs_committed st)) (hs_committed (hs_take_pending st sq))). ce_sequence e = sq"
  by (auto simp: hs_take_pending_committed split: option.splits)

lemma hs_on_vote_evidence:
  assumes member: "hs_member n nd" and backed: "hs_node_backed n S nd" and voter: "voter \<in> voted_by S v sq ph"
    and step: "hs_on_vote nd v sq d ph voter = Inr (nd', out)"
  shows "hs_keeps_evidence n ids S nd nd' out"
proof -
  have slot: "hs_slot_backed n S sq slot' \<and> (action \<noteq> None \<longrightarrow> certified n S v sq ph)"
    if "v = hs_view (hn_state nd)" "hs_slots (hn_state nd) sq = Some slot" "leader_of n v = hn_id nd"
      "hs_count_vote (hn_id nd) (2 * hs_f (hn_cluster_size nd) + 1) slot ph voter = Some (slot', action)"
    for slot slot' action
  proof -
    have ok: "hs_slot_ok v sq slot" using hs_member_slot [OF member that(2)] that(1) by simp
    have ph: "ss_phase slot \<noteq> HsDecided" using hs_count_vote_Some [OF that(4)] by simp
    have "ss_view slot = v" "\<forall>q. finite (ss_voters slot q)"
      using ok ph by (auto simp: hs_slot_ok_def) (case_tac q; simp)
    then show ?thesis
      using hs_count_vote_backed [of n S sq slot voter ph "hn_id nd" slot' action] that backed voter member
      by (simp add: hs_node_backed_def hs_member_def)
  qed
  show ?thesis
  proof (cases "nd' = nd \<and> out = []")
    case True
    then show ?thesis using backed by (simp add: hs_keeps_evidence_def)
  next
    case changed: False
    have lead: "leader_of n v = hn_id nd"
      using step changed member
      by (auto simp: hs_on_vote_def Let_def res_simps leader_of_def hs_member_def split: if_splits)
    from step show ?thesis
    proof (cases rule: hs_on_vote_cases)
      case ignored
      then show ?thesis using changed by simp
    next
      case (counted slot slot')
      then show ?thesis
        using slot [OF counted(1,2) lead counted(3)] backed by (auto simp: hs_keeps_evidence_def hs_node_backed_def)
    next
      case (certified slot slot' vc)
      let ?st = "(hn_state nd)\<lparr>hs_slots := (hs_slots (hn_state nd))(sq \<mapsto> slot'),
        hs_highest_qc_view := v, hs_highest_qc_phase := ph\<rparr>"
      have s: "hs_slot_backed n S sq slot'" "certified n S v sq ph"
        using slot [OF certified(1,2) lead certified(4)] by auto
      show ?thesis
        using certified(1,5,6) s backed hs_take_pending_sequence [of ?st sq]
        by (auto simp: hs_keeps_evidence_def hs_node_backed_def hs_msg_backed_def hs_entry_backed_def Let_def
            broadcast_hotstuff_def broadcast_def)
    qed
  qed
qed

lemma hs_advance_slot_backed:
  assumes "hs_member n nd" and "hs_node_backed n S nd" and "v = hs_view (hn_state nd)"
    and "certified n S v sq ph" and "(ph, a, b) \<in> {(TagPrepare, HsPrepare, HsPreCommit), (TagPreCommit, HsPreCommit, HsCommit)}"
    and "hs_slots st = hs_slots (hn_state nd)" and "hs_slots (hs_advance_slot st sq a b) k = Some slot"
  shows "hs_slot_backed n S k slot"
proof (cases "k = sq \<and> hs_slots (hs_advance_slot st sq a b) k \<noteq> hs_slots st k")
  case False
  then have "hs_slots (hn_state nd) k = Some slot"
    using assms(6,7) by (auto simp: hs_advance_slot_def split: option.splits if_splits)
  then show ?thesis using assms(2) by (simp add: hs_node_backed_def)
next
  case True
  then obtain old where old: "hs_slots (hn_state nd) sq = Some old" "ss_phase old = a" "slot = old\<lparr>ss_phase := b\<rparr>"
    using assms(6,7) by (auto simp: hs_advance_slot_def split: option.splits if_splits)
  have view: "ss_view old = v"
    using hs_member_slot [OF assms(1) old(1)] old(2) assms(3,5) by (auto simp: hs_slot_ok_def)
  have "hs_slot_backed n S sq old" using assms(2) old(1) by (simp add: hs_node_backed_def)
  moreover have "ss_voters slot q = ss_voters old q" for q using old(3) by (cases q) auto
  ultimately show ?thesis
    using True assms(4,5) old(3) view by (auto simp: hs_slot_backed_def)
qed

lemma hs_on_qc_evidence:
  assumes member: "hs_member n nd" and me: "hn_id nd \<in> ids" and backed: "hs_node_backed n S nd"
    and cert: "certified n S v sq ph" and step: "hs_on_qc nd v sq d ph vc = Inr (nd', out)"
  shows "hs_keeps_evidence n ids S nd nd' out"
proof -
  let ?st = "hs_track_qc (hn_state nd) v ph"
  have none: "hs_keeps_evidence n ids S nd (nd\<lparr>hn_state := ?st\<rparr>) []" "hs_keeps_evidence n ids S nd nd []"
    using backed by (auto simp: hs_keeps_evidence_def hs_node_backed_def)
  show ?thesis
  proof (cases "v = hs_view (hn_state nd)")
    case False
    then show ?thesis using step none by (auto simp: hs_on_qc_def Let_def res_simps split: if_splits)
  next
    case True
    have vote: "\<forall>x\<in>set [mk_msg (hn_id nd) l (HotStuff (Vote v sq d t (hn_id nd)))]. hs_msg_backed n ids S x" for l t
      using me by (simp add: hs_msg_backed_def)
    have advance: "hs_keeps_evidence n ids S nd (nd\<lparr>hn_state := hs_advance_slot ?st sq a b\<rparr>)
        [mk_msg (hn_id nd) l (HotStuff (Vote v sq d t (hn_id nd)))]"
      if "(ph, a, b) \<in> {(TagPrepare, HsPrepare, HsPreCommit), (TagPreCommit, HsPreCommit, HsCommit)}" for a b l t
      using hs_advance_slot_backed [OF member backed True cert that, of ?st] vote [of l t]
      by (simp add: hs_keeps_evidence_def hs_node_backed_def)
    have old: "hs_slot_backed n S k slot" if "hs_slots (hn_state nd) k = Some slot" for k slot
      using that backed by (simp add: hs_node_backed_def)
    have slot: "hs_slot_backed n S sq (slot\<lparr>ss_phase := HsDecided\<rparr>)" if "hs_slots (hn_state nd) sq = Some slot" for slot
    proof -
      have "ss_voters (slot\<lparr>ss_phase := HsDecided\<rparr>) q = ss_voters slot q" for q by (cases q) auto
      then show ?thesis using old [OF that] by (simp add: hs_slot_backed_def)
    qed
    have decide: "hs_keeps_evidence n ids S nd (nd\<lparr>hn_state := hs_decide_slot ?st sq\<rparr>) []" if "ph = TagCommit"
    proof -
      have "\<forall>e\<in>set (drop (length (hs_committed (hn_state nd))) (hs_committed (hs_decide_slot ?st sq))). ce_sequence e = sq"
        by (auto simp: hs_decide_slot_def hs_take_pending_committed split: option.splits)
      moreover have "hs_slot_backed n S k slot'" if "hs_slots (hs_decide_slot ?st sq) k = Some slot'" for k slot'
        using that old slot by (auto simp: hs_decide_slot_def split: option.splits if_splits)
      ultimately show ?thesis
        using cert True that by (simp add: hs_keeps_evidence_def hs_node_backed_def hs_entry_backed_def)
    qed
    show ?thesis
      using step True none advance decide
      by (cases ph) (auto simp: hs_on_qc_def Let_def res_simps split: if_splits)
  qed
qed

lemma hs_on_new_view_evidence:
  assumes "hs_node_backed n S nd" and "hs_on_new_view nd v j = Inr (nd', out)"
  shows "hs_keeps_evidence n ids S nd nd' out"
  using assms
  by (auto simp: hs_on_new_view_def hs_enter_new_view_def hs_keeps_evidence_def hs_node_backed_def Let_def res_simps
      split: if_splits)

lemma hs_handle_evidence:
  assumes "hs_member n nd" and "hn_id nd \<in> ids" and "hs_node_backed n S nd" and "m \<in> S"
    and "hs_msg_backed n ids S m" and "hs_handle_message nd m = Inr (nd', out)"
  shows "hs_keeps_evidence n ids S nd nd' out"
proof (cases "msg_payload m")
  case (HotStuff hm)
  have "msg_payload m = HotStuff (Vote v sq d ph r) \<Longrightarrow> r \<in> voted_by S v sq ph" for v sq d ph r
    using assms(4,5) by (auto simp: hs_msg_backed_def voted_by_def)
  moreover have "msg_payload m = HotStuff (QuorumCertificate v sq d ph c) \<Longrightarrow> certified n S v sq ph" for v sq d ph c
    using assms(5) by (auto simp: hs_msg_backed_def)
  ultimately show ?thesis
    using HotStuff assms(6) hs_on_propose_evidence [OF assms(2,3)] hs_on_vote_evidence [OF assms(1,3)]
      hs_on_qc_evidence [OF assms(1-3)] hs_on_new_view_evidence [OF assms(3)]
    by (cases hm) (auto simp: hs_handle_message_def)
qed (use assms in \<open>simp_all add: hs_handle_message_def hs_keeps_evidence_def\<close>)

lemma hs_propose_evidence:
  assumes member: "hs_member n nd" and backed: "hs_node_backed n S nd" and step: "hs_propose sha nd p = Inr (nd', r, out)"
  shows "hs_node_backed n S nd' \<and> (\<forall>x\<in>set out. hs_msg_backed n ids S x)"
proof -
  have "leader_of n (hs_view (hn_state nd)) = hn_id nd \<Longrightarrow> hs_slot_backed n S sq
      ((hs_slot_new (hs_view (hn_state nd)) sq)\<lparr>ss_phase := HsPrepare, ss_prepare_voters := {hn_id nd}\<rparr>)" for sq
    by (intro hs_fresh_slot_backed(1)) simp
  then show ?thesis
    using step backed member
    by (auto simp: hs_propose_def hs_node_backed_def hs_msg_backed_def broadcast_hotstuff_def broadcast_def
        hs_member_def leader_of_def Let_def res_simps split: if_splits)
qed

lemma hs_tick_evidence:
  assumes "hs_node_backed n S nd" and "hs_tick nd = Inr (nd', out)"
  shows "hs_node_backed n S nd' \<and> (\<forall>x\<in>set out. hs_msg_backed n ids S x)"
  using assms by (auto simp: hs_tick_def hs_node_backed_def hs_msg_backed_def Let_def res_simps split: if_splits)

interpretation hbe: evidence_protocol "hs_vtable sha" "hs_member n" "\<lambda>nd. hs_committed (hn_state nd)" ids
  "\<lambda>nd. hs_view (hn_state nd)" "hs_node_backed n" "hs_msg_backed n ids" "hs_entry_backed n"
  for sha n ids
proof
  fix S :: "network_message set" and nd nd' :: hs_node and m p r out
  show "hs_node_backed n S nd' \<and> (\<forall>x\<in>set out. hs_msg_backed n ids S x)"
    if "hs_member n nd" "hs_node_backed n S nd" "vt_propose (hs_vtable sha) nd p = Inr (nd', r, out)"
    using that hs_propose_evidence by simp
  show "hs_node_backed n S nd' \<and> (\<forall>x\<in>set out. hs_msg_backed n ids S x)"
    if "hs_node_backed n S nd" "vt_tick (hs_vtable sha) nd = Inr (nd', out)"
    using that hs_tick_evidence by simp
  show "hs_node_backed n S (fst (vt_poll_committed (hs_vtable sha) nd))" if "hs_node_backed n S nd"
    using that by (simp add: hs_poll_committed_def hs_node_backed_def)
  show "hs_node_backed n S nd' \<and> (\<forall>x\<in>set out. hs_msg_backed n ids S x) \<and>
      (\<forall>e\<in>set (fresh_entries (\<lambda>nd. hs_committed (hn_state nd)) nd nd').
         hs_entry_backed n S (vt_id (hs_vtable sha) nd) (hs_view (hn_state nd)) e)"
    if "hs_member n nd" "vt_id (hs_vtable sha) nd \<in> ids" "hs_node_backed n S nd" "m \<in> S"
      "\<forall>x\<in>S. hs_msg_backed n ids S x" "vt_handle_message (hs_vtable sha) nd m = Inr (nd', out)"
    using that hs_handle_evidence [of n nd ids S m nd' out] by (simp add: hs_keeps_evidence_def fresh_entries_def)
qed (erule (1) hs_backed_mono [rotated] | erule hs_msg_backed_corrupt)+

end
