(* ===== verification/HsLive.thy ===== *)
theory HsLive
  imports HsSafety
begin

text \<open>
  One HotStuff node over whole exchanges: a leader that collects the votes of the three phases,
  a replica that follows the certificates, a timer that runs out; and the only calls that can
  panic.
\<close>

lemma hs_helpers_total:
  assumes "0 < hn_cluster_size nd" and "hn_cluster_size nd < 2 ^ 64"
  shows "hs_quorum nd = Inr (2 * hs_f (hn_cluster_size nd) + 1)"
    and "hs_leader_for_view nd v = Inr (leader_of (hn_cluster_size nd) v)"
proof -
  have "word_of_nat (hn_cluster_size nd) \<noteq> (0 :: u64)"
    using assms word_of_nat_inj_small [of "hn_cluster_size nd" 0] by auto
  then show "hs_leader_for_view nd v = Inr (leader_of (hn_cluster_size nd) v)"
    by (simp add: hs_leader_Inr leader_of_def)
qed (use assms in \<open>simp add: hs_quorum_Inr\<close>)

definition hs_votes :: "node_id list \<Rightarrow> node_id \<Rightarrow> ViewNumber \<Rightarrow> SequenceNumber \<Rightarrow> digest \<Rightarrow> phase_tag \<Rightarrow> network_message list" where
  "hs_votes froms dest v sq d ph = map (\<lambda>r. mk_msg r dest (HotStuff (Vote v sq d ph r))) froms"

section \<open>One round of votes\<close>

text \<open>The phase in which the votes of a tag are counted, the phase the quorum leads to.\<close>

fun tag_phase :: "phase_tag \<Rightarrow> hs_phase" where
  "tag_phase TagPrepare = HsPrepare" | "tag_phase TagPreCommit = HsPreCommit" | "tag_phase TagCommit = HsCommit"

fun tag_voters :: "phase_tag \<Rightarrow> hs_slot \<Rightarrow> node_id set" where
  "tag_voters TagPrepare slot = ss_prepare_voters slot"
| "tag_voters TagPreCommit slot = ss_precommit_voters slot"
| "tag_voters TagCommit slot = ss_commit_voters slot"

text \<open>The slot with \<open>A\<close> as the voters of a phase, and the slot after that phase's quorum.\<close>

fun with_voters :: "phase_tag \<Rightarrow> node_id set \<Rightarrow> hs_slot \<Rightarrow> hs_slot" where
  "with_voters TagPrepare A slot = slot\<lparr>ss_prepare_voters := A\<rparr>"
| "with_voters TagPreCommit A slot = slot\<lparr>ss_precommit_voters := A\<rparr>"
| "with_voters TagCommit A slot = slot\<lparr>ss_commit_voters := A\<rparr>"

fun next_slot :: "node_id \<Rightarrow> phase_tag \<Rightarrow> hs_slot \<Rightarrow> hs_slot" where
  "next_slot me TagPrepare slot = slot\<lparr>ss_phase := HsPreCommit, ss_precommit_voters := insert me (ss_precommit_voters slot)\<rparr>"
| "next_slot me TagPreCommit slot = slot\<lparr>ss_phase := HsCommit, ss_commit_voters := insert me (ss_commit_voters slot)\<rparr>"
| "next_slot me TagCommit slot = slot\<lparr>ss_phase := HsDecided\<rparr>"

lemma count_vote_phase:
  assumes "ss_phase slot = tag_phase ph"
  shows "hs_count_vote me q slot ph r =
    (let A = insert r (tag_voters ph slot) in
     if q \<le> card A then Some (next_slot me ph (with_voters ph A slot), Some (ph, card A, ph = TagCommit))
     else Some (with_voters ph A slot, None))"
  using assms by (cases ph) (simp_all add: hs_count_vote_def Let_def)

lemma with_voters_simps [simp]:
  "tag_voters ph (with_voters ph A slot) = A" "ss_phase (with_voters ph A slot) = ss_phase slot"
  "with_voters ph B (with_voters ph A slot) = with_voters ph B slot"
  by (cases ph; simp)+

text \<open>The leader's state after the quorum of a phase.\<close>

definition hs_certify :: "hs_node \<Rightarrow> SequenceNumber \<Rightarrow> phase_tag \<Rightarrow> hs_slot \<Rightarrow> hs_state" where
  "hs_certify nd sq ph slot =
     (let st = (hn_state nd)\<lparr>hs_slots := (hs_slots (hn_state nd))(sq \<mapsto> next_slot (hn_id nd) ph slot),
                 hs_highest_qc_view := hs_view (hn_state nd), hs_highest_qc_phase := ph\<rparr>
      in if ph = TagCommit then hs_take_pending st sq else st)"

lemma hs_vote_step:
  assumes "hs_slots (hn_state nd) sq = Some slot" and "ss_phase slot = tag_phase ph"
    and "leader_of (hn_cluster_size nd) (hs_view (hn_state nd)) = hn_id nd"
    and "0 < hn_cluster_size nd" and "hn_cluster_size nd < 2 ^ 64"
  shows "hs_handle_message nd (mk_msg r dest (HotStuff (Vote (hs_view (hn_state nd)) sq d ph r))) =
    (let A = insert r (tag_voters ph slot) in
     Inr (if 2 * hs_f (hn_cluster_size nd) + 1 \<le> card A
          then (nd\<lparr>hn_state := hs_certify nd sq ph (with_voters ph A slot)\<rparr>,
                broadcast_hotstuff nd (QuorumCertificate (hs_view (hn_state nd)) sq d ph (card A)))
          else (nd\<lparr>hn_state := (hn_state nd)\<lparr>hs_slots := (hs_slots (hn_state nd))(sq \<mapsto> with_voters ph A slot)\<rparr>\<rparr>, [])))"
  using assms(1,3) count_vote_phase [OF assms(2)] hs_helpers_total [OF assms(4,5)]
  by (auto simp: hs_handle_message_def hs_on_vote_def hs_certify_def Let_def)

lemma hs_certify_overwrites:
  "hs_certify (nd\<lparr>hn_state := (hn_state nd)\<lparr>hs_slots := (hs_slots (hn_state nd))(sq \<mapsto> s0)\<rparr>\<rparr>) sq ph slot =
     hs_certify nd sq ph slot"
  by (simp add: hs_certify_def Let_def fun_upd_def cong: if_cong)

lemma hs_vote_round:
  assumes "hs_slots (hn_state nd) sq = Some slot" and "ss_phase slot = tag_phase ph"
    and "leader_of (hn_cluster_size nd) (hs_view (hn_state nd)) = hn_id nd"
    and "0 < hn_cluster_size nd" and "hn_cluster_size nd < 2 ^ 64"
    and "finite (tag_voters ph slot)" and "rs \<noteq> []" and "distinct rs" and "set rs \<inter> tag_voters ph slot = {}"
    and "card (tag_voters ph slot) + length rs = 2 * hs_f (hn_cluster_size nd) + 1"
  shows "node_run (hs_vtable sha) nd (handle_all (hs_votes rs dest (hs_view (hn_state nd)) sq d ph)) =
    Inr (nd\<lparr>hn_state := hs_certify nd sq ph (with_voters ph (tag_voters ph slot \<union> set rs) slot)\<rparr>,
         broadcast_hotstuff nd (QuorumCertificate (hs_view (hn_state nd)) sq d ph (2 * hs_f (hn_cluster_size nd) + 1)), [])"
  using assms
proof (induction rs arbitrary: nd slot)
  case (Cons r rs)
  let ?A = "insert r (tag_voters ph slot)" and ?q = "2 * hs_f (hn_cluster_size nd) + 1"
  have card: "card ?A = Suc (card (tag_voters ph slot))" using Cons.prems(6,9) by simp
  note step = hs_vote_step [OF Cons.prems(1-5), of r dest d]
  have runs: "handle_all (hs_votes (r # rs) dest v sq d ph) =
    OpHandle (mk_msg r dest (HotStuff (Vote v sq d ph r))) # handle_all (hs_votes rs dest v sq d ph)" for v
    by (simp add: handle_all_def hs_votes_def)
  show ?case
  proof (cases "rs = []")
    case True
    then have "card ?A = ?q" using card Cons.prems(10) by simp
    then show ?thesis
      using step True by (simp add: runs Let_def) (simp add: handle_all_def hs_votes_def)
  next
    case False
    let ?nd = "nd\<lparr>hn_state := (hn_state nd)\<lparr>hs_slots := (hs_slots (hn_state nd))(sq \<mapsto> with_voters ph ?A slot)\<rparr>\<rparr>"
    have few: "card ?A < ?q" using card Cons.prems(10) False by (cases rs) auto
    have "node_run (hs_vtable sha) ?nd (handle_all (hs_votes rs dest (hs_view (hn_state ?nd)) sq d ph)) =
      Inr (?nd\<lparr>hn_state := hs_certify ?nd sq ph (with_voters ph (tag_voters ph (with_voters ph ?A slot) \<union> set rs) (with_voters ph ?A slot))\<rparr>,
         broadcast_hotstuff ?nd (QuorumCertificate (hs_view (hn_state ?nd)) sq d ph (2 * hs_f (hn_cluster_size ?nd) + 1)), [])"
      using Cons.prems False card by (intro Cons.IH) auto
    then show ?thesis
      using step few by (simp add: runs Let_def hs_certify_overwrites broadcast_hotstuff_def)
  qed
qed simp

section \<open>The three rounds at the leader\<close>

lemma hs_certify_simps [simp]:
  "hs_view (hs_certify nd sq ph slot) = hs_view (hn_state nd)"
  "hs_slots (hs_certify nd sq ph slot) = (hs_slots (hn_state nd))(sq \<mapsto> next_slot (hn_id nd) ph slot)"
  "ph \<noteq> TagCommit \<Longrightarrow> hs_pending_payloads (hs_certify nd sq ph slot) = hs_pending_payloads (hn_state nd)"
  "ph \<noteq> TagCommit \<Longrightarrow> hs_committed (hs_certify nd sq ph slot) = hs_committed (hn_state nd)"
  by (simp_all add: hs_certify_def Let_def)

lemma hs_certify_commit:
  "hs_pending_payloads (hn_state nd) sq = Some p \<Longrightarrow>
     hs_committed (hs_certify nd sq TagCommit slot) = hs_committed (hn_state nd) @ [\<lparr>ce_sequence = sq, ce_payload = p\<rparr>]"
  by (simp add: hs_certify_def Let_def hs_take_pending_committed)

lemma hs_leader_run:
  assumes slot: "hs_slots (hn_state nd) sq = Some slot" "ss_phase slot = HsPrepare"
      "ss_prepare_voters slot = {hn_id nd}" "ss_precommit_voters slot = {}" "ss_commit_voters slot = {}"
    and pending: "hs_pending_payloads (hn_state nd) sq = Some p"
    and lead: "leader_of (hn_cluster_size nd) (hs_view (hn_state nd)) = hn_id nd"
    and size: "4 \<le> hn_cluster_size nd" "hn_cluster_size nd < 2 ^ 64"
    and voters: "\<And>ph. distinct (rs ph) \<and> length (rs ph) = 2 * hs_f (hn_cluster_size nd) \<and> hn_id nd \<notin> set (rs ph)"
  defines "v \<equiv> hs_view (hn_state nd)" and "q \<equiv> 2 * hs_f (hn_cluster_size nd) + 1"
  shows "\<exists>nd'. node_run (hs_vtable sha) nd
      (handle_all (hs_votes (rs TagPrepare) (hn_id nd) v sq d TagPrepare) @
       handle_all (hs_votes (rs TagPreCommit) (hn_id nd) v sq d TagPreCommit) @
       handle_all (hs_votes (rs TagCommit) (hn_id nd) v sq d TagCommit)) =
      Inr (nd', broadcast_hotstuff nd (QuorumCertificate v sq d TagPrepare q) @
        broadcast_hotstuff nd (QuorumCertificate v sq d TagPreCommit q) @
        broadcast_hotstuff nd (QuorumCertificate v sq d TagCommit q), []) \<and>
    hs_committed (hn_state nd') = hs_committed (hn_state nd) @ [\<lparr>ce_sequence = sq, ce_payload = p\<rparr>]"
proof -
  have f: "1 \<le> hs_f (hn_cluster_size nd)" and n: "0 < hn_cluster_size nd" using size by (auto simp: hs_f_def)
  have ne: "rs ph \<noteq> []" for ph using voters [of ph] f by auto
  let ?me = "hn_id nd"
  let ?A = "\<lambda>ph. {?me} \<union> set (rs ph)"
  define nd1 where "nd1 = nd\<lparr>hn_state := hs_certify nd sq TagPrepare (with_voters TagPrepare (?A TagPrepare) slot)\<rparr>"
  define slot1 where "slot1 = next_slot ?me TagPrepare (with_voters TagPrepare (?A TagPrepare) slot)"
  define nd2 where "nd2 = nd1\<lparr>hn_state := hs_certify nd1 sq TagPreCommit (with_voters TagPreCommit (?A TagPreCommit) slot1)\<rparr>"
  define slot2 where "slot2 = next_slot ?me TagPreCommit (with_voters TagPreCommit (?A TagPreCommit) slot1)"
  define nd3 where "nd3 = nd2\<lparr>hn_state := hs_certify nd2 sq TagCommit (with_voters TagCommit (?A TagCommit) slot2)\<rparr>"
  have base: "hn_id nd1 = ?me" "hn_cluster_size nd1 = hn_cluster_size nd" "hn_peer_ids nd1 = hn_peer_ids nd"
      "hs_view (hn_state nd1) = v" "hn_id nd2 = ?me" "hn_cluster_size nd2 = hn_cluster_size nd"
      "hn_peer_ids nd2 = hn_peer_ids nd" "hs_view (hn_state nd2) = v"
      "hs_slots (hn_state nd1) sq = Some slot1" "hs_slots (hn_state nd2) sq = Some slot2"
    by (simp_all add: nd1_def nd2_def v_def slot1_def slot2_def)
  have phases: "ss_phase slot1 = HsPreCommit" "ss_precommit_voters slot1 = {?me}" "ss_commit_voters slot1 = {}"
      "ss_phase slot2 = HsCommit" "ss_commit_voters slot2 = {?me}"
    using slot by (simp_all add: slot1_def slot2_def)
  have r1: "node_run (hs_vtable sha) nd (handle_all (hs_votes (rs TagPrepare) ?me v sq d TagPrepare)) =
      Inr (nd1, broadcast_hotstuff nd (QuorumCertificate v sq d TagPrepare q), [])"
    using hs_vote_round [OF slot(1), of TagPrepare "rs TagPrepare" sha ?me d] slot lead size n voters [of TagPrepare] ne
    by (simp add: nd1_def v_def q_def)
  have r2: "node_run (hs_vtable sha) nd1 (handle_all (hs_votes (rs TagPreCommit) ?me v sq d TagPreCommit)) =
      Inr (nd2, broadcast_hotstuff nd (QuorumCertificate v sq d TagPreCommit q), [])"
    using hs_vote_round [OF base(9), of TagPreCommit "rs TagPreCommit" sha ?me d] base phases lead size n
      voters [of TagPreCommit] ne
    by (simp add: nd2_def v_def [symmetric] q_def broadcast_hotstuff_def)
  have r3: "node_run (hs_vtable sha) nd2 (handle_all (hs_votes (rs TagCommit) ?me v sq d TagCommit)) =
      Inr (nd3, broadcast_hotstuff nd (QuorumCertificate v sq d TagCommit q), [])"
    using hs_vote_round [OF base(10), of TagCommit "rs TagCommit" sha ?me d] base phases lead size n
      voters [of TagCommit] ne
    by (simp add: nd3_def v_def [symmetric] q_def broadcast_hotstuff_def)
  have "hs_pending_payloads (hn_state nd2) sq = Some p" "hs_committed (hn_state nd2) = hs_committed (hn_state nd)"
    using pending by (simp_all add: nd2_def nd1_def)
  then have "hs_committed (hn_state nd3) = hs_committed (hn_state nd) @ [\<lparr>ce_sequence = sq, ce_payload = p\<rparr>]"
    using hs_certify_commit [of nd2 sq p] by (simp add: nd3_def)
  then show ?thesis using r1 r2 r3 by (intro exI [of _ nd3]) (simp add: node_run_append)
qed

section \<open>The certificates at a replica\<close>

lemma hs_replica_run:
  assumes n: "0 < hn_cluster_size nd" "hn_cluster_size nd < 2 ^ 64"
    and q: "\<And>ph. 2 * hs_f (hn_cluster_size nd) + 1 \<le> c ph"
  defines "v \<equiv> hs_view (hn_state nd)" and "l \<equiv> leader_of (hn_cluster_size nd) (hs_view (hn_state nd))"
  shows "\<exists>nd'. node_run (hs_vtable sha) nd (handle_all (map (\<lambda>m. mk_msg l (hn_id nd) (HotStuff m))
      [Propose v sq d p jv jp, QuorumCertificate v sq d TagPrepare (c TagPrepare),
       QuorumCertificate v sq d TagPreCommit (c TagPreCommit), QuorumCertificate v sq d TagCommit (c TagCommit)])) =
      Inr (nd', map (\<lambda>ph. mk_msg (hn_id nd) l (HotStuff (Vote v sq d ph (hn_id nd)))) [TagPrepare, TagPreCommit, TagCommit], []) \<and>
    hs_committed (hn_state nd') = hs_committed (hn_state nd) @ [\<lparr>ce_sequence = sq, ce_payload = p\<rparr>] \<and>
    hs_view (hn_state nd') = v"
proof -
  have total: "hs_quorum nd' = Inr (2 * hs_f (hn_cluster_size nd) + 1)"
      "hs_leader_for_view nd' v = Inr l" if "hn_cluster_size nd' = hn_cluster_size nd" for nd'
    using hs_helpers_total [of nd'] n that by (simp_all add: v_def l_def)
  define st1 where "st1 = (hn_state nd)\<lparr>hs_leader_active := True, hs_view_change_timeout := HS_VIEW_CHANGE_TIMEOUT,
    hs_slots := (hs_slots (hn_state nd))(sq \<mapsto> (hs_slot_new v sq)\<lparr>ss_phase := HsPrepare\<rparr>),
    hs_pending_payloads := (hs_pending_payloads (hn_state nd))(sq \<mapsto> p)\<rparr>"
  define st2 where "st2 = hs_advance_slot (hs_track_qc st1 v TagPrepare) sq HsPrepare HsPreCommit"
  define st3 where "st3 = hs_advance_slot (hs_track_qc st2 v TagPreCommit) sq HsPreCommit HsCommit"
  define st4 where "st4 = hs_decide_slot (hs_track_qc st3 v TagCommit) sq"
  have views: "hs_view st1 = v" "hs_view st2 = v" "hs_view st3 = v" "hs_view st4 = v"
    by (simp_all add: st1_def st2_def st3_def st4_def v_def)
  have h1: "hs_handle_message nd (mk_msg l (hn_id nd) (HotStuff (Propose v sq d p jv jp))) =
      Inr (nd\<lparr>hn_state := st1\<rparr>, [mk_msg (hn_id nd) l (HotStuff (Vote v sq d TagPrepare (hn_id nd)))])"
    using total [of nd] by (simp add: hs_handle_message_def hs_on_propose_def st1_def v_def Let_def)
  have h: "hs_handle_message (nd\<lparr>hn_state := st\<rparr>) (mk_msg l (hn_id nd) (HotStuff (QuorumCertificate v sq d ph (c ph)))) =
      Inr (case ph of
        TagPrepare \<Rightarrow> (nd\<lparr>hn_state := hs_advance_slot (hs_track_qc st v ph) sq HsPrepare HsPreCommit\<rparr>,
           [mk_msg (hn_id nd) l (HotStuff (Vote v sq d TagPreCommit (hn_id nd)))])
      | TagPreCommit \<Rightarrow> (nd\<lparr>hn_state := hs_advance_slot (hs_track_qc st v ph) sq HsPreCommit HsCommit\<rparr>,
           [mk_msg (hn_id nd) l (HotStuff (Vote v sq d TagCommit (hn_id nd)))])
      | TagCommit \<Rightarrow> (nd\<lparr>hn_state := hs_decide_slot (hs_track_qc st v ph) sq\<rparr>, []))"
    if "hs_view st = v" for st ph
    using q [of ph] total [of "nd\<lparr>hn_state := st\<rparr>"] that
    by (cases ph) (simp_all add: hs_handle_message_def hs_on_qc_def Let_def)
  have pend: "hs_pending_payloads st3 sq = Some p" "hs_committed st3 = hs_committed (hn_state nd)"
    by (simp_all add: st3_def st2_def st1_def)
  have "hs_slots st3 sq = Some ((hs_slot_new v sq)\<lparr>ss_phase := HsCommit\<rparr>)"
    by (simp add: st3_def st2_def st1_def hs_advance_slot_def)
  then have "hs_committed st4 = hs_committed (hn_state nd) @ [\<lparr>ce_sequence = sq, ce_payload = p\<rparr>]"
    using pend by (simp add: st4_def hs_decide_slot_def hs_take_pending_committed)
  moreover have "node_run (hs_vtable sha) nd (handle_all (map (\<lambda>m. mk_msg l (hn_id nd) (HotStuff m))
      [Propose v sq d p jv jp, QuorumCertificate v sq d TagPrepare (c TagPrepare),
       QuorumCertificate v sq d TagPreCommit (c TagPreCommit), QuorumCertificate v sq d TagCommit (c TagCommit)])) =
      Inr (nd\<lparr>hn_state := st4\<rparr>, map (\<lambda>ph. mk_msg (hn_id nd) l (HotStuff (Vote v sq d ph (hn_id nd)))) [TagPrepare, TagPreCommit, TagCommit], [])"
    using h1 h [OF views(1), of TagPrepare] h [OF views(2), of TagPreCommit] h [OF views(3), of TagCommit]
    by (simp add: handle_all_def st2_def [symmetric] st3_def [symmetric] st4_def [symmetric])
  ultimately show ?thesis using views(4) by (intro exI [of _ "nd\<lparr>hn_state := st4\<rparr>"]) simp
qed

section \<open>The highest certificate, digests, panics\<close>

text \<open>Certificates are ordered by view, then by phase.\<close>

definition qc_le :: "hs_state \<Rightarrow> hs_state \<Rightarrow> bool" where
  "qc_le st st' \<longleftrightarrow> hs_highest_qc_view st < hs_highest_qc_view st' \<or>
     hs_highest_qc_view st = hs_highest_qc_view st' \<and>
     phase_ord (hs_highest_qc_phase st) \<le> phase_ord (hs_highest_qc_phase st')"

lemma qc_le_refl [simp]: "qc_le st st"
  by (simp add: qc_le_def)

lemma hs_track_qc_le: "qc_le st (hs_track_qc st v ph)"
  by (auto simp: hs_track_qc_def qc_le_def)

lemma hs_qc_frame [simp]:
  "hs_highest_qc_view (hs_advance_slot st sq a b) = hs_highest_qc_view st"
  "hs_highest_qc_phase (hs_advance_slot st sq a b) = hs_highest_qc_phase st"
  "hs_highest_qc_view (hs_decide_slot st sq) = hs_highest_qc_view st"
  "hs_highest_qc_phase (hs_decide_slot st sq) = hs_highest_qc_phase st"
  by (auto simp: hs_advance_slot_def hs_decide_slot_def hs_take_pending_def split: option.splits)

lemma hs_on_qc_le:
  assumes "hs_on_qc nd v sq d ph c = Inr (nd', out)"
  shows "qc_le (hn_state nd) (hn_state nd')"
proof -
  have "hn_state nd' = hn_state nd \<or>
      hs_highest_qc_view (hn_state nd') = hs_highest_qc_view (hs_track_qc (hn_state nd) v ph) \<and>
      hs_highest_qc_phase (hn_state nd') = hs_highest_qc_phase (hs_track_qc (hn_state nd) v ph)"
    using assms by (cases ph) (auto simp: hs_on_qc_def Let_def res_simps split: if_splits)
  then show ?thesis using hs_track_qc_le [of "hn_state nd" v ph] by (auto simp: qc_le_def)
qed

lemma hs_digest_state:
  "map_sum id fst (hs_handle_message nd (corrupt_digest m)) = map_sum id fst (hs_handle_message nd m)"
proof (cases "msg_payload m" rule: corrupt_payload_digest.cases)
  case (4 v sq d p jv jp)
  then show ?thesis
    by (simp add: corrupt_digest_def hs_handle_message_def hs_on_propose_def Let_def rbind_def split: sum.splits)
next
  case (5 v sq d ph i)
  then show ?thesis
    by (auto simp: corrupt_digest_def hs_handle_message_def hs_on_vote_def Let_def rbind_def
        split: sum.splits option.splits)
next
  case (6 v sq d ph c)
  then show ?thesis
    by (cases ph) (simp_all add: corrupt_digest_def hs_handle_message_def hs_on_qc_def Let_def rbind_def split: sum.splits)
qed (simp_all add: corrupt_digest_def hs_handle_message_def)

lemma hs_propose_panics:
  assumes "0 < hn_cluster_size nd" and "hn_cluster_size nd < 2 ^ 64" and "hs_propose sha nd p = Inl e"
  shows "hs_next_sequence (hn_state nd) = - 1"
  using assms hs_helpers_total [OF assms(1,2)]
  by (auto simp: hs_propose_def Let_def rbind_eq_Inl add_u64_Inl split: if_splits)

lemma hs_tick_panics:
  assumes "0 < hn_cluster_size nd" and "hn_cluster_size nd < 2 ^ 64" and "hs_tick nd = Inl e"
  shows "hs_view (hn_state nd) = - 1"
  using assms hs_helpers_total [OF assms(1,2)]
  by (auto simp: hs_tick_def Let_def rbind_eq_Inl add_u64_Inl sub_u64_Inl split: if_splits)

lemma hs_handle_total:
  assumes "0 < hn_cluster_size nd" and "hn_cluster_size nd < 2 ^ 64"
  shows "hs_handle_message nd m \<noteq> Inl e"
proof -
  have total: "hs_quorum nd' = Inr (2 * hs_f (hn_cluster_size nd) + 1)"
    "hs_leader_for_view nd' v = Inr (leader_of (hn_cluster_size nd) v)"
    if "hn_cluster_size nd' = hn_cluster_size nd" for nd' v
    using hs_helpers_total [of nd'] assms that by simp_all
  show ?thesis
  proof (cases "msg_payload m")
    case (HotStuff hm)
    then show ?thesis
      using total
      by (cases hm) (auto simp: hs_handle_message_def hs_on_propose_def hs_on_vote_def hs_on_qc_def
          hs_on_new_view_def Let_def split: if_splits option.splits phase_tag.splits)
  qed (simp_all add: hs_handle_message_def)
qed

end
