(* ===== verification/HsProps.thy ===== *)
theory HsProps
  imports HsQuorum HsLive ClusterSafety Concrete
begin

text \<open>The properties of HotStuff, over the asynchronous system, over clusters and over one node.\<close>

abbreviation hs_entries :: "hs_node \<Rightarrow> committed_entry list" where
  "hs_entries nd \<equiv> hs_committed (hn_state nd)"

abbreviation hs_view_of_node :: "hs_node \<Rightarrow> ViewNumber" where
  "hs_view_of_node nd \<equiv> hs_view (hn_state nd)"

lemma hs_new_member: "hs_member n (hs_new i n)"
  by (simp add: hs_member_def hs_new_wf) (simp add: hs_new_def)

lemma hs_new_simps [simp]:
  "hn_id (hs_new i n) = i" "hs_pending_payloads (hn_state (hs_new i n)) = Map.empty"
  "hs_view (hn_state (hs_new i n)) = 0" "hs_committed (hn_state (hs_new i n)) = []"
  by (simp_all add: hs_new_def)

lemma hs_fresh: "\<forall>i\<in>ids. nodes i = hs_new i n \<Longrightarrow> hbs.fresh_nodes sha n ids nodes"
  by (simp add: hbs.fresh_nodes_def hs_new_member)

lemma hs_ids: "map hn_id (hs_nodes n) = node_ids n"
  by (simp add: hs_nodes_def o_def)

lemma hs_start: "n < 2 ^ 64 \<Longrightarrow> hbs.start_nodes sha n (hs_nodes n)"
  unfolding hbs.start_nodes_def
  by (simp add: hs_ids [unfolded hs_nodes_def] distinct_node_ids hs_nodes_def hs_new_member o_def)

lemma hs_node_at_gen:
  assumes "n < 2 ^ 64"
  shows "\<forall>i\<in>set (node_ids n). node_at (hs_vtable sha) (hs_nodes n) i = hs_new i n"
proof
  fix i
  assume i: "i \<in> set (node_ids n)"
  have d: "distinct (map (vt_id (hs_vtable sha)) (hs_nodes n))"
    using assms by (simp add: hs_ids distinct_node_ids)
  have "hs_new i n \<in> set (hs_nodes n)" using i by (simp add: hs_nodes_def)
  from node_at_self [OF d this] show "node_at (hs_vtable sha) (hs_nodes n) i = hs_new i n" by simp
qed

lemma hs_node_at: "\<forall>i\<in>set (node_ids 4). node_at (hs_vtable sha) (hs_nodes 4) i = hs_new i 4"
  by (rule hs_node_at_gen) simp

text \<open>A concrete run: one proposal in a cluster of four.\<close>

lemma hs_demo_run:
  "\<exists>s e. net_reach False demo_hs (set (node_ids 4)) hs_view_of_node hs_entries
       (net_init (node_at demo_hs (hs_nodes 4))) s \<and>
     (0, e) \<in> set (nt_decided s (NodeId 1)) \<and> (0, e) \<in> set (nt_decided s (NodeId 2))"
proof -
  define e where "e = \<lparr>ce_sequence = 1, ce_payload = Payload [1]\<rparr>"
  have n: "(4 :: usize) < 2 ^ 64" by simp
  have ops: "\<forall>x\<in>set one_round. loyal_op False False x" by (simp add: one_round_def)
  have "ends_with (cluster_run demo_extern demo_hs (new_hotstuff 0 4) one_round) (\<lambda>c.
      list_at (lg_commits (cl_commit_log c)) (NodeId 1) = [\<lparr>ce_sequence = 1, ce_payload = Payload [1]\<rparr>] \<and>
      list_at (lg_commits (cl_commit_log c)) (NodeId 2) = [\<lparr>ce_sequence = 1, ce_payload = Payload [1]\<rparr>])"
    by code_simp
  then obtain c where c: "cluster_run demo_extern demo_hs (cluster_of (hs_nodes 4) (fault_default 0)) one_round = Inr c"
    and log: "list_at (lg_commits (cl_commit_log c)) (NodeId 1) = [e]" "list_at (lg_commits (cl_commit_log c)) (NodeId 2) = [e]"
    unfolding e_def new_hotstuff_def by (blast elim: ends_withE)
  show ?thesis
    using hbs.cluster_still_sim [OF hs_start [OF n] _ c ops] log by (force simp: hs_ids)
qed

section \<open>Agreement and validity\<close>

text \<open>
  C2: In a HotStuff cluster of any size, whatever the network loses, repeats or reorders, whichever
  digests it corrupts and however timers fire, two nodes that decide the same sequence number in
  the same view decide the same payload, and a client proposed it.
\<close>

theorem hs_view_agreement:
  assumes "\<forall>i\<in>ids. nodes i = hs_new i n"
    and "net_reach timers (hs_vtable sha) ids hs_view_of_node hs_entries (net_init nodes) s"
    and "(v, e) \<in> set (nt_decided s i)" and "(v, e') \<in> set (nt_decided s j)"
    and "ce_sequence e = ce_sequence e'"
  shows "ce_payload e = ce_payload e' \<and> ce_payload e \<in> nt_proposed s"
  using hbs.view_agreement [OF hs_fresh [OF assms(1)] assms(2-5)]
    hbs.decided_validity [OF hs_fresh [OF assms(1)] assms(2,3)] by simp

theorem hs_view_agreement_witness:
  "\<exists>(s :: hs_node net) e. (0, e) \<in> set (nt_decided s (NodeId 1)) \<and> (0, e) \<in> set (nt_decided s (NodeId 2)) \<and>
     ce_payload e \<in> nt_proposed s"
proof -
  obtain s e where s: "net_reach False demo_hs (set (node_ids 4)) hs_view_of_node hs_entries
      (net_init (node_at demo_hs (hs_nodes 4))) s"
    "(0, e) \<in> set (nt_decided s (NodeId 1))" "(0, e) \<in> set (nt_decided s (NodeId 2))"
    using hs_demo_run by blast
  from hs_view_agreement [OF hs_node_at s(1-3) refl] s show ?thesis by auto
qed

text \<open>
  C5: A HotStuff cluster in which no node equivocates and no timer runs passes the agreement check
  after every sequence of proposals, steps, runs, fault changes and collections, whatever is
  dropped, partitioned or isolated and however many nodes corrupt digests or drop phases, for
  every set of nodes taken as honest.
\<close>

theorem hs_cluster_agreement:
  assumes "n < 2 ^ 64"
    and "cluster_run X (hs_vtable (sha256 X)) (new_hotstuff entropy n) ops = Inr c"
    and "\<forall>x\<in>set ops. loyal_op False False x"
  shows "check_agreement (cl_commit_log c) honest = Pass"
  by (rule hbs.cluster_agreement [OF hs_start [OF assms(1)] _ assms(2)[unfolded new_hotstuff_def] assms(3)]) simp

text \<open>A round in which two of four nodes misbehave without equivocating.\<close>

definition corrupt_round :: "u64 cluster_op list" where
  "corrupt_round =
     [DoSetFaults (with_byzantine (with_byzantine (fault_default 0) (NodeId 0) [CorruptDigest])
        (NodeId 3) [CorruptDigest, SelectiveDrop [HotStuffVote]]),
      DoPropose (Payload [1]), DoRun 100, DoCollect True]"

lemma corrupt_round_loyal: "\<forall>x\<in>set corrupt_round. loyal_op False False x"
  by (simp add: corrupt_round_def no_equivocation_def with_byzantine_def fault_default_def)

theorem hs_cluster_agreement_witness:
  "ends_with (cluster_run demo_extern demo_hs (new_hotstuff (0 :: u64) 4) corrupt_round)
     (\<lambda>c. check_agreement (cl_commit_log c) (node_ids 4) = Pass \<and> commit_count (cl_commit_log c) (NodeId 2) = 1)"
proof -
  have "ends_with (cluster_run demo_extern demo_hs (new_hotstuff (0 :: u64) 4) corrupt_round)
      (\<lambda>c. commit_count (cl_commit_log c) (NodeId 2) = 1)" by code_simp
  then show ?thesis
    using hs_cluster_agreement [of 4 demo_extern 0 corrupt_round] corrupt_round_loyal
    by (auto simp: ends_with_def split: sum.splits)
qed

text \<open>
  C11: While no node equivocates, the validity check of a HotStuff cluster passes after every
  sequence of calls, ticks and leader waits included.
\<close>

theorem hs_cluster_validity:
  assumes "n < 2 ^ 64"
    and "cluster_run X (hs_vtable (sha256 X)) (new_hotstuff entropy n) ops = Inr c"
    and "\<forall>x\<in>set ops. loyal_op True False x"
  shows "check_validity (cl_commit_log c) honest = Pass"
  by (rule hbs.cluster_validity [OF hs_start [OF assms(1)] _ assms(2)[unfolded new_hotstuff_def] assms(3)]) simp

theorem hs_cluster_validity_witness:
  "ends_with (cluster_run demo_extern demo_hs (new_hotstuff (0 :: u64) 4) (DoTick # one_round))
     (\<lambda>c. check_validity (cl_commit_log c) (node_ids 4) = Pass \<and> commit_count (cl_commit_log c) (NodeId 3) = 1)"
proof -
  have "ends_with (cluster_run demo_extern demo_hs (new_hotstuff (0 :: u64) 4) (DoTick # one_round))
      (\<lambda>c. commit_count (cl_commit_log c) (NodeId 3) = 1)" by code_simp
  moreover have "\<forall>x\<in>set (DoTick # one_round). loyal_op True False x" by (simp add: one_round_def)
  ultimately show ?thesis
    using hs_cluster_validity [of 4 demo_extern 0 "DoTick # one_round"]
    by (auto simp: ends_with_def simp del: cluster_run.simps split: sum.splits)
qed

section \<open>Certificates\<close>

lemma hs_new_backed: "hbe.backed_node sha n {} i (hs_new i n)"
  by (simp add: hbe.backed_node_def hs_new_member hs_node_backed_def) (simp add: hs_new_def)

text \<open>
  C14: Every decision is certified: when a node of a HotStuff cluster of \<open>n\<close> has decided a
  sequence number in a view, then in each of the three phases at least \<open>2f + 1\<close> distinct nodes,
  \<open>f = (n - 1) / 3\<close>, the leader of the view and senders of votes of that phase, stand behind it,
  and all voters are nodes of the cluster.
\<close>

theorem hs_decision_certified:
  assumes "\<forall>i\<in>ids. nodes i = hs_new i n"
    and "net_reach timers (hs_vtable sha) ids hs_view_of_node hs_entries (net_init nodes) s"
    and "(v, e) \<in> set (nt_decided s i)"
  shows "quorum_in (2 * ((n - 1) div 3) + 1)
      (insert (NodeId (v mod word_of_nat n)) (voted_by (nt_sent s) v (ce_sequence e) ph)) \<and>
    voted_by (nt_sent s) v (ce_sequence e) ph \<subseteq> ids"
proof -
  have start: "\<forall>i\<in>ids. hbe.backed_node sha n {} i (nodes i)" using assms(1) hs_new_backed by simp
  have "certified n (nt_sent s) v (ce_sequence e) TagCommit"
    using hbe.decided_backed [OF start assms(2,3)] by (simp add: hs_entry_backed_def)
  moreover have "phase_ord ph \<le> phase_ord TagCommit" by (cases ph) (simp_all add: word_le_nat_alt)
  ultimately have "quorum_in (2 * hs_f n + 1) (insert (leader_of n v) (voted_by (nt_sent s) v (ce_sequence e) ph))"
    by (simp add: certified_def)
  moreover have "r \<in> ids" if r: "r \<in> voted_by (nt_sent s) v (ce_sequence e) ph" for r
  proof -
    obtain m d where m: "m \<in> nt_sent s" "msg_payload m = HotStuff (Vote v (ce_sequence e) d ph r)"
      using r unfolding voted_by_def by blast
    have "hs_msg_backed n ids (nt_sent s) m"
      using hbe.reach_backed [OF start assms(2)] m(1) by (simp add: hbe.backed_net_def)
    then show ?thesis using m(2) by (simp add: hs_msg_backed_def)
  qed
  ultimately show ?thesis by (auto simp: hs_f_def leader_of_def)
qed

theorem hs_decision_certified_witness:
  "\<exists>(s :: hs_node net) e. (0, e) \<in> set (nt_decided s (NodeId 1)) \<and>
     quorum_in 3 (insert (NodeId 0) (voted_by (nt_sent s) 0 (ce_sequence e) TagPreCommit))"
proof -
  obtain s e where s: "net_reach False demo_hs (set (node_ids 4)) hs_view_of_node hs_entries
      (net_init (node_at demo_hs (hs_nodes 4))) s" "(0, e) \<in> set (nt_decided s (NodeId 1))"
    using hs_demo_run by blast
  from hs_decision_certified [OF hs_node_at s, of TagPreCommit] s(2) show ?thesis by force
qed

section \<open>One node\<close>

text \<open>
  C17: The leader of a view of a cluster of at least four drives an accepted proposal to a decision:
  whichever \<open>2f\<close> distinct other nodes vote in each of the three phases, it broadcasts exactly the
  three certificates in order, each with \<open>2f + 1\<close> votes, and appends the payload to its decided
  entries.
\<close>

theorem hs_leader_decides:
  assumes "hs_propose sha nd p = Inr (nd1, Accepted, out)"
    and "4 \<le> hn_cluster_size nd" and "hn_cluster_size nd < 2 ^ 64"
    and "\<And>ph. distinct (rs ph) \<and> length (rs ph) = 2 * ((hn_cluster_size nd - 1) div 3) \<and> hn_id nd \<notin> set (rs ph)"
  shows "\<exists>nd2. node_run (hs_vtable sha) nd1
      (handle_all (hs_votes (rs TagPrepare) (hn_id nd) (hs_view_of_node nd) (hs_next_sequence (hn_state nd)) d TagPrepare) @
       handle_all (hs_votes (rs TagPreCommit) (hn_id nd) (hs_view_of_node nd) (hs_next_sequence (hn_state nd)) d TagPreCommit) @
       handle_all (hs_votes (rs TagCommit) (hn_id nd) (hs_view_of_node nd) (hs_next_sequence (hn_state nd)) d TagCommit)) =
      Inr (nd2, concat (map (\<lambda>ph. broadcast_hotstuff nd (QuorumCertificate (hs_view_of_node nd)
        (hs_next_sequence (hn_state nd)) d ph (2 * ((hn_cluster_size nd - 1) div 3) + 1)))
        [TagPrepare, TagPreCommit, TagCommit]), []) \<and>
    hs_entries nd2 = hs_entries nd @ [\<lparr>ce_sequence = hs_next_sequence (hn_state nd), ce_payload = p\<rparr>]"
proof -
  let ?sq = "hs_next_sequence (hn_state nd)"
  have nd1: "hs_slots (hn_state nd1) ?sq =
      Some ((hs_slot_new (hs_view_of_node nd) ?sq)\<lparr>ss_phase := HsPrepare, ss_prepare_voters := {hn_id nd}\<rparr>)"
    "hs_pending_payloads (hn_state nd1) ?sq = Some p" "hn_id nd1 = hn_id nd" "hn_peer_ids nd1 = hn_peer_ids nd"
    "hn_cluster_size nd1 = hn_cluster_size nd" "hs_view_of_node nd1 = hs_view_of_node nd"
    "leader_of (hn_cluster_size nd) (hs_view_of_node nd) = hn_id nd" "hs_entries nd1 = hs_entries nd"
    using assms(1) by (auto simp: hs_propose_def Let_def res_simps leader_of_def split: if_splits)
  show ?thesis
    using hs_leader_run [OF nd1(1) _ _ _ _ nd1(2), of rs sha d] nd1 assms(2-4)
    by (simp add: hs_slot_new_def hs_f_def broadcast_hotstuff_def)
qed

theorem hs_leader_decides_witness:
  "\<exists>nd1 out nd2 out2. hs_propose demo_sha (hs_new (NodeId 0) 4) (Payload [7]) = Inr (nd1, Accepted, out) \<and>
     node_run (hs_vtable demo_sha) nd1
      (handle_all (hs_votes [NodeId 1, NodeId 2] (NodeId 0) 0 1 (Digest []) TagPrepare) @
       handle_all (hs_votes [NodeId 1, NodeId 2] (NodeId 0) 0 1 (Digest []) TagPreCommit) @
       handle_all (hs_votes [NodeId 1, NodeId 2] (NodeId 0) 0 1 (Digest []) TagCommit)) = Inr (nd2, out2, []) \<and>
     hs_entries nd2 = [\<lparr>ce_sequence = 1, ce_payload = Payload [7]\<rparr>]"
proof -
  have "\<exists>nd1 out. hs_propose demo_sha (hs_new (NodeId 0) 4) (Payload [7]) = Inr (nd1, Accepted, out)"
    by (simp add: hs_propose_def hs_new_def hs_leader_for_view_def rem_u64_def add_u64_def Let_def)
  then obtain nd1 out where p: "hs_propose demo_sha (hs_new (NodeId 0) 4) (Payload [7]) = Inr (nd1, Accepted, out)"
    by blast
  have new: "hs_next_sequence (hn_state (hs_new (NodeId 0) 4)) = 1" "hn_cluster_size (hs_new (NodeId 0) 4) = 4"
    by (simp_all add: hs_new_def)
  show ?thesis
    using hs_leader_decides [OF p, where rs = "\<lambda>ph. [NodeId 1, NodeId 2]" and d = "Digest []"] p by (auto simp: new)
qed

text \<open>
  A replica follows the certificates of its leader: after the proposal and the certificates of
  the three phases, each with at least \<open>2f + 1\<close> votes, it has sent the leader exactly its three
  votes in order and has appended the payload to its decided entries, still in the same view.
\<close>

theorem hs_replica_decides:
  assumes "0 < hn_cluster_size nd" and "hn_cluster_size nd < 2 ^ 64"
    and "\<And>ph. 2 * ((hn_cluster_size nd - 1) div 3) + 1 \<le> c ph"
    and "l = leader_of (hn_cluster_size nd) (hs_view_of_node nd)"
  shows "\<exists>nd'. node_run (hs_vtable sha) nd (handle_all (map (\<lambda>m. mk_msg l (hn_id nd) (HotStuff m))
      [Propose (hs_view_of_node nd) sq d p jv jp,
       QuorumCertificate (hs_view_of_node nd) sq d TagPrepare (c TagPrepare),
       QuorumCertificate (hs_view_of_node nd) sq d TagPreCommit (c TagPreCommit),
       QuorumCertificate (hs_view_of_node nd) sq d TagCommit (c TagCommit)])) =
      Inr (nd', map (\<lambda>ph. mk_msg (hn_id nd) l (HotStuff (Vote (hs_view_of_node nd) sq d ph (hn_id nd))))
        [TagPrepare, TagPreCommit, TagCommit], []) \<and>
    hs_entries nd' = hs_entries nd @ [\<lparr>ce_sequence = sq, ce_payload = p\<rparr>] \<and>
    hs_view_of_node nd' = hs_view_of_node nd"
  unfolding assms(4) by (rule hs_replica_run) (use assms in \<open>simp_all add: hs_f_def\<close>)

theorem hs_replica_decides_witness:
  "\<exists>nd' out. node_run (hs_vtable demo_sha) (hs_new (NodeId 1) 4) (handle_all (map (\<lambda>m. mk_msg (NodeId 0) (NodeId 1) (HotStuff m))
      [Propose 0 1 (Digest []) (Payload [7]) 0 TagPrepare, QuorumCertificate 0 1 (Digest []) TagPrepare 3,
       QuorumCertificate 0 1 (Digest []) TagPreCommit 3, QuorumCertificate 0 1 (Digest []) TagCommit 3])) =
      Inr (nd', out, []) \<and> hs_entries nd' = [\<lparr>ce_sequence = 1, ce_payload = Payload [7]\<rparr>]"
proof -
  have new: "hn_cluster_size (hs_new (NodeId 1) 4) = 4" by (simp add: hs_new_def)
  have q: "2 * ((hn_cluster_size (hs_new (NodeId 1) 4) - 1) div 3) + 1 \<le> (3 :: usize)" by (simp add: new)
  have l: "NodeId 0 = leader_of (hn_cluster_size (hs_new (NodeId 1) 4)) (hs_view_of_node (hs_new (NodeId 1) 4))"
    by (simp add: leader_of_def)
  show ?thesis
    using hs_replica_decides [of "hs_new (NodeId 1) 4" "\<lambda>ph. 3", OF _ _ q l, of demo_sha 1 "Digest []" "Payload [7]" 0 TagPrepare]
    by (auto simp: new simp del: node_run.simps)
qed

text \<open>
  C24: In a cluster of at least one node no message makes a HotStuff node panic; a proposal does only
  when the next sequence number, a tick only when the view is the last 64-bit word.
\<close>

theorem hs_panics:
  assumes "0 < hn_cluster_size nd" and "hn_cluster_size nd < 2 ^ 64"
  shows "hs_handle_message nd m \<noteq> Inl e \<and>
    (hs_propose sha nd p = Inl e \<longrightarrow> hs_next_sequence (hn_state nd) = - 1) \<and>
    (hs_tick nd = Inl e \<longrightarrow> hs_view_of_node nd = - 1)"
  using hs_handle_total [OF assms] hs_propose_panics [OF assms] hs_tick_panics [OF assms] by blast

theorem hs_panics_witness:
  "hs_tick ((hs_new (NodeId 0) 4)\<lparr>hn_state := (hn_state (hs_new (NodeId 0) 4))\<lparr>hs_view := - 1, hs_view_change_timeout := 0\<rparr>\<rparr>) =
     Inl ArithmeticOverflow \<and> hs_tick (hs_new (NodeId 1) 4) \<noteq> Inl ArithmeticOverflow"
proof
  show "hs_tick (hs_new (NodeId 1) 4) \<noteq> Inl ArithmeticOverflow"
    using hs_panics [of "hs_new (NodeId 1) 4" _ ArithmeticOverflow demo_sha "Payload []"] by (auto simp: hs_new_def)
qed code_simp

text \<open>
  A certificate never lowers the highest certificate a replica knows, in the order by view and
  then by phase, and it raises it to the certificate's whenever that is higher and certified by
  \<open>2f + 1\<close> votes.
\<close>

theorem hs_highest_qc_grows:
  assumes "hs_on_qc nd v sq d ph c = Inr (nd', out)"
  shows "qc_le (hn_state nd) (hn_state nd') \<and>
    (2 * ((hn_cluster_size nd - 1) div 3) + 1 \<le> c \<longrightarrow>
       hs_highest_qc_view (hn_state nd) < v \<longrightarrow>
       hs_highest_qc_view (hn_state nd') = v \<and> hs_highest_qc_phase (hn_state nd') = ph)"
proof -
  have "2 * hs_f (hn_cluster_size nd) + 1 \<le> c \<Longrightarrow> hs_highest_qc_view (hn_state nd) < v \<Longrightarrow>
      hs_highest_qc_view (hn_state nd') = v \<and> hs_highest_qc_phase (hn_state nd') = ph"
    using assms by (cases ph) (auto simp: hs_on_qc_def hs_track_qc_def Let_def res_simps split: if_splits)
  then show ?thesis using hs_on_qc_le [OF assms] by (auto simp: hs_f_def)
qed

theorem hs_highest_qc_grows_witness:
  "ends_with (hs_on_qc (hs_new (NodeId 1) 4) 2 1 (Digest []) TagCommit 3)
     (\<lambda>(nd', out). hs_highest_qc_view (hn_state nd') = 2 \<and> hs_highest_qc_phase (hn_state nd') = TagCommit \<and> out = [])"
proof -
  have "ends_with (hs_on_qc (hs_new (NodeId 1) 4) 2 1 (Digest []) TagCommit 3) (\<lambda>(nd', out). out = [])" by code_simp
  moreover have "hn_cluster_size (hs_new (NodeId 1) 4) = 4" "hs_highest_qc_view (hn_state (hs_new (NodeId 1) 4)) = 0"
    by (simp_all add: hs_new_def)
  ultimately show ?thesis
    using hs_highest_qc_grows [of "hs_new (NodeId 1) 4" 2 1 "Digest []" TagCommit 3]
    by (auto simp: ends_with_def split: sum.splits)
qed

end
