(* ===== verification/RaftInv.thy ===== *)
theory RaftInv
  imports RaftNode Workload
begin

text \<open>
  The Raft node on its own: its well-formedness invariant, the monotonicity of terms, votes and
  the commit index, and the trait's contract, discharged for the Raft methods.
\<close>

section \<open>Helpers\<close>

lemma init_indices_simps [simp]:
  "rf_current_term (init_indices k ps st) = rf_current_term st"
  "rf_voted_for (init_indices k ps st) = rf_voted_for st"
  "rf_log (init_indices k ps st) = rf_log st"
  "rf_commit_index (init_indices k ps st) = rf_commit_index st"
  "rf_role (init_indices k ps st) = rf_role st"
  "rf_leader_id (init_indices k ps st) = rf_leader_id st"
  "rf_votes_received (init_indices k ps st) = rf_votes_received st"
  "rf_election_ticks_remaining (init_indices k ps st) = rf_election_ticks_remaining st"
  "rf_heartbeat_ticks_remaining (init_indices k ps st) = rf_heartbeat_ticks_remaining st"
  "rf_committed (init_indices k ps st) = rf_committed st"
  by (induction ps arbitrary: st) simp_all

lemma init_indices_next:
  "rf_next_index (init_indices k ps st) i = (if i \<in> set ps then Some k else rf_next_index st i)"
  by (induction ps arbitrary: st) auto

lemma init_indices_match_distinct:
  "distinct (map fst (rf_match_index st)) \<Longrightarrow> distinct (map fst (rf_match_index (init_indices k ps st)))"
  by (induction ps arbitrary: st) (simp_all add: distinct_update)

lemma init_indices_match:
  "map_of (rf_match_index (init_indices k ps st)) i = (if i \<in> set ps then Some 0 else map_of (rf_match_index st) i)"
  by (induction ps arbitrary: st) (auto simp: map_of_update)

lemma reset_election_timeout_simps [simp]:
  "rf_current_term (reset_election_timeout X st) = rf_current_term st"
  "rf_voted_for (reset_election_timeout X st) = rf_voted_for st"
  "rf_log (reset_election_timeout X st) = rf_log st"
  "rf_commit_index (reset_election_timeout X st) = rf_commit_index st"
  "rf_role (reset_election_timeout X st) = rf_role st"
  "rf_leader_id (reset_election_timeout X st) = rf_leader_id st"
  "rf_votes_received (reset_election_timeout X st) = rf_votes_received st"
  "rf_next_index (reset_election_timeout X st) = rf_next_index st"
  "rf_match_index (reset_election_timeout X st) = rf_match_index st"
  "rf_heartbeat_ticks_remaining (reset_election_timeout X st) = rf_heartbeat_ticks_remaining st"
  "rf_committed (reset_election_timeout X st) = rf_committed st"
  by (simp_all add: reset_election_timeout_def split: prod.splits)

lemma build_append_entries_Inr:
  "build_append_entries nd st peer = Inr m \<Longrightarrow> msg_from m = rn_id nd \<and> msg_to m = peer \<and>
     (\<exists>pli plt es. msg_payload m =
        Raft (AppendEntries (rf_current_term st) (rn_id nd) pli plt es (rf_commit_index st)))"
  by (auto simp: build_append_entries_def Let_def res_simps)

lemma append_entries_to_peers_mem:
  assumes "append_entries_to_peers nd st = Inr out" and "x \<in> set out"
  shows "\<exists>peer\<in>set (rn_peer_ids nd). build_append_entries nd st peer = Inr x"
proof -
  have all2: "list_all2 (\<lambda>peer m. build_append_entries nd st peer = Inr m) (rn_peer_ids nd) out"
    using assms(1) by (simp add: append_entries_to_peers_def map_res_Inr_iff)
  obtain i where i: "i < length out" "out ! i = x" using assms(2) unfolding in_set_conv_nth by blast
  have "i < length (rn_peer_ids nd)" using i(1) list_all2_lengthD [OF all2] by simp
  then show ?thesis using list_all2_nthD2 [OF all2 i(1)] i(2) by auto
qed

lemma append_entries_to_peers_signed:
  "append_entries_to_peers nd st = Inr out \<Longrightarrow> \<forall>x\<in>set out. msg_from x = rn_id nd"
  using append_entries_to_peers_mem build_append_entries_Inr by blast

text \<open>Committing hands out the slice of the log between the two indices.\<close>

lemma commit_to_Inr:
  "commit_to st k = Inr st' \<longleftrightarrow>
     unat (rf_commit_index st) \<le> unat k \<and> unat k \<le> length (rf_log st) \<and>
     st' = st\<lparr>rf_commit_index := k, rf_committed := rf_committed st @
       map entry_of (take (unat k - unat (rf_commit_index st)) (drop (unat (rf_commit_index st)) (rf_log st)))\<rparr>"
  by (auto simp: commit_to_def res_simps slice_Inr_iff)

section \<open>What each arm does\<close>

text \<open>
  The shape of every step: identity, size and peers stay; what is sent is signed; entries are
  only added to those waiting to be polled; the term never falls, and a vote once given in a term
  stays for that term; the commit index never falls.
\<close>

definition raft_effect :: "'rng raft_node \<Rightarrow> 'rng raft_node \<Rightarrow> network_message list \<Rightarrow> bool" where
  "raft_effect nd nd' out \<longleftrightarrow>
     (let st = rn_state nd; st' = rn_state nd' in
      rn_id nd' = rn_id nd \<and> rn_cluster_size nd' = rn_cluster_size nd \<and> rn_peer_ids nd' = rn_peer_ids nd \<and>
      (\<forall>x\<in>set out. msg_from x = rn_id nd) \<and>
      (\<exists>es. rf_committed st' = rf_committed st @ es) \<and>
      rf_current_term st \<le> rf_current_term st' \<and>
      (rf_current_term st' = rf_current_term st \<longrightarrow> rf_voted_for st \<noteq> None \<longrightarrow> rf_voted_for st' = rf_voted_for st) \<and>
      rf_commit_index st \<le> rf_commit_index st' \<and>
      (distinct (map fst (rf_match_index st)) \<longrightarrow> distinct (map fst (rf_match_index st'))))"

lemma raft_effect_refl: "\<forall>x\<in>set out. msg_from x = rn_id nd \<Longrightarrow> raft_effect nd nd out"
  by (simp add: raft_effect_def)

lemma raft_on_request_vote_cases:
  assumes "raft_on_request_vote X nd sender t cand li lt = Inr (nd', out)"
  obtains st granted where
    "st = (if rf_current_term (rn_state nd) < t
       then (rn_state nd)\<lparr>rf_current_term := t, rf_role := Follower, rf_voted_for := None, rf_leader_id := None\<rparr>
       else rn_state nd)"
    "granted \<longrightarrow> rf_current_term st = t \<and> rf_voted_for st \<in> {None, Some cand} \<and>
       (last_log_term st < lt \<or> last_log_term st = lt \<and> log_len st \<le> li)"
    "nd' = nd\<lparr>rn_state := if granted then reset_election_timeout X (st\<lparr>rf_voted_for := Some cand\<rparr>) else st\<rparr>"
    "out = [mk_msg (rn_id nd) sender (Raft (RequestVoteResponse (rf_current_term st) granted))]"
proof -
  define st where "st = (if rf_current_term (rn_state nd) < t
       then (rn_state nd)\<lparr>rf_current_term := t, rf_role := Follower, rf_voted_for := None, rf_leader_id := None\<rparr>
       else rn_state nd)"
  define granted where "granted = (if t < rf_current_term st \<or>
      (rf_voted_for st \<noteq> None \<and> rf_voted_for st \<noteq> Some cand) then False
    else if last_log_term st < lt then True else if lt = last_log_term st then log_len st \<le> li else False)"
  define st' where "st' = (if granted then reset_election_timeout X (st\<lparr>rf_voted_for := Some cand\<rparr>) else st)"
  have "nd' = nd\<lparr>rn_state := st'\<rparr> \<and>
      out = [mk_msg (rn_id nd) sender (Raft (RequestVoteResponse (rf_current_term st') granted))]"
    using assms by (simp only: raft_on_request_vote_def Let_def st'_def granted_def st_def sum.inject prod.inject simp_thms)
  moreover have "rf_current_term st' = rf_current_term st" by (simp add: st'_def)
  moreover have "t \<le> rf_current_term st" by (simp add: st_def not_less)
  then have "granted \<longrightarrow> rf_current_term st = t \<and> rf_voted_for st \<in> {None, Some cand} \<and>
      (last_log_term st < lt \<or> last_log_term st = lt \<and> log_len st \<le> li)"
    by (auto simp: granted_def split: if_splits)
  ultimately show ?thesis using that [OF st_def, of granted] by (simp add: st'_def)
qed

lemma raft_on_request_vote_effect:
  assumes "raft_on_request_vote X nd sender t cand li lt = Inr (nd', out)"
  shows "raft_effect nd nd' out"
  using assms
proof (cases rule: raft_on_request_vote_cases)
  case (1 st granted)
  then show ?thesis
    by (cases granted; cases "rf_current_term (rn_state nd) < t") (auto simp: raft_effect_def Let_def)
qed

lemma raft_on_request_vote_response_effect:
  assumes "raft_on_request_vote_response nd t g = Inr (nd', out)"
  shows "raft_effect nd nd' out"
  using assms
  by (auto simp: raft_on_request_vote_response_def raft_effect_def Let_def res_simps init_indices_match_distinct
      split: if_splits dest: append_entries_to_peers_signed)

lemma raft_on_append_entries_response_effect:
  assumes "raft_on_append_entries_response nd sender t s k = Inr (nd', out)"
  shows "raft_effect nd nd' out"
  using assms
  by (auto simp: raft_on_append_entries_response_def raft_effect_def Let_def res_simps commit_to_Inr distinct_update
      word_le_nat_alt [symmetric] split: if_splits option.splits dest: build_append_entries_Inr)

lemma raft_log_self: "rf_log st = xs \<Longrightarrow> st\<lparr>rf_log := xs\<rparr> = st"
  by (cases st) simp

text \<open>The four ways an \<open>AppendEntries\<close> can end.\<close>

lemma raft_on_append_entries_cases:
  assumes "raft_on_append_entries X nd sender t leader pli plt es lc = Inr (nd', out)"
  obtains (stale) "t < rf_current_term (rn_state nd)" "nd' = nd"
      "out = [mk_msg (rn_id nd) sender (Raft (AppendEntriesResponse (rf_current_term (rn_state nd)) False 0))]"
  | (rejected) st k where
      "rf_current_term (rn_state nd) \<le> t"
      "st = reset_election_timeout X
         ((rn_state nd)\<lparr>rf_current_term := t, rf_role := Follower, rf_leader_id := Some leader\<rparr>)"
      "nd' = nd\<lparr>rn_leader_id_atomic := node_num leader, rn_state := st\<lparr>rf_log := take k (rf_log (rn_state nd))\<rparr>\<rparr>"
      "out = [mk_msg (rn_id nd) sender
         (Raft (AppendEntriesResponse t False (word_of_nat (length (take k (rf_log (rn_state nd)))))))]"
      "0 < pli"
      "length (rf_log (rn_state nd)) \<le> unat (pli - 1) \<and> take k (rf_log (rn_state nd)) = rf_log (rn_state nd) \<or>
       unat (pli - 1) < length (rf_log (rn_state nd)) \<and> le_term (rf_log (rn_state nd) ! unat (pli - 1)) \<noteq> plt \<and>
       k = unat (pli - 1)"
  | (merged) st log' st' where
      "rf_current_term (rn_state nd) \<le> t"
      "0 < pli \<longrightarrow> unat (pli - 1) < length (rf_log (rn_state nd)) \<and>
         le_term (rf_log (rn_state nd) ! unat (pli - 1)) = plt"
      "st = reset_election_timeout X
         ((rn_state nd)\<lparr>rf_current_term := t, rf_role := Follower, rf_leader_id := Some leader\<rparr>)"
      "append_loop (rf_log (rn_state nd)) es = Inr log'"
      "(if rf_commit_index (rn_state nd) < lc
        then commit_to (st\<lparr>rf_log := log'\<rparr>) (min lc (word_of_nat (length log'))) else Inr (st\<lparr>rf_log := log'\<rparr>)) = Inr st'"
      "nd' = nd\<lparr>rn_leader_id_atomic := node_num leader, rn_state := st'\<rparr>"
      "out = [mk_msg (rn_id nd) sender (Raft (AppendEntriesResponse t True (word_of_nat (length log'))))]"
proof (cases "t < rf_current_term (rn_state nd)")
  case True
  then have "nd' = nd \<and>
      out = [mk_msg (rn_id nd) sender (Raft (AppendEntriesResponse (rf_current_term (rn_state nd)) False 0))]"
    using assms by (simp only: raft_on_append_entries_def Let_def if_True sum.inject prod.inject) blast
  then show ?thesis using True by (intro stale) auto
next
  case False
  let ?log = "rf_log (rn_state nd)"
  let ?st = "reset_election_timeout X
    ((rn_state nd)\<lparr>rf_current_term := t, rf_role := Follower, rf_leader_id := Some leader\<rparr>)"
  have le: "rf_current_term (rn_state nd) \<le> t" using False by simp
  have commit_term: "rf_current_term st' = rf_current_term st" if "commit_to st k = Inr st'" for st k and st' :: "'a raft_state"
    using that by (auto simp: commit_to_Inr)
  consider (missing) "0 < pli" "length ?log \<le> unat (pli - 1)"
    | (conflict) "0 < pli" "unat (pli - 1) < length ?log" "le_term (?log ! unat (pli - 1)) \<noteq> plt"
    | (ok) "0 < pli \<longrightarrow> unat (pli - 1) < length ?log \<and> le_term (?log ! unat (pli - 1)) = plt"
    by (meson not_le)
  then show ?thesis
  proof cases
    case missing
    then show ?thesis
      using assms False
      by (intro rejected [OF le refl, of "length ?log"])
        (simp_all add: raft_on_append_entries_def Let_def log_len_def vec_get_def raft_log_self, blast?)
  next
    case conflict
    then show ?thesis
      using assms False
      by (intro rejected [OF le refl, of "unat (pli - 1)"])
        (simp_all add: raft_on_append_entries_def Let_def log_len_def vec_get_def)
  next
    case ok
    then have "rbind (append_loop ?log es) (\<lambda>log'.
        rbind (if rf_commit_index (rn_state nd) < lc
               then commit_to (?st\<lparr>rf_log := log'\<rparr>) (min lc (word_of_nat (length log'))) else Inr (?st\<lparr>rf_log := log'\<rparr>)) (\<lambda>st3.
        Inr (nd\<lparr>rn_leader_id_atomic := node_num leader, rn_state := st3\<rparr>,
          [mk_msg (rn_id nd) sender (Raft (AppendEntriesResponse (rf_current_term st3) True (word_of_nat (length log'))))])))
      = Inr (nd', out)"
      using assms False
      by (cases "0 < pli") (simp_all add: raft_on_append_entries_def Let_def log_len_def vec_get_def cong: if_cong)
    then obtain log' st' where "append_loop ?log es = Inr log'"
      "(if rf_commit_index (rn_state nd) < lc
        then commit_to (?st\<lparr>rf_log := log'\<rparr>) (min lc (word_of_nat (length log'))) else Inr (?st\<lparr>rf_log := log'\<rparr>)) = Inr st'"
      "nd' = nd\<lparr>rn_leader_id_atomic := node_num leader, rn_state := st'\<rparr>"
      "out = [mk_msg (rn_id nd) sender (Raft (AppendEntriesResponse (rf_current_term st') True (word_of_nat (length log'))))]"
      unfolding rbind_eq_Inr by blast
    moreover from this(2) have "rf_current_term st' = t"
      by (auto split: if_splits dest: commit_term)
    ultimately show ?thesis using merged [OF le ok refl] by simp
  qed
qed

lemma raft_on_append_entries_effect:
  assumes "raft_on_append_entries X nd sender t leader pli plt es lc = Inr (nd', out)"
  shows "raft_effect nd nd' out"
  using assms
proof (cases rule: raft_on_append_entries_cases)
  case stale
  then show ?thesis by (simp add: raft_effect_refl)
next
  case (rejected st k)
  then show ?thesis by (auto simp: raft_effect_def)
next
  case (merged st log' st')
  then show ?thesis
    by (auto simp: raft_effect_def Let_def commit_to_Inr word_le_nat_alt [symmetric] split: if_splits)
qed

lemma raft_handle_effect:
  assumes "raft_handle_message X nd m = Inr (nd', out)"
  shows "raft_effect nd nd' out"
proof (cases "msg_payload m")
  case (Raft rm)
  then show ?thesis
    using assms
    by (cases rm) (auto simp: raft_handle_message_def intro: raft_on_request_vote_effect
        raft_on_request_vote_response_effect raft_on_append_entries_effect raft_on_append_entries_response_effect)
qed (use assms in \<open>auto simp: raft_handle_message_def raft_effect_refl\<close>)

lemma raft_propose_effect:
  assumes "raft_propose nd p = Inr (nd', r, out)"
  shows "raft_effect nd nd' out \<and> rf_committed (rn_state nd') = rf_committed (rn_state nd)"
  using assms
  by (auto simp: raft_propose_def raft_effect_def Let_def res_simps split: if_splits
      dest: append_entries_to_peers_signed)

lemma raft_propose_rejected: "raft_propose nd p = Inr (nd', NotLeader l, out) \<Longrightarrow> nd' = nd \<and> out = []"
  by (auto simp: raft_propose_def Let_def res_simps split: if_splits)

lemma raft_start_election_effect:
  "raft_start_election X nd = Inr (nd', out) \<Longrightarrow>
     raft_effect nd nd' out \<and> rf_committed (rn_state nd') = rf_committed (rn_state nd) \<and>
     rf_current_term (rn_state nd) < rf_current_term (rn_state nd')"
  by (auto simp: raft_start_election_def raft_effect_def Let_def res_simps dest!: add_u64_less)

lemma raft_tick_effect:
  assumes "raft_tick X nd = Inr (nd', out)"
  shows "raft_effect nd nd' out \<and> rf_committed (rn_state nd') = rf_committed (rn_state nd)"
  using assms raft_start_election_effect [of X nd nd' out]
  by (auto simp: raft_tick_def raft_effect_def Let_def res_simps split: if_splits
      dest: append_entries_to_peers_signed)

section \<open>The contract\<close>

definition raft_wf :: "usize \<Rightarrow> 'rng raft_node \<Rightarrow> bool" where
  "raft_wf n nd \<longleftrightarrow> rn_cluster_size nd = n \<and> rn_peer_ids nd = peers_of (rn_id nd) n \<and>
     distinct (map fst (rf_match_index (rn_state nd)))"

lemma raft_effect_wf: "raft_wf n nd \<Longrightarrow> raft_effect nd nd' out \<Longrightarrow> raft_wf n nd'"
  by (auto simp: raft_wf_def raft_effect_def Let_def)

lemma raft_new_wf: "raft_wf n (raft_new_seeded X i n rng)"
  by (simp add: raft_wf_def raft_new_seeded_def split: prod.splits)

lemma raft_force_leader_wf: "raft_wf n nd \<Longrightarrow> raft_force_leader nd = Inr nd' \<Longrightarrow> raft_wf n nd'"
  by (auto simp: raft_wf_def raft_force_leader_def Let_def res_simps init_indices_match_distinct)

interpretation rb: consensus_node "raft_vtable X" "raft_wf n" "\<lambda>nd. rf_committed (rn_state nd)"
  for X n
proof
  fix nd nd' :: "'a raft_node" and p m r out l
  show "vt_propose (raft_vtable X) nd p = Inr (nd', NotLeader l, out) \<Longrightarrow> nd' = nd \<and> out = []"
    using raft_propose_rejected by simp
  show "vt_id (raft_vtable X) nd' = vt_id (raft_vtable X) nd"
    "\<forall>x\<in>set out. msg_from x = vt_id (raft_vtable X) nd"
    "rf_committed (rn_state nd') = rf_committed (rn_state nd)"
    "raft_wf n nd \<Longrightarrow> raft_wf n nd'"
    if "vt_propose (raft_vtable X) nd p = Inr (nd', r, out)"
    using raft_propose_effect [of nd p nd' r out] that raft_effect_wf [of n nd nd' out]
    by (auto simp: raft_effect_def Let_def)
  show "vt_id (raft_vtable X) nd' = vt_id (raft_vtable X) nd"
    "\<forall>x\<in>set out. msg_from x = vt_id (raft_vtable X) nd"
    "\<exists>es. rf_committed (rn_state nd') = rf_committed (rn_state nd) @ es"
    "raft_wf n nd \<Longrightarrow> raft_wf n nd'"
    if "vt_handle_message (raft_vtable X) nd m = Inr (nd', out)"
    using raft_handle_effect [of X nd m nd' out] that raft_effect_wf [of n nd nd' out]
    by (auto simp: raft_effect_def Let_def)
  show "vt_id (raft_vtable X) nd' = vt_id (raft_vtable X) nd"
    "\<forall>x\<in>set out. msg_from x = vt_id (raft_vtable X) nd"
    "rf_committed (rn_state nd') = rf_committed (rn_state nd)"
    "raft_wf n nd \<Longrightarrow> raft_wf n nd'"
    if "vt_tick (raft_vtable X) nd = Inr (nd', out)"
    using raft_tick_effect [of X nd nd' out] that raft_effect_wf [of n nd nd' out]
    by (auto simp: raft_effect_def Let_def)
qed (auto simp: raft_poll_committed_def raft_wf_def)

end
