(* ===== verification/RaftSafety.thy ===== *)
theory RaftSafety
  imports RaftInv
begin

text \<open>
  Raft under a stable leader: one node was made leader of term 1 with \<open>force_leader\<close> and no
  timer fires, so there are no elections.  Whatever the network loses, repeats or reorders, every
  node's log is a prefix of the leader's, and what a node has committed is, in order and without
  gaps, the log up to its commit index.
\<close>

section \<open>Logs of one term\<close>

lemma unat_pred:
  assumes "0 < (x :: u64)"
  shows "unat (x - 1) = unat x - 1"
proof -
  have "\<not> x < 1" using assms by (simp add: word_less_nat_alt)
  then show ?thesis using sub_u64_unat [of x 1 "x - 1"] by (simp add: sub_u64_def)
qed

lemma eq_word_of_nat: "unat (w :: u64) = n \<Longrightarrow> w = word_of_nat n"
  by auto

text \<open>Entries of term 1 numbered from 1, few enough for a 64-bit index.\<close>

definition aligned :: "log_entry list \<Rightarrow> bool" where
  "aligned L \<longleftrightarrow> length L < 2 ^ 64 \<and>
     (\<forall>k < length L. le_term (L ! k) = 1 \<and> le_index (L ! k) = word_of_nat (Suc k))"

lemma aligned_index: "aligned L \<Longrightarrow> k < length L \<Longrightarrow> sub_u64 (le_index (L ! k)) 1 = Inr (word_of_nat k)"
proof -
  assume a: "aligned L" "k < length L"
  then have "Suc k < 2 ^ 64" and i: "le_index (L ! k) = word_of_nat (Suc k)"
    by (auto simp: aligned_def)
  then have "unat (word_of_nat (Suc k) :: u64) = Suc k" by (intro unat_word_of_nat_small)
  then have "\<not> (word_of_nat (Suc k) :: u64) < 1" by (simp add: word_less_nat_alt)
  then show ?thesis using i by (simp add: sub_u64_def)
qed

lemma aligned_unat: "aligned L \<Longrightarrow> k \<le> length L \<Longrightarrow> unat (word_of_nat k :: u64) = k"
  by (intro unat_word_of_nat_small) (simp add: aligned_def)

lemma aligned_snoc:
  assumes "aligned L" and "add_u64 (word_of_nat (length L)) 1 = Inr i"
  shows "aligned (L @ [\<lparr>le_term = 1, le_index = i, le_payload = p\<rparr>])"
proof -
  have len: "unat (word_of_nat (length L) :: u64) = length L" using assms(1) by (simp add: aligned_unat)
  then have "unat i = Suc (length L)" using add_u64_unat [OF assms(2)] by simp
  moreover have "unat i < 2 ^ 64" using unsigned_less [where 'a = nat and w = i] by simp
  moreover have "i = word_of_nat (Suc (length L))" using calculation(1) by (rule eq_word_of_nat)
  ultimately show ?thesis
    using assms(1) by (auto simp: aligned_def nth_append less_Suc_eq)
qed

text \<open>
  The merge loop on a prefix of an aligned log and entries of that log which start within the
  prefix: the result is the longer of the two prefixes.
\<close>

lemma append_loop_prefix:
  "aligned L \<Longrightarrow> k \<le> a \<Longrightarrow> a \<le> length L \<Longrightarrow> k + j \<le> length L \<Longrightarrow>
     append_loop (take a L) (take j (drop k L)) = Inr (take (max a (k + j)) L)"
proof (induction j arbitrary: k a)
  case 0
  then show ?case by (simp add: max_def)
next
  case (Suc j)
  then have k: "k < length L" by simp
  have step: "take (Suc j) (drop k L) = L ! k # take j (drop (Suc k) L)"
    using k by (simp add: Cons_nth_drop_Suc [symmetric])
  have idx: "sub_u64 (le_index (L ! k)) 1 = Inr (word_of_nat k)" "unat (word_of_nat k :: u64) = k"
    using Suc.prems(1) k by (simp_all add: aligned_index aligned_unat)
  show ?case
  proof (cases "k < a")
    case True
    then have "take a L ! k = L ! k" by simp
    then show ?thesis
      using Suc.IH [of "Suc k" a] Suc.prems True k idx step by simp
  next
    case False
    then have a: "a = k" using Suc.prems by simp
    have "take a L @ [L ! k] = take (Suc k) L" using a k by (simp add: take_Suc_conv_app_nth)
    then show ?thesis
      using Suc.IH [of "Suc k" "Suc k"] Suc.prems a k idx step by (simp add: max_def)
  qed
qed

section \<open>The invariant\<close>

text \<open>A message of the system, given the leader's log \<open>L\<close>: no vote messages, and appends cut from the log.\<close>

definition log_cut :: "log_entry list \<Rightarrow> u64 \<Rightarrow> u64 \<Rightarrow> log_entry list \<Rightarrow> bool" where
  "log_cut L pli plt es \<longleftrightarrow>
     (\<exists>k j. k + j \<le> length L \<and> pli = word_of_nat k \<and> es = take j (drop k L) \<and> plt = (if 0 < k then 1 else 0))"

definition raft_msg_ok :: "log_entry list \<Rightarrow> network_message \<Rightarrow> bool" where
  "raft_msg_ok L m \<longleftrightarrow>
     (case msg_payload m of
        Raft (AppendEntries t l pli plt es lc) \<Rightarrow> t = 1 \<and> log_cut L pli plt es
      | Raft (AppendEntriesResponse t ok mi) \<Rightarrow> t \<le> 1 \<and> unat mi \<le> length L
      | Raft _ \<Rightarrow> False
      | _ \<Rightarrow> True)"

text \<open>
  A node with its history of decided entries: its log is a prefix of \<open>L\<close>, it has decided the
  log up to its commit index, and only the leader holds all of \<open>L\<close>, in term 1.
\<close>

definition raft_node_ok :: "node_id \<Rightarrow> log_entry list \<Rightarrow> node_id \<Rightarrow> 'rng raft_node \<Rightarrow> committed_entry list \<Rightarrow> bool" where
  "raft_node_ok l L i nd hist \<longleftrightarrow>
     (let st = rn_state nd in
      rn_id nd = i \<and> prefix (rf_log st) L \<and> rf_current_term st \<le> 1 \<and> rf_role st \<noteq> Candidate \<and>
      unat (rf_commit_index st) \<le> length (rf_log st) \<and>
      hist = map entry_of (take (unat (rf_commit_index st)) (rf_log st)) \<and>
      (i \<noteq> l \<longrightarrow> rf_role st = Follower) \<and>
      (i = l \<longrightarrow> rf_log st = L \<and> rf_current_term st = 1 \<and>
         (\<forall>p x. rf_next_index st p = Some x \<longrightarrow> 1 \<le> unat x \<and> unat x \<le> Suc (length L))))"

definition raft_net_ok :: "node_id \<Rightarrow> node_id set \<Rightarrow> log_entry list \<Rightarrow> 'rng raft_node net \<Rightarrow> bool" where
  "raft_net_ok l ids L s \<longleftrightarrow>
     aligned L \<and> (\<forall>e\<in>set L. le_payload e \<in> nt_proposed s) \<and>
     (\<forall>i\<in>ids. raft_node_ok l L i (nt_nodes s i) (map snd (nt_decided s i))) \<and>
     (\<forall>i. i \<notin> ids \<longrightarrow> nt_decided s i = []) \<and>
     (\<forall>m\<in>nt_sent s. raft_msg_ok L m)"

lemma log_cut_grow:
  assumes "log_cut L pli plt es"
  shows "log_cut (L @ M) pli plt es"
proof -
  obtain k j where kj: "k + j \<le> length L" "pli = word_of_nat k" "es = take j (drop k L)"
    "plt = (if 0 < k then 1 else 0)"
    using assms unfolding log_cut_def by blast
  have "take j (drop k L) = take j (drop k (L @ M))" using kj(1) by simp
  then show ?thesis
    unfolding log_cut_def using kj by (metis le_add1 le_trans length_append)
qed

lemma raft_msg_ok_grow: "raft_msg_ok L m \<Longrightarrow> prefix L L' \<Longrightarrow> raft_msg_ok L' m"
  by (auto simp: raft_msg_ok_def prefix_def log_cut_grow split: protocol_message.splits raft_message.splits)

lemma raft_msg_ok_corrupt: "raft_msg_ok L m \<Longrightarrow> raft_msg_ok L (corrupt_digest m)"
  by (cases "msg_payload m" rule: corrupt_payload_digest.cases) (simp_all add: corrupt_digest_def raft_msg_ok_def)

lemma raft_node_ok_grow:
  "raft_node_ok l L i nd hist \<Longrightarrow> prefix L L' \<Longrightarrow> i \<noteq> l \<Longrightarrow> raft_node_ok l L' i nd hist"
  unfolding raft_node_ok_def Let_def by (meson prefix_order.trans)

section \<open>The leader's appends\<close>

lemma build_append_entries_ok:
  assumes "aligned L" and "rf_log st = L" and "rf_current_term st = 1"
    and nxt: "\<forall>p x. rf_next_index st p = Some x \<longrightarrow> 1 \<le> unat x \<and> unat x \<le> Suc (length L)"
    and build: "build_append_entries nd st peer = Inr m"
  shows "raft_msg_ok L m"
proof -
  define x where "x = (case rf_next_index st peer of None \<Rightarrow> 1 | Some k \<Rightarrow> k)"
  have x: "1 \<le> unat x" "unat x \<le> Suc (length L)"
    using nxt by (auto simp: x_def split: option.splits)
  then have ge: "\<not> x < 1" by (simp add: word_less_nat_alt)
  define k where "k = unat (x - 1)"
  have k: "unat x = Suc k" using sub_u64_unat [of x 1 "x - 1"] ge x by (simp add: sub_u64_def k_def)
  have xk: "x - 1 = word_of_nat k" by (simp add: k_def)
  have pos: "0 < x - 1 \<longleftrightarrow> 0 < k" by (simp add: k_def word_less_nat_alt)
  have "(case vec_get L (unat (x - 1 - 1)) of None \<Rightarrow> 0 | Some e \<Rightarrow> le_term e) = 1" if "0 < k"
  proof -
    have "unat (x - 1 - 1) = k - 1"
      using that sub_u64_unat [of "x - 1" 1 "x - 1 - 1"] by (simp add: sub_u64_def word_less_nat_alt k_def)
    then have "unat (x - 1 - 1) < length L" using that x(2) k by simp
    then show ?thesis using assms(1) by (simp add: vec_get_def aligned_def)
  qed
  then have prev: "(if 0 < x - 1 then case vec_get L (unat (x - 1 - 1)) of None \<Rightarrow> 0 | Some e \<Rightarrow> le_term e else 0)
      = (if 0 < k then 1 else 0)"
    using pos by simp
  have "Inr m = (Inr (mk_msg (rn_id nd) peer (Raft (AppendEntries 1 (rn_id nd) (x - 1)
      (if 0 < k then 1 else 0) (drop k L) (rf_commit_index st)))) :: network_message res)"
    using ge assms(2,3) build
    unfolding build_append_entries_def Let_def x_def [symmetric] saturating_sub_def sub_u64_def
    by (simp only: if_False rbind_Inr assms(2,3) prev k_def [symmetric])
  then have m: "msg_payload m = Raft (AppendEntries 1 (rn_id nd) (word_of_nat k)
      (if 0 < k then 1 else 0) (drop k L) (rf_commit_index st))"
    using xk by simp
  have "log_cut L (word_of_nat k) (if 0 < k then 1 else 0) (drop k L)"
    unfolding log_cut_def using x(2) k by (intro exI [of _ k] exI [of _ "length L - k"]) simp
  then show ?thesis unfolding raft_msg_ok_def m by simp
qed

section \<open>Handling a message\<close>

text \<open>Moving the commit index extends the history by exactly the slice handed out.\<close>

lemma commit_history:
  assumes "commit_to st k = Inr st'" and "c = unat (rf_commit_index st)"
  shows "map entry_of (take (unat k) (rf_log st)) =
    map entry_of (take c (rf_log st)) @ drop (length (rf_committed st)) (rf_committed st')"
proof -
  have "unat k = c + (unat k - c)" using assms by (auto simp: commit_to_Inr)
  then have "take (unat k) (rf_log st) = take c (rf_log st) @ take (unat k - c) (drop c (rf_log st))"
    by (metis take_add)
  then show ?thesis using assms by (auto simp: commit_to_Inr)
qed

abbreviation raft_fresh :: "'rng raft_node \<Rightarrow> 'rng raft_node \<Rightarrow> committed_entry list" where
  "raft_fresh \<equiv> fresh_entries (\<lambda>nd. rf_committed (rn_state nd))"

lemma raft_append_ok:
  assumes al: "aligned L" and node: "raft_node_ok l L i nd hist" and cut: "log_cut L pli plt es"
    and step: "raft_on_append_entries X nd sender 1 leader pli plt es lc = Inr (nd', out)"
  shows "raft_node_ok l L i nd' (hist @ raft_fresh nd nd') \<and> (\<forall>x\<in>set out. raft_msg_ok L x)"
proof -
  let ?st = "rn_state nd"
  obtain k j where kj: "k + j \<le> length L" "pli = word_of_nat k" "es = take j (drop k L)"
    "plt = (if 0 < k then 1 else 0)"
    using cut unfolding log_cut_def by blast
  have pre: "prefix (rf_log ?st) L" and len: "length (rf_log ?st) \<le> length L"
    using node by (auto simp: raft_node_ok_def Let_def dest: prefix_length_le)
  then have lg: "rf_log ?st = take (length (rf_log ?st)) L" by (auto simp: prefix_def)
  have k: "unat pli = k" using kj(1,2) al by (simp add: aligned_unat)
  have k1: "unat (pli - 1) = k - 1 \<and> 0 < k" if "0 < pli"
    using sub_u64_unat [of pli 1 "pli - 1"] that k by (simp add: sub_u64_def word_less_nat_alt)
  have reply: "raft_msg_ok L (mk_msg a b (Raft (AppendEntriesResponse 1 ok (word_of_nat n))))" if "n \<le> length L" for a b ok n
    using al that by (simp add: raft_msg_ok_def aligned_unat)
  from step show ?thesis
  proof (cases rule: raft_on_append_entries_cases)
    case stale
    then show ?thesis using node by (auto simp: raft_node_ok_def Let_def not_less[symmetric])
  next
    case (rejected st n)
    have "le_term (rf_log ?st ! unat (pli - 1)) = plt" if "unat (pli - 1) < length (rf_log ?st)"
      using that lg len al kj(4) k1 [OF rejected(5)] by (metis aligned_def nth_take order_less_le_trans)
    then have same: "take n (rf_log ?st) = rf_log ?st" using rejected(6) by auto
    have "raft_msg_ok L x" if "x \<in> set out" for x
      using that rejected(4) same reply [OF len] by simp
    moreover have "raft_node_ok l L i nd' (hist @ raft_fresh nd nd')"
      using node rejected(2,3) same by (simp add: raft_node_ok_def Let_def fresh_entries_def)
    ultimately show ?thesis by blast
  next
    case (merged st log' st')
    let ?a = "length (rf_log ?st)"
    have "k \<le> ?a"
    proof (cases "0 < pli")
      case True
      then show ?thesis using merged(2) k1 by auto
    next
      case False
      then show ?thesis using k by (simp add: word_less_nat_alt)
    qed
    then have log': "log' = take (max ?a (k + j)) L"
      using append_loop_prefix [OF al _ len kj(1)] lg merged(4) kj(3) by simp
    then have pre': "prefix log' L" and len': "length log' \<le> length L" and grow: "prefix (rf_log ?st) log'"
      using lg by (auto simp: take_is_prefix) (metis max.cobounded1 take_is_prefix take_take min.absorb1)
    have st: "rf_commit_index st = rf_commit_index ?st" "rf_committed st = rf_committed ?st"
      "rf_next_index st = rf_next_index ?st" "rf_role st = Follower" "rf_current_term st = 1"
      using merged(3) by simp_all
    have same: "take (unat (rf_commit_index ?st)) log' = take (unat (rf_commit_index ?st)) (rf_log ?st)"
      using grow node by (auto simp: prefix_def raft_node_ok_def Let_def)
    have st': "rf_log st' = log' \<and> rf_current_term st' = 1 \<and> rf_role st' = Follower \<and>
        rf_next_index st' = rf_next_index ?st \<and> unat (rf_commit_index st') \<le> length log' \<and>
        map entry_of (take (unat (rf_commit_index st')) log') =
          hist @ drop (length (rf_committed ?st)) (rf_committed st')"
    proof (cases "rf_commit_index ?st < lc")
      case True
      then have c: "commit_to (st\<lparr>rf_log := log'\<rparr>) (min lc (word_of_nat (length log'))) = Inr st'"
        using merged(5) by simp
      from commit_history [OF this refl] c st same node show ?thesis
        by (auto simp: commit_to_Inr raft_node_ok_def Let_def)
    next
      case False
      then have "st' = st\<lparr>rf_log := log'\<rparr>" using merged(5) by simp
      then show ?thesis using st same node prefix_length_le [OF grow]
        by (auto simp: raft_node_ok_def Let_def)
    qed
    have "i = l \<longrightarrow> log' = L"
      using node grow pre' by (auto simp: raft_node_ok_def Let_def intro: prefix_order.antisym)
    then have "raft_node_ok l L i nd' (hist @ raft_fresh nd nd')"
      using node st' pre' merged(6) by (auto simp: raft_node_ok_def Let_def fresh_entries_def)
    moreover have "raft_msg_ok L x" if "x \<in> set out" for x
      using that merged(7) reply [OF len'] by simp
    ultimately show ?thesis by blast
  qed
qed

lemma raft_append_response_ok:
  assumes al: "aligned L" and node: "raft_node_ok l L i nd hist" and t: "t \<le> 1" and mi: "unat mi \<le> length L"
    and step: "raft_on_append_entries_response nd sender t ok mi = Inr (nd', out)"
  shows "raft_node_ok l L i nd' (hist @ raft_fresh nd nd') \<and> (\<forall>x\<in>set out. raft_msg_ok L x)"
proof (cases "rf_role (rn_state nd) = Leader")
  case False
  then show ?thesis
    using step node t
    by (auto simp: raft_on_append_entries_response_def raft_node_ok_def Let_def fresh_entries_def split: if_splits)
next
  case True
  let ?st = "rn_state nd"
  have l: "i = l" "rf_log ?st = L" "rf_current_term ?st = 1" "unat (rf_commit_index ?st) \<le> length L"
    "hist = map entry_of (take (unat (rf_commit_index ?st)) L)"
    "\<forall>p x. rf_next_index ?st p = Some x \<longrightarrow> 1 \<le> unat x \<and> unat x \<le> Suc (length L)"
    using True node by (auto simp: raft_node_ok_def Let_def)
  have t': "\<not> rf_current_term ?st < t" using t l(3) by simp
  show ?thesis
  proof (cases ok)
    case True
    obtain nx where nx: "add_u64 mi 1 = Inr nx"
      using step t' \<open>rf_role ?st = Leader\<close> True by (auto simp: raft_on_append_entries_response_def Let_def res_simps)
    let ?st1 = "?st\<lparr>rf_match_index := AList.update sender mi (rf_match_index ?st),
        rf_next_index := (rf_next_index ?st)(sender \<mapsto> nx)\<rparr>"
    have range: "\<forall>p x. rf_next_index ?st1 p = Some x \<longrightarrow> 1 \<le> unat x \<and> unat x \<le> Suc (length L)"
      using l(6) add_u64_unat [OF nx] mi by auto
    have ok1: "raft_node_ok l L i (nd\<lparr>rn_state := ?st1\<rparr>) hist"
      using node range l by (simp add: raft_node_ok_def Let_def)
    have ok2: "raft_node_ok l L i (nd\<lparr>rn_state := st2\<rparr>) (hist @ drop (length (rf_committed ?st)) (rf_committed st2))"
      if "commit_to ?st1 n = Inr st2" for n st2
      using commit_history [OF that refl] that ok1 l
      by (auto simp: commit_to_Inr raft_node_ok_def Let_def)
    show ?thesis
      using step t' \<open>rf_role ?st = Leader\<close> True nx ok1 ok2
      by (auto simp: raft_on_append_entries_response_def Let_def res_simps fresh_entries_def split: option.splits)
  next
    case False
    let ?next = "case rf_next_index ?st sender of None \<Rightarrow> 1 | Some k \<Rightarrow> k"
    let ?st1 = "if 1 < ?next then ?st\<lparr>rf_next_index := (rf_next_index ?st)(sender \<mapsto> ?next - 1)\<rparr> else ?st"
    obtain m where m: "build_append_entries nd ?st1 sender = Inr m" "nd' = nd\<lparr>rn_state := ?st1\<rparr>" "out = [m]"
      using step t' \<open>rf_role ?st = Leader\<close> False
      by (auto simp: raft_on_append_entries_response_def Let_def res_simps)
    have "unat (?next - 1) = unat ?next - 1" if "1 < ?next"
      using that by (intro unat_pred) (simp only: word_less_nat_alt unat_0 unat_1)
    moreover have "unat ?next \<le> Suc (length L)" using l(6) by (auto split: option.splits)
    ultimately have range: "\<forall>p x. rf_next_index ?st1 p = Some x \<longrightarrow> 1 \<le> unat x \<and> unat x \<le> Suc (length L)"
      using l(6) by (auto simp: word_less_nat_alt)
    have s1: "rf_log ?st1 = L" "rf_current_term ?st1 = 1" "rf_committed ?st1 = rf_committed ?st"
      "rf_commit_index ?st1 = rf_commit_index ?st" "rf_role ?st1 = rf_role ?st"
      using l by simp_all
    have "raft_msg_ok L m" using build_append_entries_ok [OF al s1(1,2) range m(1)] .
    moreover have "raft_node_ok l L i (nd\<lparr>rn_state := ?st1\<rparr>) (hist @ raft_fresh nd (nd\<lparr>rn_state := ?st1\<rparr>))"
      using node range s1 l unfolding raft_node_ok_def Let_def fresh_entries_def by auto
    ultimately show ?thesis using m by simp
  qed
qed

lemma raft_handle_ok:
  assumes "aligned L" and node: "raft_node_ok l L i nd hist" and msg: "raft_msg_ok L m"
    and step: "raft_handle_message X nd m = Inr (nd', out)"
  shows "raft_node_ok l L i nd' (hist @ raft_fresh nd nd') \<and> (\<forall>x\<in>set out. raft_msg_ok L x)"
proof (cases "msg_payload m")
  case (Raft rm)
  then show ?thesis
    using step msg raft_append_ok [OF assms(1,2)] raft_append_response_ok [OF assms(1,2)]
    by (cases rm) (auto simp: raft_handle_message_def raft_msg_ok_def)
qed (use step node in \<open>auto simp: raft_handle_message_def fresh_entries_def\<close>)

section \<open>Proposing\<close>

lemma raft_propose_ok:
  assumes al: "aligned L" and node: "raft_node_ok l L l nd hist"
    and step: "raft_propose nd p = Inr (nd', Accepted, out)"
  shows "\<exists>e. le_payload e = p \<and> aligned (L @ [e]) \<and> raft_node_ok l (L @ [e]) l nd' hist \<and>
    (\<forall>x\<in>set out. raft_msg_ok (L @ [e]) x)"
proof -
  let ?st = "rn_state nd"
  have st: "rf_log ?st = L" "rf_current_term ?st = 1"
    "\<forall>p x. rf_next_index ?st p = Some x \<longrightarrow> 1 \<le> unat x \<and> unat x \<le> Suc (length L)"
    using node by (auto simp: raft_node_ok_def Let_def)
  obtain i where i: "add_u64 (word_of_nat (length L)) 1 = Inr i"
    and out: "append_entries_to_peers nd (?st\<lparr>rf_log := L @ [\<lparr>le_term = 1, le_index = i, le_payload = p\<rparr>]\<rparr>) = Inr out"
    and nd': "nd' = nd\<lparr>rn_state := ?st\<lparr>rf_log := L @ [\<lparr>le_term = 1, le_index = i, le_payload = p\<rparr>]\<rparr>\<rparr>"
    using step st(1,2) by (auto simp: raft_propose_def Let_def res_simps log_len_def split: if_splits)
  let ?e = "\<lparr>le_term = 1, le_index = i, le_payload = p\<rparr>"
  have al': "aligned (L @ [?e])" using aligned_snoc [OF al i] .
  have "raft_msg_ok (L @ [?e]) x" if x: "x \<in> set out" for x
  proof -
    obtain peer where b: "build_append_entries nd (?st\<lparr>rf_log := L @ [?e]\<rparr>) peer = Inr x"
      using append_entries_to_peers_mem [OF out x] by blast
    have range: "\<forall>p x. rf_next_index (?st\<lparr>rf_log := L @ [?e]\<rparr>) p = Some x \<longrightarrow> 1 \<le> unat x \<and> unat x \<le> Suc (length (L @ [?e]))"
      using st(3) by fastforce
    show ?thesis using st by (intro build_append_entries_ok [OF al' _ _ range b]) simp_all
  qed
  moreover have "raft_node_ok l (L @ [?e]) l nd' hist"
    using node nd' st by (auto simp: raft_node_ok_def Let_def intro: le_SucI)
  ultimately show ?thesis using al' by (intro exI [of _ ?e]) simp
qed

section \<open>Every step of the system\<close>

lemma raft_net_ok_step:
  assumes "net_step False (raft_vtable X) ids view (\<lambda>nd. rf_committed (rn_state nd)) s t" and "raft_net_ok l ids L s"
  shows "\<exists>L'. raft_net_ok l ids L' t"
  using assms
proof (induction rule: net_step.induct)
  case (net_propose i s p nd' r out)
  then have al: "aligned L" and node: "raft_node_ok l L i (nt_nodes s i) (map snd (nt_decided s i))"
    by (auto simp: raft_net_ok_def)
  show ?case
  proof (cases r)
    case (NotLeader x)
    then have "nd' = nt_nodes s i \<and> out = []" using net_propose.hyps(2) raft_propose_rejected by simp
    then have "raft_net_ok l ids L (s\<lparr>nt_nodes := (nt_nodes s)(i := nd'), nt_sent := nt_sent s \<union> set out,
        nt_proposed := insert p (nt_proposed s)\<rparr>)"
      using net_propose.prems by (auto simp: raft_net_ok_def)
    then show ?thesis ..
  next
    case Accepted
    then have "rf_role (rn_state (nt_nodes s i)) = Leader"
      using net_propose.hyps(2) by (auto simp: raft_propose_def Let_def split: if_splits)
    then have il: "i = l" using node by (auto simp: raft_node_ok_def Let_def)
    obtain e where e: "le_payload e = p" "aligned (L @ [e])"
      "raft_node_ok l (L @ [e]) l nd' (map snd (nt_decided s l))" "\<forall>x\<in>set out. raft_msg_ok (L @ [e]) x"
      using raft_propose_ok [OF al, of l "nt_nodes s l" "map snd (nt_decided s l)" p nd' out]
        node net_propose.hyps(2) Accepted il by auto
    have old: "raft_msg_ok (L @ [e]) m" if "m \<in> nt_sent s" for m
      using that net_propose.prems raft_msg_ok_grow [of L m "L @ [e]"] by (auto simp: raft_net_ok_def)
    have others: "raft_node_ok l (L @ [e]) j (nt_nodes s j) (map snd (nt_decided s j))" if "j \<in> ids" "j \<noteq> l" for j
      using that net_propose.prems raft_node_ok_grow [of l L j _ _ "L @ [e]"] by (auto simp: raft_net_ok_def)
    have "raft_net_ok l ids (L @ [e]) (s\<lparr>nt_nodes := (nt_nodes s)(i := nd'), nt_sent := nt_sent s \<union> set out,
        nt_proposed := insert p (nt_proposed s)\<rparr>)"
      using net_propose.prems e old others il by (auto simp: raft_net_ok_def)
    then show ?thesis ..
  qed
next
  case (net_deliver i m s nd' out)
  then have al: "aligned L" and node: "raft_node_ok l L i (nt_nodes s i) (map snd (nt_decided s i))"
    and msg: "raft_msg_ok L m"
    by (auto simp: raft_net_ok_def)
  have "raft_node_ok l L i nd' (map snd (nt_decided s i) @ raft_fresh (nt_nodes s i) nd')"
    "\<forall>x\<in>set out. raft_msg_ok L x"
    using raft_handle_ok [OF al node msg] net_deliver.hyps(3) by auto
  then have "raft_net_ok l ids L (s\<lparr>nt_nodes := (nt_nodes s)(i := nd'), nt_sent := nt_sent s \<union> set out,
      nt_decided := (nt_decided s)(i := nt_decided s i @
        map (Pair (view (nt_nodes s i))) (raft_fresh (nt_nodes s i) nd'))\<rparr>)"
    using net_deliver.prems net_deliver.hyps(1) by (auto simp: raft_net_ok_def o_def)
  then show ?case ..
next
  case (net_poll i s nd' es)
  then have "nd' = (nt_nodes s i)\<lparr>rn_state := (rn_state (nt_nodes s i))\<lparr>rf_committed := []\<rparr>\<rparr>"
    by (simp add: raft_poll_committed_def)
  then have "raft_net_ok l ids L (s\<lparr>nt_nodes := (nt_nodes s)(i := nd')\<rparr>)"
    using net_poll by (auto simp: raft_net_ok_def raft_node_ok_def Let_def)
  then show ?case ..
next
  case (net_corrupt m s)
  then have "raft_net_ok l ids L (s\<lparr>nt_sent := insert (corrupt_digest m) (nt_sent s)\<rparr>)"
    by (auto simp: raft_net_ok_def intro: raft_msg_ok_corrupt)
  then show ?case ..
qed simp

text \<open>A start: one node of the cluster made leader, the others fresh.\<close>

definition raft_start :: "node_id \<Rightarrow> 'rng raft_node \<Rightarrow> bool" where
  "raft_start l nd \<longleftrightarrow>
     (let st = rn_state nd in
      rf_log st = [] \<and> rf_commit_index st = 0 \<and> rf_committed st = [] \<and>
      (if rn_id nd = l
       then rf_role st = Leader \<and> rf_current_term st = 1 \<and>
         (\<forall>p x. rf_next_index st p = Some x \<longrightarrow> x = 1)
       else rf_role st = Follower \<and> rf_current_term st = 0))"

lemma raft_start_new: "rn_id (raft_new_seeded X i n rng) = i"
  "i \<noteq> l \<Longrightarrow> raft_start l (raft_new_seeded X i n rng)"
  by (simp_all add: raft_start_def raft_new_seeded_def Let_def split: prod.splits)

lemma raft_start_leader:
  "raft_force_leader (raft_new_seeded X l n rng) = Inr nd \<Longrightarrow> raft_start l nd \<and> rn_id nd = l"
  by (auto simp: raft_start_def raft_force_leader_def raft_new_seeded_def Let_def res_simps log_len_def
      init_indices_next add_u64_def split: prod.splits if_splits)

lemma raft_net_ok_init:
  assumes "\<forall>i\<in>ids. raft_start l (nodes i) \<and> rn_id (nodes i) = i"
  shows "raft_net_ok l ids [] (net_init nodes)"
proof -
  have "raft_node_ok l [] i (nodes i) []" if "i \<in> ids" for i
    using assms that
    by (cases "i = l") (force simp: raft_start_def raft_node_ok_def Let_def)+
  then show ?thesis by (simp add: raft_net_ok_def net_init_def aligned_def)
qed

lemma raft_reach_ok:
  assumes start: "\<forall>i\<in>ids. raft_start l (nodes i) \<and> rn_id (nodes i) = i"
    and reach: "net_reach False (raft_vtable X) ids view (\<lambda>nd. rf_committed (rn_state nd)) (net_init nodes) s"
  shows "\<exists>L. raft_net_ok l ids L s"
  by (rule net_reach_invariant [OF reach]) (use raft_net_ok_init [OF start] raft_net_ok_step in blast)+

text \<open>
  The abstract specification: one log \<open>L\<close>, numbered from 1 without gaps, of proposed payloads,
  and every node has decided a prefix of it.
\<close>

lemma raft_reach_log:
  assumes start: "\<forall>i\<in>ids. raft_start l (nodes i) \<and> rn_id (nodes i) = i"
    and reach: "net_reach False (raft_vtable X) ids view (\<lambda>nd. rf_committed (rn_state nd)) (net_init nodes) s"
  shows "\<exists>L. (\<forall>i. prefix (map snd (nt_decided s i)) (map entry_of L)) \<and>
    (\<forall>e\<in>set L. le_payload e \<in> nt_proposed s) \<and>
    length L < 2 ^ 64 \<and> map le_index L = map word_of_nat [1..<Suc (length L)]"
proof -
  obtain L where L: "raft_net_ok l ids L s" using raft_reach_ok [OF start reach] ..
  then have al: "aligned L" by (simp add: raft_net_ok_def)
  have "prefix (map snd (nt_decided s i)) (map entry_of L)" for i
  proof (cases "i \<in> ids")
    case True
    then have ok: "raft_node_ok l L i (nt_nodes s i) (map snd (nt_decided s i))"
      using L by (simp add: raft_net_ok_def)
    then have "prefix (take k (rf_log (rn_state (nt_nodes s i)))) L" for k
      by (auto simp: raft_node_ok_def Let_def intro: prefix_order.trans take_is_prefix)
    then show ?thesis
      using ok map_mono_prefix by (fastforce simp: raft_node_ok_def Let_def)
  next
    case False
    then show ?thesis using L by (simp add: raft_net_ok_def)
  qed
  moreover have "map le_index L = map word_of_nat [1..<Suc (length L)]"
    using al by (intro nth_equalityI) (auto simp: aligned_def nth_append simp del: upt_Suc)
  ultimately show ?thesis using L al by (intro exI [of _ L]) (auto simp: raft_net_ok_def aligned_def)
qed

end
