(* ===== verification/RaftLog.thy ===== *)
theory RaftLog
  imports RaftSafety ClusterSafety Clusters
begin

text \<open>
  More of the Raft node: what the merge of received entries computes, how the timers move, which
  votes are granted and when the leader commits; and what a cluster with an established leader
  records.
\<close>

section \<open>Merging entries\<close>

text \<open>The reference: keep the log as far as the terms agree, replace the rest only on a conflict.\<close>

fun agree_len :: "log_entry list \<Rightarrow> log_entry list \<Rightarrow> nat" where
  "agree_len (a # as) (b # bs) = (if le_term a = le_term b then Suc (agree_len as bs) else 0)"
| "agree_len as bs = 0"

definition merge_log :: "nat \<Rightarrow> log_entry list \<Rightarrow> log_entry list \<Rightarrow> log_entry list" where
  "merge_log k lg es =
     (let m = agree_len (drop k lg) es in if m = length es then lg else take (k + m) lg @ drop m es)"

lemma append_loop_merge:
  assumes "k \<le> length lg" and "k + length es < 2 ^ 64"
    and "\<forall>j<length es. le_index (es ! j) = word_of_nat (Suc (k + j))"
  shows "append_loop lg es = Inr (merge_log k lg es)"
  using assms
proof (induction es arbitrary: k lg)
  case Nil
  then show ?case by (cases "drop k lg") (simp_all add: merge_log_def)
next
  case (Cons e es)
  have small: "Suc k < 2 ^ 64" using Cons.prems(2) by simp
  have index: "le_index e = word_of_nat (Suc k)" using Cons.prems(3) by force
  have "unat (word_of_nat (Suc k) :: u64) = Suc k" using small by (rule unat_word_of_nat_small)
  then have sub: "sub_u64 (le_index e) 1 = Inr (word_of_nat k)" and idx: "unat (word_of_nat k :: u64) = k"
    using small by (simp_all add: index sub_u64_def word_less_nat_alt unat_word_of_nat_small)
  have rest: "append_loop lg' es = Inr (merge_log (Suc k) lg' es)" if "Suc k \<le> length lg'" for lg'
  proof (rule Cons.IH [OF that])
    show "Suc k + length es < 2 ^ 64" using Cons.prems(2) by simp
    show "\<forall>j<length es. le_index (es ! j) = word_of_nat (Suc (Suc k + j))"
    proof (intro allI impI)
      fix j
      assume "j < length es"
      then show "le_index (es ! j) = word_of_nat (Suc (Suc k + j))"
        using Cons.prems(3) [rule_format, of "Suc j"] by simp
    qed
  qed
  have short: "merge_log (Suc k) (xs @ [e]) es = xs @ e # es" if "length xs = k" for xs
    using that by (cases es) (simp_all add: merge_log_def)
  show ?case
  proof (cases "k < length lg")
    case True
    then have drop: "drop k lg = lg ! k # drop (Suc k) lg" by (simp add: Cons_nth_drop_Suc)
    show ?thesis
    proof (cases "le_term (lg ! k) = le_term e")
      case same: True
      have "append_loop lg (e # es) = Inr (merge_log (Suc k) lg es)"
        using True same sub idx rest [of lg] by simp
      then show ?thesis using drop same by (simp add: merge_log_def Let_def)
    next
      case False
      have "append_loop lg (e # es) = Inr (merge_log (Suc k) (take k lg @ [e]) es)"
        using True False sub idx rest [of "take k lg @ [e]"] by simp
      then show ?thesis using short [of "take k lg"] True drop False by (simp add: merge_log_def [of k])
    qed
  next
    case False
    then have k: "k = length lg" using Cons.prems(1) by simp
    have "append_loop lg (e # es) = Inr (merge_log (Suc k) (lg @ [e]) es)"
      using k sub idx rest [of "lg @ [e]"] by simp
    then show ?thesis using short [of lg] k by (simp add: merge_log_def [of "length lg"] del: append_loop.simps)
  qed
qed

section \<open>Votes\<close>

lemma raft_request_vote_spec:
  "\<exists>nd' granted. raft_on_request_vote X nd sender t cand li lt =
      Inr (nd', [mk_msg (rn_id nd) sender (Raft (RequestVoteResponse (max t (rf_current_term (rn_state nd))) granted))]) \<and>
    (granted \<longleftrightarrow> rf_current_term (rn_state nd) \<le> t \<and>
       (rf_current_term (rn_state nd) < t \<or> rf_voted_for (rn_state nd) \<in> {None, Some cand}) \<and>
       (last_log_term (rn_state nd) < lt \<or> last_log_term (rn_state nd) = lt \<and> log_len (rn_state nd) \<le> li)) \<and>
    rf_current_term (rn_state nd') = max t (rf_current_term (rn_state nd)) \<and>
    rf_voted_for (rn_state nd') =
      (if granted then Some cand else if rf_current_term (rn_state nd) < t then None else rf_voted_for (rn_state nd)) \<and>
    rf_log (rn_state nd') = rf_log (rn_state nd) \<and> rf_commit_index (rn_state nd') = rf_commit_index (rn_state nd)"
proof -
  let ?st0 = "rn_state nd"
  define st where "st = (if rf_current_term ?st0 < t
       then ?st0\<lparr>rf_current_term := t, rf_role := Follower, rf_voted_for := None, rf_leader_id := None\<rparr> else ?st0)"
  define granted where "granted = (if t < rf_current_term st \<or>
      (rf_voted_for st \<noteq> None \<and> rf_voted_for st \<noteq> Some cand) then False
    else if last_log_term st < lt then True else if lt = last_log_term st then log_len st \<le> li else False)"
  define st' where "st' = (if granted then reset_election_timeout X (st\<lparr>rf_voted_for := Some cand\<rparr>) else st)"
  have run: "raft_on_request_vote X nd sender t cand li lt =
      Inr (nd\<lparr>rn_state := st'\<rparr>, [mk_msg (rn_id nd) sender (Raft (RequestVoteResponse (rf_current_term st') granted))])"
    by (simp only: raft_on_request_vote_def Let_def st'_def granted_def st_def)
  have st: "rf_current_term st = max t (rf_current_term ?st0)" "rf_log st = rf_log ?st0"
    "rf_commit_index st = rf_commit_index ?st0" "last_log_term st = last_log_term ?st0" "log_len st = log_len ?st0"
    "rf_voted_for st = (if rf_current_term ?st0 < t then None else rf_voted_for ?st0)"
    by (auto simp: st_def max_def last_log_term_def log_len_def not_less)
  have granted: "granted \<longleftrightarrow> rf_current_term ?st0 \<le> t \<and>
       (rf_current_term ?st0 < t \<or> rf_voted_for ?st0 \<in> {None, Some cand}) \<and>
       (last_log_term ?st0 < lt \<or> last_log_term ?st0 = lt \<and> log_len ?st0 \<le> li)"
    unfolding granted_def st by (auto simp: max_def not_less)
  have st': "rf_current_term st' = rf_current_term st" "rf_log st' = rf_log st" "rf_commit_index st' = rf_commit_index st"
    "rf_voted_for st' = (if granted then Some cand else rf_voted_for st)"
    by (simp_all add: st'_def)
  show ?thesis
    by (rule exI [of _ "nd\<lparr>rn_state := st'\<rparr>"], rule exI [of _ granted])
      (use run granted st st' in auto)
qed

section \<open>Terms, votes and the commit index over a run\<close>

lemma raft_exec_effect:
  assumes "node_exec (raft_vtable X) nd x = Inr (nd', out, es)"
  shows "rf_current_term (rn_state nd) \<le> rf_current_term (rn_state nd') \<and>
    (rf_current_term (rn_state nd') = rf_current_term (rn_state nd) \<longrightarrow>
       rf_voted_for (rn_state nd) \<noteq> None \<longrightarrow> rf_voted_for (rn_state nd') = rf_voted_for (rn_state nd)) \<and>
    rf_commit_index (rn_state nd) \<le> rf_commit_index (rn_state nd')"
proof (cases x)
  case (OpPropose p)
  then show ?thesis
    using assms raft_propose_effect [of nd p] by (fastforce simp: res_simps raft_effect_def Let_def)
next
  case (OpHandle m)
  then show ?thesis
    using assms raft_handle_effect [of X nd m] by (fastforce simp: res_simps raft_effect_def Let_def)
next
  case OpTick
  then show ?thesis
    using assms raft_tick_effect [of X nd] by (fastforce simp: res_simps raft_effect_def Let_def)
next
  case OpPoll
  then show ?thesis using assms by (auto simp: raft_poll_committed_def)
qed

lemma raft_run_effect:
  "node_run (raft_vtable X) nd xs = Inr (nd', out, es) \<Longrightarrow>
    rf_current_term (rn_state nd) \<le> rf_current_term (rn_state nd') \<and>
    (rf_current_term (rn_state nd') = rf_current_term (rn_state nd) \<longrightarrow>
       rf_voted_for (rn_state nd) \<noteq> None \<longrightarrow> rf_voted_for (rn_state nd') = rf_voted_for (rn_state nd)) \<and>
    rf_commit_index (rn_state nd) \<le> rf_commit_index (rn_state nd')"
proof (induction xs arbitrary: nd out es)
  case Nil
  then show ?case by simp
next
  case (Cons x xs)
  then obtain nd1 out1 es1 out2 es2 where
    x: "node_exec (raft_vtable X) nd x = Inr (nd1, out1, es1)" and
    xs: "node_run (raft_vtable X) nd1 xs = Inr (nd', out2, es2)"
    by (auto simp: res_simps)
  from raft_exec_effect [OF x] Cons.IH [OF xs] show ?case by auto
qed

section \<open>Timers\<close>

definition raft_timers_ok :: "'rng raft_node \<Rightarrow> bool" where
  "raft_timers_ok nd \<longleftrightarrow>
     rf_election_ticks_remaining (rn_state nd) \<le> ELECTION_TIMEOUT_MAX \<and>
     rf_heartbeat_ticks_remaining (rn_state nd) \<le> HEARTBEAT_INTERVAL"

lemma gen_range_okD: "gen_range_ok gr \<Longrightarrow> lo \<le> hi \<Longrightarrow> gr lo hi r = (x, r') \<Longrightarrow> lo \<le> x \<and> x \<le> hi"
  unfolding gen_range_ok_def by (metis fst_conv)

lemma reset_election_timeout_range:
  assumes "gen_range_ok (gen_range X)"
  shows "ELECTION_TIMEOUT_MIN \<le> rf_election_ticks_remaining (reset_election_timeout X st) \<and>
    rf_election_ticks_remaining (reset_election_timeout X st) \<le> ELECTION_TIMEOUT_MAX"
proof -
  have le: "ELECTION_TIMEOUT_MIN \<le> ELECTION_TIMEOUT_MAX" by (simp add: ELECTION_TIMEOUT_MIN_def ELECTION_TIMEOUT_MAX_def)
  obtain t r where t: "gen_range X ELECTION_TIMEOUT_MIN ELECTION_TIMEOUT_MAX (rf_rng st) = (t, r)" by fastforce
  show ?thesis using gen_range_okD [OF assms le t] t by (simp add: reset_election_timeout_def)
qed

lemma init_indices_timers [simp]:
  "rf_election_ticks_remaining (init_indices k ps st) = rf_election_ticks_remaining st"
  "rf_heartbeat_ticks_remaining (init_indices k ps st) = rf_heartbeat_ticks_remaining st"
  by simp_all

lemma raft_handle_timers:
  assumes "gen_range_ok (gen_range X)" and "raft_timers_ok nd" and "raft_handle_message X nd m = Inr (nd', out)"
  shows "raft_timers_ok nd'"
proof (cases "msg_payload m")
  case (Raft rm)
  note range = reset_election_timeout_range [OF assms(1)]
  show ?thesis
  proof (cases rm)
    case (RequestVote t cand li lt)
    then have "raft_on_request_vote X nd (msg_from m) t cand li lt = Inr (nd', out)"
      using assms(3) Raft by (simp add: raft_handle_message_def)
    then show ?thesis
      by (cases rule: raft_on_request_vote_cases) (use range assms(2) in \<open>auto simp: raft_timers_ok_def\<close>)
  next
    case (RequestVoteResponse t g)
    then show ?thesis
      using assms(2,3) Raft
      by (auto simp: raft_handle_message_def raft_on_request_vote_response_def raft_timers_ok_def Let_def res_simps
          split: if_splits)
  next
    case (AppendEntries t l pli plt es lc)
    then have "raft_on_append_entries X nd (msg_from m) t l pli plt es lc = Inr (nd', out)"
      using assms(3) Raft by (simp add: raft_handle_message_def)
    then show ?thesis
      by (cases rule: raft_on_append_entries_cases)
        (use range assms(2) in \<open>auto simp: raft_timers_ok_def commit_to_Inr split: if_splits\<close>)
  next
    case (AppendEntriesResponse t ok mi)
    then show ?thesis
      using assms(2,3) Raft
      by (auto simp: raft_handle_message_def raft_on_append_entries_response_def raft_timers_ok_def Let_def res_simps
          commit_to_Inr split: if_splits option.splits)
  qed
qed (use assms in \<open>simp_all add: raft_handle_message_def\<close>)

lemma raft_tick_timers:
  assumes "gen_range_ok (gen_range X)" and "raft_timers_ok nd" and "raft_tick X nd = Inr (nd', out)"
  shows "raft_timers_ok nd'"
proof -
  have "sub_u64 t 1 = Inr t' \<Longrightarrow> t \<le> b \<Longrightarrow> t' \<le> b" for t t' b
    by (drule sub_u64_unat) (simp add: word_le_nat_alt)
  then show ?thesis
    using assms(2,3) reset_election_timeout_range [OF assms(1)]
    by (auto simp: raft_tick_def raft_start_election_def raft_timers_ok_def Let_def res_simps split: if_splits)
qed

lemma raft_exec_timers:
  assumes "gen_range_ok (gen_range X)" and "raft_timers_ok nd" and "node_exec (raft_vtable X) nd x = Inr (nd', out, es)"
  shows "raft_timers_ok nd'"
proof (cases x)
  case (OpPropose p)
  then show ?thesis
    using assms(2,3) by (auto simp: res_simps raft_propose_def raft_timers_ok_def Let_def split: if_splits)
next
  case (OpHandle m)
  then show ?thesis
    using assms raft_handle_timers by (auto simp: res_simps)
next
  case OpTick
  then show ?thesis using assms raft_tick_timers by (auto simp: res_simps)
next
  case OpPoll
  then show ?thesis using assms(2,3) by (auto simp: raft_poll_committed_def raft_timers_ok_def)
qed

lemma raft_run_timers:
  assumes "gen_range_ok (gen_range X)"
  shows "raft_timers_ok nd \<Longrightarrow> node_run (raft_vtable X) nd xs = Inr (nd', out, es) \<Longrightarrow> raft_timers_ok nd'"
proof (induction xs arbitrary: nd out es)
  case (Cons x xs)
  then obtain nd1 out1 es1 out2 es2 where
    x: "node_exec (raft_vtable X) nd x = Inr (nd1, out1, es1)" and
    xs: "node_run (raft_vtable X) nd1 xs = Inr (nd', out2, es2)"
    by (auto simp: res_simps)
  from Cons.IH [OF raft_exec_timers [OF assms Cons.prems(1) x] xs] show ?case .
qed simp

lemma raft_new_timers: "gen_range_ok (gen_range X) \<Longrightarrow> raft_timers_ok (raft_new_seeded X i n rng)"
  using gen_range_okD [of "gen_range X" ELECTION_TIMEOUT_MIN ELECTION_TIMEOUT_MAX rng]
  by (auto simp: raft_timers_ok_def raft_new_seeded_def ELECTION_TIMEOUT_MIN_def ELECTION_TIMEOUT_MAX_def
      split: prod.splits)

text \<open>A node that is not the leader and hears nothing starts an election when its timer runs out.\<close>

lemma raft_ticks_down:
  assumes "rf_role (rn_state nd) \<noteq> Leader" and "unat (rf_election_ticks_remaining (rn_state nd)) = k"
  shows "node_run (raft_vtable X) nd (replicate k OpTick) =
    Inr (nd\<lparr>rn_state := (rn_state nd)\<lparr>rf_election_ticks_remaining := 0\<rparr>\<rparr>, [], [])"
  using assms
proof (induction k arbitrary: nd)
  case 0
  then have "rf_election_ticks_remaining (rn_state nd) = 0" by (simp add: unat_eq_zero)
  then show ?case by simp
next
  case (Suc k)
  let ?t = "rf_election_ticks_remaining (rn_state nd)"
  let ?nd = "nd\<lparr>rn_state := (rn_state nd)\<lparr>rf_election_ticks_remaining := ?t - 1\<rparr>\<rparr>"
  have t: "?t \<noteq> 0" using Suc.prems(2) by auto
  then have s: "sub_u64 ?t 1 = Inr (?t - 1)" by (simp add: sub_u64_def)
  then have k: "unat (?t - 1) = k" using Suc.prems(2) sub_u64_unat [OF s] by simp
  have "node_run (raft_vtable X) ?nd (replicate k OpTick) =
    Inr (?nd\<lparr>rn_state := (rn_state ?nd)\<lparr>rf_election_ticks_remaining := 0\<rparr>\<rparr>, [], [])"
    using Suc.prems k by (intro Suc.IH) auto
  then show ?case using Suc.prems(1) s t by (simp add: raft_tick_def Let_def)
qed

lemma raft_timeout_run:
  assumes role: "rf_role (rn_state nd) \<noteq> Leader" and bound: "rf_current_term (rn_state nd) \<noteq> - 1"
  shows "\<exists>nd'. node_run (raft_vtable X) nd (replicate (Suc (unat (rf_election_ticks_remaining (rn_state nd)))) OpTick) =
      Inr (nd', broadcast (rn_id nd) (rn_peer_ids nd) (Raft (RequestVote (rf_current_term (rn_state nd) + 1) (rn_id nd)
        (log_len (rn_state nd)) (last_log_term (rn_state nd)))), []) \<and>
    rf_role (rn_state nd') = Candidate \<and> rf_current_term (rn_state nd') = rf_current_term (rn_state nd) + 1 \<and>
    rf_voted_for (rn_state nd') = Some (rn_id nd) \<and> rf_votes_received (rn_state nd') = 1 \<and>
    rf_log (rn_state nd') = rf_log (rn_state nd)"
proof -
  let ?st = "rn_state nd" and ?k = "unat (rf_election_ticks_remaining (rn_state nd))"
  have down: "node_run (raft_vtable X) nd (replicate ?k OpTick) =
      Inr (nd\<lparr>rn_state := ?st\<lparr>rf_election_ticks_remaining := 0\<rparr>\<rparr>, [], [])"
    by (rule raft_ticks_down [OF role refl])
  obtain w where w: "add_u64 (rf_current_term ?st) 1 = Inr w"
    using bound add_u64_Inl [of "rf_current_term ?st"] by (cases "add_u64 (rf_current_term ?st) 1") auto
  then have w': "w = rf_current_term ?st + 1" by (simp add: add_u64_Inr_iff)
  have "replicate (Suc ?k) OpTick = replicate ?k OpTick @ [OpTick]" by (simp add: replicate_append_same)
  then show ?thesis
    using down w w' role
    by (simp add: node_run_append raft_tick_def raft_start_election_def log_len_def last_log_term_def Let_def)
qed

section \<open>When the leader commits\<close>

lemma find_SomeD:
  "find P xs = Some x \<Longrightarrow> x \<in> set xs \<and> P x"
  by (auto simp: find_Some_iff)

lemma replicated_on_card:
  assumes "distinct (map fst (rf_match_index st))"
  shows "replicated_on st k = Suc (card {p. \<exists>m. map_of (rf_match_index st) p = Some m \<and> k \<le> m})"
proof -
  let ?xs = "filter (\<lambda>kv. k \<le> snd kv) (rf_match_index st)"
  have d: "distinct (map fst ?xs)" using assms by (simp add: distinct_map_filter)
  have "{p. \<exists>m. map_of (rf_match_index st) p = Some m \<and> k \<le> m} = fst ` set ?xs"
    using assms by (force simp: image_iff)
  then have "card {p. \<exists>m. map_of (rf_match_index st) p = Some m \<and> k \<le> m} = length ?xs"
    using distinct_card [OF d] by simp
  then show ?thesis by (simp add: replicated_on_def)
qed

lemma raft_commit_majority:
  assumes step: "raft_on_append_entries_response nd sender t ok mi = Inr (nd', out)"
    and moved: "rf_commit_index (rn_state nd') \<noteq> rf_commit_index (rn_state nd)"
    and keys: "distinct (map fst (rf_match_index (rn_state nd)))"
  defines "k \<equiv> rf_commit_index (rn_state nd')"
  shows "rf_role (rn_state nd) = Leader \<and> ok \<and> rf_commit_index (rn_state nd) < k \<and>
    0 < unat k \<and> unat k \<le> length (rf_log (rn_state nd)) \<and>
    le_term (rf_log (rn_state nd) ! (unat k - 1)) = rf_current_term (rn_state nd) \<and>
    rn_cluster_size nd div 2 \<le> card {p. \<exists>m. map_of (rf_match_index (rn_state nd')) p = Some m \<and> k \<le> m} \<and>
    rf_committed (rn_state nd') = rf_committed (rn_state nd) @ map entry_of
      (take (unat k - unat (rf_commit_index (rn_state nd))) (drop (unat (rf_commit_index (rn_state nd))) (rf_log (rn_state nd))))"
proof -
  let ?st = "rn_state nd"
  obtain nxt from_k where
    base: "rf_role ?st = Leader" ok "add_u64 mi 1 = Inr nxt" "add_u64 (rf_commit_index ?st) 1 = Inr from_k"
    and rest: "(case find (committable nd (?st\<lparr>rf_match_index := AList.update sender mi (rf_match_index ?st),
          rf_next_index := (rf_next_index ?st)(sender \<mapsto> nxt)\<rparr>))
        (commit_candidates (?st\<lparr>rf_match_index := AList.update sender mi (rf_match_index ?st),
          rf_next_index := (rf_next_index ?st)(sender \<mapsto> nxt)\<rparr>) from_k) of
          None \<Rightarrow> Inr (nd\<lparr>rn_state := ?st\<lparr>rf_match_index := AList.update sender mi (rf_match_index ?st),
            rf_next_index := (rf_next_index ?st)(sender \<mapsto> nxt)\<rparr>\<rparr>, [])
        | Some j \<Rightarrow> rbind (commit_to (?st\<lparr>rf_match_index := AList.update sender mi (rf_match_index ?st),
            rf_next_index := (rf_next_index ?st)(sender \<mapsto> nxt)\<rparr>) j) (\<lambda>st2. Inr (nd\<lparr>rn_state := st2\<rparr>, []))) =
      (Inr (nd', out) :: ('a raft_node \<times> network_message list) res)"
    using step moved
    by (auto simp: raft_on_append_entries_response_def Let_def rbind_eq_Inr split: if_splits)
  define st1 where "st1 = ?st\<lparr>rf_match_index := AList.update sender mi (rf_match_index ?st),
          rf_next_index := (rf_next_index ?st)(sender \<mapsto> nxt)\<rparr>"
  note rest = rest [folded st1_def]
  obtain j where j: "find (committable nd st1) (commit_candidates st1 from_k) = Some j"
    using rest moved by (auto simp: st1_def split: option.splits)
  then obtain st2 where st2: "commit_to st1 j = Inr st2" "nd' = nd\<lparr>rn_state := st2\<rparr>"
    using rest by (auto simp: rbind_eq_Inr)
  have kj: "k = j" using st2 by (auto simp: k_def commit_to_Inr)
  have com: "unat (rf_commit_index ?st) \<le> unat k" "unat k \<le> length (rf_log ?st)"
    "rf_match_index (rn_state nd') = rf_match_index st1"
    "rf_committed (rn_state nd') = rf_committed ?st @ map entry_of
      (take (unat k - unat (rf_commit_index ?st)) (drop (unat (rf_commit_index ?st)) (rf_log ?st)))"
    using st2 kj by (auto simp: commit_to_Inr st1_def)
  have lt: "rf_commit_index ?st < k"
    using com(1) moved by (metis k_def order_le_less word_le_nat_alt)
  then have pos: "0 < k" by (metis word_gt_0 word_not_simps(1))
  then have idx: "unat (k - 1) = unat k - 1" by (rule unat_pred)
  have pos': "0 < unat k" using pos by (simp add: word_less_nat_alt)
  have c: "committable nd st1 k" using find_SomeD [OF j] kj by simp
  have "rf_log st1 = rf_log ?st" "rf_current_term st1 = rf_current_term ?st" by (simp_all add: st1_def)
  moreover have "unat k - 1 < length (rf_log ?st)" using com(2) pos' by simp
  ultimately have trm: "le_term (rf_log ?st ! (unat k - 1)) = rf_current_term ?st"
    using c idx by (simp add: committable_def vec_get_def)
  have "distinct (map fst (rf_match_index st1))" using keys by (simp add: st1_def distinct_update)
  then have "rn_cluster_size nd div 2 \<le> card {p. \<exists>m. map_of (rf_match_index st1) p = Some m \<and> k \<le> m}"
    using c replicated_on_card [of st1 k] by (simp add: committable_def raft_majority_def)
  then show ?thesis using base(1,2) lt pos' com trm by simp
qed

end
