(* ===== verification/RaftCluster.thy ===== *)
theory RaftCluster
  imports RaftSafety ClusterSafety Clusters
begin

text \<open>
  What a Raft cluster records that starts with an established leader and in which no timer runs:
  every node's recorded entries come from one log, in its order.
\<close>

section \<open>Starting nodes\<close>

text \<open>The nodes before the leader is forced, whichever generators they were given.\<close>

definition raft_newborn :: "'rng extern \<Rightarrow> usize \<Rightarrow> node_id list \<Rightarrow> 'rng raft_node list \<Rightarrow> bool" where
  "raft_newborn X n ns nds \<longleftrightarrow> list_all2 (\<lambda>i nd. \<exists>rng. nd = raft_new_seeded X i n rng) ns nds"

lemma raft_nodes_newborn: "raft_newborn X n (node_ids n) (raft_nodes X ne n)"
  by (auto simp: raft_newborn_def raft_nodes_def list_all2_conv_all_nth)

lemma seed_nodes_newborn: "seed_nodes X n master ns = (nds, master') \<Longrightarrow> raft_newborn X n ns nds"
  by (induction X n master ns arbitrary: nds rule: seed_nodes.induct)
    (auto simp: raft_newborn_def split: prod.splits)

lemma node_ids_Cons: "0 < n \<Longrightarrow> \<exists>rest. node_ids n = NodeId 0 # rest"
  by (auto simp: node_ids_def upt_conv_Cons)

lemma raft_newborn_ids: "raft_newborn X n ns nds \<Longrightarrow> map rn_id nds = ns"
  unfolding raft_newborn_def by (induction rule: list_all2_induct) (auto simp: raft_start_new)

lemma force_first_start:
  assumes "raft_newborn X n (node_ids n) nds0" and "force_first nds0 = Inr nds" and "n < 2 ^ 64"
  shows "map rn_id nds = node_ids n \<and> (\<forall>nd\<in>set nds. raft_start (NodeId 0) nd \<and> rf_committed (rn_state nd) = [])"
proof -
  obtain nd rest where nds0: "nds0 = nd # rest" using assms(2) by (cases nds0) auto
  then obtain nd' where f: "raft_force_leader nd = Inr nd'" and nds: "nds = nd' # rest"
    using assms(2) by (auto simp: rbind_eq_Inr)
  have n: "0 < n" using assms(1) nds0 by (cases n) (auto simp: raft_newborn_def node_ids_def)
  obtain js where is_def: "node_ids n = NodeId 0 # js" using node_ids_Cons [OF n] by blast
  have d: "NodeId 0 \<notin> set js" using distinct_node_ids [OF assms(3)] is_def by simp
  obtain rng where nd: "nd = raft_new_seeded X (NodeId 0) n rng"
    and rest: "raft_newborn X n js rest"
    using assms(1) nds0 is_def by (auto simp: raft_newborn_def)
  have lead: "raft_start (NodeId 0) nd' \<and> rn_id nd' = NodeId 0" using raft_start_leader [of X "NodeId 0" n rng nd'] f nd by simp
  have ids: "map rn_id rest = js" using raft_newborn_ids [OF rest] .
  have others: "raft_start (NodeId 0) x" if "x \<in> set rest" for x
  proof -
    have "rn_id x \<in> set js" using that ids by force
    moreover obtain i r where "x = raft_new_seeded X i n r"
      using rest \<open>x \<in> set rest\<close> unfolding raft_newborn_def list_all2_conv_all_nth in_set_conv_nth by metis
    ultimately show ?thesis using d raft_start_new by metis
  qed
  have "rf_committed (rn_state x) = []" if "raft_start (NodeId 0) x" for x :: "'a raft_node"
    using that by (simp add: raft_start_def Let_def)
  then show ?thesis using lead ids is_def nds others by auto
qed

section \<open>What the log records\<close>

lemma raft_cluster_net:
  fixes nds :: "'rng raft_node list"
  assumes ids: "map rn_id nds = node_ids n" and n: "n < 2 ^ 64"
    and start: "\<forall>nd\<in>set nds. raft_start (NodeId 0) nd \<and> rf_committed (rn_state nd) = []"
    and fc: "no_equivocation fc"
    and run: "cluster_run X (raft_vtable X) (cluster_of nds fc) ops = Inr c" and ops: "\<forall>x\<in>set ops. loyal_op False full x"
  shows "\<exists>t. net_reach False (raft_vtable X) (set (node_ids n)) (\<lambda>nd. 0) (\<lambda>nd. rf_committed (rn_state nd))
      (net_init (node_at (raft_vtable X) nds)) t \<and>
    cluster_rel (raft_vtable X) (\<lambda>nd. rf_committed (rn_state nd)) full (node_ids n) c t"
proof -
  have d: "distinct (map (vt_id (raft_vtable X)) nds)" using ids n by (simp add: distinct_node_ids)
  have "cluster_rel (raft_vtable X) (\<lambda>nd. rf_committed (rn_state nd)) full (map (vt_id (raft_vtable X)) nds)
      (cluster_of nds fc) (net_init (node_at (raft_vtable X) nds))"
    using start by (intro cluster_rel_start d fc) simp
  from rb.sim_cluster_run [OF this run ops, where view = "\<lambda>nd. 0"] show ?thesis using ids by simp
qed

text \<open>The nodes of \<open>new_raft_with_leader\<close>, by identifier.\<close>

lemma force_first_node_at:
  assumes f: "force_first (raft_nodes X ne n) = Inr nds" and n: "n < 2 ^ 64" and i: "i \<in> set (node_ids n)"
  shows "if i = NodeId 0 then raft_force_leader (raft_new_seeded X (NodeId 0) n (ne (NodeId 0))) = Inr (node_at (raft_vtable X) nds i)
    else node_at (raft_vtable X) nds i = raft_new_seeded X i n (ne i)"
proof -
  have "0 < n" using i by (cases n) (auto simp: node_ids_def)
  then obtain js where js: "node_ids n = NodeId 0 # js" using node_ids_Cons by blast
  then obtain nd' where lead: "raft_force_leader (raft_new_seeded X (NodeId 0) n (ne (NodeId 0))) = Inr nd'"
    and nds: "nds = nd' # map (\<lambda>i. raft_new_seeded X i n (ne i)) js"
    using f by (auto simp: raft_nodes_def rbind_eq_Inr)
  have ids: "map rn_id nds = node_ids n" using force_first_start [OF raft_nodes_newborn f n] by simp
  then have d: "distinct (map (vt_id (raft_vtable X)) nds)" using n by (simp add: distinct_node_ids)
  have id0: "rn_id nd' = NodeId 0" using ids nds js by simp
  show ?thesis
  proof (cases "i = NodeId 0")
    case True
    then show ?thesis using node_at_self [OF d, of nd'] nds lead id0 by simp
  next
    case False
    then have "raft_new_seeded X i n (ne i) \<in> set nds" using i js nds by auto
    from node_at_self [OF d this] show ?thesis using False by (simp add: raft_start_new)
  qed
qed

lemma raft_with_leader_start:
  assumes "n < 2 ^ 64"
    and "new_raft_with_leader X entropy node_entropy n = Inr c0 \<or> new_raft_with_leader_seeded X n seed = Inr c0"
  shows "\<exists>nds fc. c0 = cluster_of nds fc \<and> no_equivocation fc \<and> map rn_id nds = node_ids n \<and>
    (\<forall>nd\<in>set nds. raft_start (NodeId 0) nd \<and> rf_committed (rn_state nd) = [])"
  using assms(2)
proof
  assume "new_raft_with_leader X entropy node_entropy n = Inr c0"
  then obtain nds where "force_first (raft_nodes X node_entropy n) = Inr nds" "c0 = cluster_of nds (fault_default entropy)"
    by (auto simp: new_raft_with_leader_def rbind_eq_Inr)
  with force_first_start [OF raft_nodes_newborn this(1) assms(1)] show ?thesis
    by (intro exI [of _ nds] exI [of _ "fault_default entropy"]) simp
next
  assume "new_raft_with_leader_seeded X n seed = Inr c0"
  moreover obtain nds0 master where s0: "seed_nodes X n (seed_from_u64 X seed) (node_ids n) = (nds0, master)" by fastforce
  moreover obtain r m where r: "gen_u64 X master = (r, m)" by fastforce
  ultimately obtain nds where s: "seed_nodes X n (seed_from_u64 X seed) (node_ids n) = (nds0, master)"
      "force_first nds0 = Inr nds" "c0 = cluster_of nds (fault_with_seed X r)"
    by (auto simp: new_raft_with_leader_seeded_def rbind_eq_Inr)
  with force_first_start [OF seed_nodes_newborn [OF s(1)] s(2) assms(1)] show ?thesis
    by (intro exI [of _ nds] exI [of _ "fault_with_seed X r"]) (simp add: fault_with_seed_def)
qed

lemma raft_cluster_log:
  fixes nds :: "'rng raft_node list"
  assumes ids: "map rn_id nds = node_ids n" and n: "n < 2 ^ 64"
    and start: "\<forall>nd\<in>set nds. raft_start (NodeId 0) nd \<and> rf_committed (rn_state nd) = []"
    and fc: "no_equivocation fc"
    and run: "cluster_run X (raft_vtable X) (cluster_of nds fc) ops = Inr c" and ops: "\<forall>x\<in>set ops. loyal_op False full x"
  shows "\<exists>L. distinct (map fst (lg_commits (cl_commit_log c))) \<and>
    (\<forall>i. subseq (list_at (lg_commits (cl_commit_log c)) i) (map entry_of L)) \<and>
    (full \<longrightarrow> (\<forall>i. prefix (list_at (lg_commits (cl_commit_log c)) i) (map entry_of L))) \<and>
    (\<forall>e\<in>set L. le_payload e \<in> set (lg_proposed (cl_commit_log c))) \<and>
    distinct (map le_index L)"
proof -
  let ?vt = "raft_vtable X" and ?committed = "\<lambda>nd :: 'rng raft_node. rf_committed (rn_state nd)"
  let ?view = "\<lambda>nd :: 'rng raft_node. 0 :: ViewNumber"
  have d: "distinct (map (vt_id ?vt) nds)" using ids n by (simp add: distinct_node_ids)
  obtain t where
    t: "net_reach False ?vt (set (map (vt_id ?vt) nds)) ?view ?committed (net_init (node_at ?vt nds)) t"
    and rel: "cluster_rel ?vt ?committed full (map (vt_id ?vt) nds) c t"
    using raft_cluster_net [OF assms] ids by auto
  have "\<forall>i\<in>set (map (vt_id ?vt) nds). raft_start (NodeId 0) (node_at ?vt nds i) \<and> rn_id (node_at ?vt nds i) = i"
    using start node_at_self [OF d] by auto
  from raft_reach_log [OF this t] obtain L where
    L: "\<forall>i. prefix (map snd (nt_decided t i)) (map entry_of L)" "\<forall>e\<in>set L. le_payload e \<in> nt_proposed t"
      "length L < 2 ^ 64" "map le_index L = map word_of_nat [1..<Suc (length L)]" by blast
  have "distinct (map (word_of_nat :: nat \<Rightarrow> u64) [1..<Suc (length L)])"
    using L(3) word_of_nat_inj_small by (auto simp: distinct_map inj_on_def)
  then have "distinct (map le_index L)" using L(4) by metis
  moreover have "subseq (list_at (lg_commits (cl_commit_log c)) i) (map entry_of L)" for i
    using subseq_order.trans [OF cluster_rel_logged [OF rel, of i] prefix_imp_subseq] L(1) by blast
  moreover have "prefix (list_at (lg_commits (cl_commit_log c)) i) (map entry_of L)" if full for i
  proof (cases "i \<in> vt_id ?vt ` set (cl_nodes c)")
    case True
    then obtain nd where nd: "nd \<in> set (cl_nodes c)" "i = vt_id ?vt nd" by blast
    have "holds_history full (list_at (lg_commits (cl_commit_log c)) (vt_id ?vt nd) @ ?committed nd)
        (map snd (nt_decided t (vt_id ?vt nd)))"
      using rel nd(1) unfolding cluster_rel_def by blast
    then have "prefix (list_at (lg_commits (cl_commit_log c)) i) (map snd (nt_decided t i))"
      using that nd(2) by (metis holds_history_def prefixI)
    then show ?thesis using L(1) prefix_order.trans by blast
  next
    case False
    moreover have "vt_id ?vt ` set (cl_nodes c) = set (map (vt_id ?vt) nds)"
      using rel unfolding cluster_rel_def by (metis image_set)
    ultimately have "map_of (lg_commits (cl_commit_log c)) i = None"
      using rel unfolding cluster_rel_def map_of_eq_None_iff by blast
    then show ?thesis by (simp add: list_at_def)
  qed
  moreover have "nt_proposed t \<subseteq> set (lg_proposed (cl_commit_log c))"
    "distinct (map fst (lg_commits (cl_commit_log c)))" using rel by (simp_all add: cluster_rel_def)
  ultimately show ?thesis using L(2) by (intro exI [of _ L]) blast
qed

lemma entry_of_index: "ce_sequence (entry_of e) = le_index e" "ce_payload (entry_of e) = le_payload e"
  by (simp_all add: entry_of_def)

lemma subseq_map_distinct: "subseq xs ys \<Longrightarrow> distinct (map f ys) \<Longrightarrow> distinct (map f xs)"
  by (induction rule: list_emb.induct) (auto dest: list_emb_set)

lemma one_log_checks:
  assumes keys: "distinct (map fst (lg_commits lg))"
    and sub: "\<And>i. subseq (list_at (lg_commits lg) i) (map entry_of L)"
    and proposed: "\<forall>e\<in>set L. le_payload e \<in> set (lg_proposed lg)" and d: "distinct (map le_index L)"
  shows "check_agreement lg honest = Pass" and "check_validity lg honest = Pass" and "check_integrity lg honest = Pass"
proof -
  have mem: "\<exists>x\<in>set L. e = entry_of x" if "log_entry_of lg i e" for i e
  proof -
    have "e \<in> set (list_at (lg_commits lg) i)" using that keys by (simp add: log_entry_of_iff)
    then show ?thesis using list_emb_set [OF sub [of i]] by auto
  qed
  have inj: "inj_on le_index (set L)" using d by (simp add: distinct_map)
  have "ce_payload e = ce_payload e'"
    if e: "log_entry_of lg i e" "log_entry_of lg j e'" "ce_sequence e = ce_sequence e'" for i j e e'
  proof -
    obtain x y where "x \<in> set L" "y \<in> set L" "e = entry_of x" "e' = entry_of y" using mem e(1,2) by blast
    then show ?thesis using e(3) inj by (auto simp: entry_of_index dest: inj_onD)
  qed
  then show "check_agreement lg honest = Pass"
    unfolding check_agreement_Pass log_agreement_def by (intro ballI allI impI) blast
  show "check_validity lg honest = Pass"
    unfolding check_validity_Pass log_validity_def using mem proposed by (fastforce simp: entry_of_index)
  have "distinct (map ce_sequence es)" if "(i, es) \<in> set (lg_commits lg)" for i es
  proof -
    have "list_at (lg_commits lg) i = es" using that keys by (simp add: list_at_def)
    then have "subseq es (map entry_of L)" using sub [of i] by simp
    moreover have "distinct (map ce_sequence (map entry_of L))" using d by (simp add: o_def entry_of_index)
    ultimately show ?thesis by (rule subseq_map_distinct)
  qed
  then show "check_integrity lg honest = Pass"
    unfolding check_integrity_Pass log_integrity_def by auto
qed

lemma prefix_orders_agree:
  assumes "prefix xs zs" and "prefix ys zs"
  shows "orders_agree xs ys"
  using assms unfolding orders_agree_def prefix_def by (auto simp: nth_append) (metis nth_append)

lemma one_log_total_order:
  assumes "\<And>i. prefix (list_at (lg_commits lg) i) (map entry_of L)"
  shows "check_total_order lg honest = Pass"
proof (rule check_total_order_PassI)
  fix i xs j ys
  assume o: "(i, xs) \<in> set (orderings lg honest)" "(j, ys) \<in> set (orderings lg honest)"
  have "prefix zs (map ce_sequence (map entry_of L))" if "(k, zs) \<in> set (orderings lg honest)" for k zs
  proof -
    obtain es where "map_of (lg_commits lg) k = Some es" "zs = map ce_sequence es"
      using \<open>(k, zs) \<in> _\<close> by (auto simp: orderings_def List.map_filter_def split: option.splits)
    then show ?thesis using assms [of k] map_mono_prefix by (fastforce simp: list_at_def)
  qed
  with o show "orders_agree xs ys" by (blast intro: prefix_orders_agree)
qed

end
