(* ===== verification/RaftProps.thy ===== *)
theory RaftProps
  imports RaftLog RaftCluster Concrete
begin

text \<open>The properties of Raft, over the asynchronous system, over clusters and over one node.\<close>

abbreviation raft_entries :: "'rng raft_node \<Rightarrow> committed_entry list" where
  "raft_entries nd \<equiv> rf_committed (rn_state nd)"

section \<open>An established leader\<close>

text \<open>
  C3: As long as no timer runs, a Raft system whose node \<open>l\<close> was made leader at the start
  implements one append-only log, whatever the network loses, repeats or reorders: there is a
  list of entries, numbered from 1 without gaps and all proposed by clients, such that what every
  node has committed, in its order, is a prefix of it.
\<close>

theorem raft_refines_log:
  assumes "\<forall>i\<in>ids. (if i = l then raft_force_leader (raft_new_seeded X l n (rng l)) = Inr (nodes l)
      else nodes i = raft_new_seeded X i n (rng i))"
    and "net_reach False (raft_vtable X) ids view raft_entries (net_init nodes) s"
  shows "\<exists>L. (\<forall>i. prefix (map snd (nt_decided s i)) (map entry_of L)) \<and>
    (\<forall>e\<in>set L. le_payload e \<in> nt_proposed s) \<and>
    length L < 2 ^ 64 \<and> map le_index L = map word_of_nat [1..<Suc (length L)]"
proof (rule raft_reach_log [OF _ assms(2)])
  show "\<forall>i\<in>ids. raft_start l (nodes i) \<and> rn_id (nodes i) = i"
  proof
    fix i
    assume "i \<in> ids"
    then show "raft_start l (nodes i) \<and> rn_id (nodes i) = i"
      using assms(1) raft_start_leader [of X l n "rng l" "nodes l"] raft_start_new(1) [of X i n "rng i"]
        raft_start_new(2) [of i l X n "rng i"] by (cases "i = l") auto
  qed
qed

text \<open>Two proposals: the second tells the followers that the first is committed.\<close>

definition two_rounds :: "u64 cluster_op list" where
  "two_rounds = [DoPropose (Payload [1]), DoRun 100, DoPropose (Payload [2]), DoRun 100, DoCollect True]"

lemma two_rounds_loyal: "\<forall>x\<in>set two_rounds. loyal_op False True x" "\<forall>x\<in>set two_rounds. loyal_op False False x"
  by (simp_all add: two_rounds_def)

text \<open>
  C6: A Raft cluster that starts with its first node as leader and in which no node equivocates and
  no timer runs passes the agreement, the validity and the integrity check after every sequence of
  proposals, steps, runs, fault changes and collections, for every set of nodes taken as honest.
\<close>

theorem raft_cluster_safety:
  assumes "n < 2 ^ 64"
    and "new_raft_with_leader X entropy node_entropy n = Inr c0 \<or> new_raft_with_leader_seeded X n seed = Inr c0"
    and "cluster_run X (raft_vtable X) c0 ops = Inr c" and "\<forall>x\<in>set ops. loyal_op False False x"
  shows "check_agreement (cl_commit_log c) honest = Pass \<and> check_validity (cl_commit_log c) honest = Pass \<and>
    check_integrity (cl_commit_log c) honest = Pass"
proof -
  obtain nds fc where c0: "c0 = cluster_of nds fc" and fc: "no_equivocation fc"
    and ids: "map rn_id nds = node_ids n"
    and start: "\<forall>nd\<in>set nds. raft_start (NodeId 0) nd \<and> rf_committed (rn_state nd) = []"
    using raft_with_leader_start [OF assms(1,2)] by blast
  from raft_cluster_log [OF ids assms(1) start fc assms(3)[unfolded c0] assms(4)]
  show ?thesis using one_log_checks [of "cl_commit_log c"] by blast
qed

theorem raft_cluster_safety_witness:
  "ends_with (rbind (new_raft_with_leader demo_extern (0 :: u64) (\<lambda>i. 0) 3) (\<lambda>c0. cluster_run demo_extern demo_raft c0 two_rounds))
     (\<lambda>c. check_agreement (cl_commit_log c) (node_ids 3) = Pass \<and> commit_count (cl_commit_log c) (NodeId 1) = 1)"
proof -
  have "ends_with (rbind (new_raft_with_leader demo_extern (0 :: u64) (\<lambda>i. 0) 3) (\<lambda>c0. cluster_run demo_extern demo_raft c0 two_rounds))
      (\<lambda>c. commit_count (cl_commit_log c) (NodeId 1) = 1)" by code_simp
  then show ?thesis
    using raft_cluster_safety [of 3 demo_extern 0 "\<lambda>i. 0" _ 0 two_rounds _ "node_ids 3"] two_rounds_loyal
    by (auto simp: ends_with_def rbind_def split: sum.splits)
qed

text \<open>
  C12: Such a cluster also passes the total-order check, whichever node the check takes as its
  reference, if every collection is recorded.
\<close>

theorem raft_cluster_total_order:
  assumes "n < 2 ^ 64"
    and "new_raft_with_leader X entropy node_entropy n = Inr c0 \<or> new_raft_with_leader_seeded X n seed = Inr c0"
    and "cluster_run X (raft_vtable X) c0 ops = Inr c" and "\<forall>x\<in>set ops. loyal_op False True x"
  shows "check_total_order (cl_commit_log c) honest = Pass"
proof -
  obtain nds fc where c0: "c0 = cluster_of nds fc" and fc: "no_equivocation fc"
    and ids: "map rn_id nds = node_ids n"
    and start: "\<forall>nd\<in>set nds. raft_start (NodeId 0) nd \<and> rf_committed (rn_state nd) = []"
    using raft_with_leader_start [OF assms(1,2)] by blast
  from raft_cluster_log [OF ids assms(1) start fc assms(3)[unfolded c0] assms(4)]
  show ?thesis using one_log_total_order [of "cl_commit_log c"] by blast
qed

theorem raft_cluster_total_order_witness:
  "ends_with (rbind (new_raft_with_leader demo_extern (0 :: u64) (\<lambda>i. 0) 3) (\<lambda>c0. cluster_run demo_extern demo_raft c0 two_rounds))
     (\<lambda>c. check_total_order (cl_commit_log c) (node_ids 3) = Pass \<and> commit_count (cl_commit_log c) (NodeId 0) = 2)"
proof -
  have "ends_with (rbind (new_raft_with_leader demo_extern (0 :: u64) (\<lambda>i. 0) 3) (\<lambda>c0. cluster_run demo_extern demo_raft c0 two_rounds))
      (\<lambda>c. commit_count (cl_commit_log c) (NodeId 0) = 2)" by code_simp
  then show ?thesis
    using raft_cluster_total_order [of 3 demo_extern 0 "\<lambda>i. 0" _ 0 two_rounds _ "node_ids 3"] two_rounds_loyal
    by (auto simp: ends_with_def rbind_def split: sum.splits)
qed

lemma raft_demo_run:
  "\<exists>nds s. force_first (raft_nodes demo_extern (\<lambda>i. 0) 3) = Inr nds \<and>
     net_reach False demo_raft (set (node_ids 3)) (\<lambda>nd. 0) raft_entries (net_init (node_at demo_raft nds)) s \<and>
     nt_decided s (NodeId 1) \<noteq> []"
proof -
  have "ends_with (force_first (raft_nodes demo_extern (\<lambda>i. 0) 3)) (\<lambda>nds.
      ends_with (cluster_run demo_extern demo_raft (cluster_of nds (fault_default 0)) two_rounds)
        (\<lambda>c. list_at (lg_commits (cl_commit_log c)) (NodeId 1) \<noteq> []))"
    by code_simp
  then obtain nds c where f: "force_first (raft_nodes demo_extern (\<lambda>i. 0) 3) = Inr nds"
    and run: "cluster_run demo_extern demo_raft (cluster_of nds (fault_default 0)) two_rounds = Inr c"
    and log: "list_at (lg_commits (cl_commit_log c)) (NodeId 1) \<noteq> []"
    by (blast elim: ends_withE)
  have n: "(3 :: usize) < 2 ^ 64" by simp
  note start = force_first_start [OF raft_nodes_newborn f n]
  obtain s where s: "net_reach False demo_raft (set (node_ids 3)) (\<lambda>nd. 0) raft_entries (net_init (node_at demo_raft nds)) s"
    and rel: "cluster_rel demo_raft raft_entries False (node_ids 3) c s"
    using raft_cluster_net [OF conjunct1 [OF start] n conjunct2 [OF start] _ run two_rounds_loyal(2)] by auto
  have "nt_decided s (NodeId 1) \<noteq> []" using cluster_rel_logged [OF rel, of "NodeId 1"] log by auto
  with f s show ?thesis by blast
qed

theorem raft_refines_log_witness:
  "\<exists>(s :: u64 raft_node net) L. nt_decided s (NodeId 1) \<noteq> [] \<and>
     prefix (map snd (nt_decided s (NodeId 1))) (map entry_of L) \<and> (\<forall>e\<in>set L. le_payload e \<in> nt_proposed s)"
proof -
  obtain nds s where f: "force_first (raft_nodes demo_extern (\<lambda>i. 0) 3) = Inr nds"
    and s: "net_reach False demo_raft (set (node_ids 3)) (\<lambda>nd. 0) raft_entries (net_init (node_at demo_raft nds)) s"
    and dec: "nt_decided s (NodeId 1) \<noteq> []"
    using raft_demo_run by blast
  have "\<forall>i\<in>set (node_ids 3). (if i = NodeId 0
      then raft_force_leader (raft_new_seeded demo_extern (NodeId 0) 3 0) = Inr (node_at demo_raft nds (NodeId 0))
      else node_at demo_raft nds i = raft_new_seeded demo_extern i 3 0)"
    using force_first_node_at [OF f] by fastforce
  from raft_refines_log [OF this s] dec show ?thesis by blast
qed

section \<open>One node\<close>

text \<open>
  Over any sequence of calls of one node its term and its commit index never fall, and a vote
  it has given in a term stays for as long as the term does: it votes at most once per term.
\<close>

theorem raft_monotone:
  assumes "node_run (raft_vtable X) nd xs = Inr (nd', out, es)"
  shows "rf_current_term (rn_state nd) \<le> rf_current_term (rn_state nd') \<and>
    (rf_current_term (rn_state nd') = rf_current_term (rn_state nd) \<longrightarrow>
       rf_voted_for (rn_state nd) \<noteq> None \<longrightarrow> rf_voted_for (rn_state nd') = rf_voted_for (rn_state nd)) \<and>
    rf_commit_index (rn_state nd) \<le> rf_commit_index (rn_state nd')"
  by (rule raft_run_effect [OF assms])

theorem raft_monotone_witness:
  "ends_with (node_run demo_raft ((raft_new_seeded demo_extern (NodeId 0) 3 0)\<lparr>rn_state :=
       (rn_state (raft_new_seeded demo_extern (NodeId 0) 3 0))\<lparr>rf_current_term := 2, rf_voted_for := Some (NodeId 2)\<rparr>\<rparr>)
     (handle_all [mk_msg (NodeId 1) (NodeId 0) (Raft (RequestVote 2 (NodeId 1) 0 0))]))
     (\<lambda>(nd', out, es). rf_current_term (rn_state nd') = 2 \<and> rf_voted_for (rn_state nd') = Some (NodeId 2))"
proof -
  let ?nd = "(raft_new_seeded demo_extern (NodeId 0) 3 0)\<lparr>rn_state :=
       (rn_state (raft_new_seeded demo_extern (NodeId 0) 3 0))\<lparr>rf_current_term := 2, rf_voted_for := Some (NodeId 2)\<rparr>\<rparr>"
    and ?ops = "handle_all [mk_msg (NodeId 1) (NodeId 0) (Raft (RequestVote 2 (NodeId 1) 0 0))]"
  have "ends_with (node_run demo_raft ?nd ?ops) (\<lambda>(nd', out, es). rf_current_term (rn_state nd') = 2)" by code_simp
  then obtain nd' out es where r: "node_run demo_raft ?nd ?ops = Inr (nd', out, es)"
    and t: "rf_current_term (rn_state nd') = 2"
    by (auto simp: ends_with_def simp del: node_run.simps split: sum.splits)
  from raft_monotone [OF r] t have "rf_voted_for (rn_state nd') = Some (NodeId 2)" by simp
  with r t show ?thesis by (simp add: ends_with_def del: node_run.simps)
qed


text \<open>
  C22: The merge of received entries, numbered consecutively from a position inside the log, never
  panics and equals the reference: the log itself if all the entries agree with it in their terms,
  otherwise the log up to the first disagreement followed by the remaining entries.
\<close>

theorem raft_append_loop_merges:
  assumes "k \<le> length lg" and "k + length es < 2 ^ 64"
    and "\<forall>j<length es. le_index (es ! j) = word_of_nat (Suc (k + j))"
  shows "append_loop lg es = Inr (merge_log k lg es)"
  by (rule append_loop_merge [OF assms])

theorem raft_append_loop_merges_witness:
  "append_loop [\<lparr>le_term = 1, le_index = 1, le_payload = Payload [1]\<rparr>, \<lparr>le_term = 1, le_index = 2, le_payload = Payload [2]\<rparr>]
     [\<lparr>le_term = 2, le_index = 2, le_payload = Payload [3]\<rparr>] =
   Inr [\<lparr>le_term = 1, le_index = 1, le_payload = Payload [1]\<rparr>, \<lparr>le_term = 2, le_index = 2, le_payload = Payload [3]\<rparr>]"
  by (subst raft_append_loop_merges [of 1]) (simp_all add: merge_log_def)



text \<open>
  C25: If the generator's range draws stay within their range, the election timer of a node never
  exceeds 30 ticks and its heartbeat timer never exceeds 5, over every sequence of calls from the
  node's creation.
\<close>

theorem raft_timer_bounds:
  assumes "gen_range_ok (gen_range X)"
    and "node_run (raft_vtable X) (raft_new_seeded X i n rng) xs = Inr (nd', out, es)"
  shows "rf_election_ticks_remaining (rn_state nd') \<le> 30 \<and> rf_heartbeat_ticks_remaining (rn_state nd') \<le> 5"
  using raft_run_timers [OF assms(1) raft_new_timers [OF assms(1)] assms(2)]
  by (simp add: raft_timers_ok_def ELECTION_TIMEOUT_MAX_def HEARTBEAT_INTERVAL_def)

theorem raft_timer_bounds_witness:
  "ends_with (node_run demo_raft (raft_new_seeded demo_extern (NodeId 0) 3 0) (replicate 17 OpTick))
     (\<lambda>(nd', out, es). rf_role (rn_state nd') = Candidate \<and> rf_election_ticks_remaining (rn_state nd') \<le> 30)"
proof -
  have "ends_with (node_run demo_raft (raft_new_seeded demo_extern (NodeId 0) 3 0) (replicate 17 OpTick))
     (\<lambda>(nd', out, es). rf_role (rn_state nd') = Candidate)" by code_simp
  then show ?thesis
    using raft_timer_bounds [OF demo_range_ok, of "NodeId 0" 3 0 "replicate 17 OpTick"]
    by (auto simp: ends_with_def simp del: node_run.simps split: sum.splits)
qed

text \<open>
  C20: A node that is not the leader and hears nothing starts an election one tick after its
  election timer has run down: it becomes a candidate of the next term with its own vote, and asks
  every peer for theirs with its last log index and term; no earlier tick sends anything.
\<close>

theorem raft_timeout_starts_election:
  assumes "rf_role (rn_state nd) \<noteq> Leader" and "rf_current_term (rn_state nd) \<noteq> - 1"
  shows "\<exists>nd'. node_run (raft_vtable X) nd (replicate (Suc (unat (rf_election_ticks_remaining (rn_state nd)))) OpTick) =
      Inr (nd', broadcast (rn_id nd) (rn_peer_ids nd) (Raft (RequestVote (rf_current_term (rn_state nd) + 1) (rn_id nd)
        (log_len (rn_state nd)) (last_log_term (rn_state nd)))), []) \<and>
    rf_role (rn_state nd') = Candidate \<and> rf_current_term (rn_state nd') = rf_current_term (rn_state nd) + 1 \<and>
    rf_voted_for (rn_state nd') = Some (rn_id nd) \<and> rf_votes_received (rn_state nd') = 1 \<and>
    rf_log (rn_state nd') = rf_log (rn_state nd)"
  by (rule raft_timeout_run [OF assms])

theorem raft_timeout_starts_election_witness:
  "\<exists>nd' out. node_run demo_raft (raft_new_seeded demo_extern (NodeId 0) 3 0) (replicate 16 OpTick) = Inr (nd', out, []) \<and>
     length out = 2 \<and> rf_role (rn_state nd') = Candidate"
proof -
  let ?nd = "raft_new_seeded demo_extern (NodeId 0) 3 (0 :: u64)"
  have nd: "rf_role (rn_state ?nd) \<noteq> Leader" "rf_current_term (rn_state ?nd) \<noteq> - 1"
    "Suc (unat (rf_election_ticks_remaining (rn_state ?nd))) = 16" "length (rn_peer_ids ?nd) = 2"
    by code_simp+
  show ?thesis using raft_timeout_starts_election [OF nd(1,2), of demo_extern] nd(4) unfolding nd(3) by auto
qed

end
