(* ===== verification/Quorums.thy ===== *)
theory Quorums
  imports PbftInv HsInv Concrete
begin

text \<open>
  Quorum systems: sets of \<open>q\<close> out of the cluster's nodes of which any two share more than \<open>f\<close>
  members.  PBFT and HotStuff take \<open>q = 2f + 1\<close> with \<open>f = (n - 1) / 3\<close>, Raft a majority.
\<close>

locale quorum_system =
  fixes ids :: "node_id set" and q f :: nat
  assumes finite_ids: "finite ids"
    and large: "card ids + f < 2 * q"
begin

lemma intersect:
  assumes "A \<subseteq> ids" and "B \<subseteq> ids" and "q \<le> card A" and "q \<le> card B"
  shows "f < card (A \<inter> B)"
proof -
  have fin: "finite A" "finite B" using assms(1,2) finite_ids finite_subset by auto
  have "card (A \<union> B) \<le> card ids" using assms(1,2) finite_ids by (intro card_mono) auto
  moreover have "card A + card B = card (A \<union> B) + card (A \<inter> B)" using card_Un_Int [OF fin] .
  ultimately show ?thesis using assms(3,4) large by linarith
qed

text \<open>With at most \<open>f\<close> faulty nodes, two quorums share a correct one.\<close>

lemma share_correct:
  assumes "A \<subseteq> ids" and "B \<subseteq> ids" and "q \<le> card A" and "q \<le> card B"
    and "F \<subseteq> ids" and "card F \<le> f"
  shows "\<exists>i\<in>A \<inter> B. i \<notin> F"
proof (rule ccontr)
  assume "\<not> (\<exists>i\<in>A \<inter> B. i \<notin> F)"
  then have "A \<inter> B \<subseteq> F" by blast
  moreover have "finite F" using assms(5) finite_ids finite_subset by blast
  ultimately have "card (A \<inter> B) \<le> card F" by (intro card_mono)
  then show False using intersect [OF assms(1-4)] assms(6) by simp
qed

end

lemma card_node_ids: "card (set (node_ids n)) \<le> n"
  using card_length [of "node_ids n"] by simp

interpretation pbft_qs: quorum_system "set (node_ids (3 * f + 1))" "2 * pbft_f (3 * f + 1) + 1" f for f
  using card_node_ids [of "3 * f + 1"] by unfold_locales (simp_all add: pbft_f_def)

interpretation hs_qs: quorum_system "set (node_ids (3 * f + 1))" "2 * hs_f (3 * f + 1) + 1" f for f
  using card_node_ids [of "3 * f + 1"] by unfold_locales (simp_all add: hs_f_def)

interpretation raft_qs: quorum_system "set (node_ids n)" "n div 2 + 1" 0 for n
proof unfold_locales
  show "card (set (node_ids n)) + 0 < 2 * (n div 2 + 1)" using card_node_ids [of n] by presburger
qed simp

text \<open>
  In a PBFT or HotStuff cluster of \<open>3f + 1\<close> nodes any two vote sets that reach the node's quorum
  share a node outside any set of \<open>f\<close> faulty ones.
\<close>

theorem bft_quorums_share_correct:
  assumes "pn_cluster_size nd = 3 * f + 1 \<and> pbft_quorum nd = Inr q \<or> hn_cluster_size hn = 3 * f + 1 \<and> hs_quorum hn = Inr q"
    and "A \<subseteq> set (node_ids (3 * f + 1))" and "B \<subseteq> set (node_ids (3 * f + 1))"
    and "q \<le> card A" and "q \<le> card B" and "F \<subseteq> set (node_ids (3 * f + 1))" and "card F \<le> f"
  shows "\<exists>i\<in>A \<inter> B. i \<notin> F"
  using assms(1)
proof
  assume "pn_cluster_size nd = 3 * f + 1 \<and> pbft_quorum nd = Inr q"
  then have "q = 2 * pbft_f (3 * f + 1) + 1" by (auto simp: pbft_quorum_Inr)
  with assms(2-7) show ?thesis by (intro pbft_qs.share_correct) auto
next
  assume "hn_cluster_size hn = 3 * f + 1 \<and> hs_quorum hn = Inr q"
  then have "q = 2 * hs_f (3 * f + 1) + 1" by (auto simp: hs_quorum_Inr)
  with assms(2-7) show ?thesis by (intro hs_qs.share_correct) auto
qed

theorem bft_quorums_share_correct_witness:
  "pbft_quorum (pbft_new (NodeId 0) 4) = Inr 3 \<and>
   (\<exists>i\<in>{NodeId 0, NodeId 1, NodeId 2} \<inter> {NodeId 1, NodeId 2, NodeId 3}. i \<notin> {NodeId 1})"
proof -
  have q: "pn_cluster_size (pbft_new (NodeId 0) 4) = 3 * 1 + 1" "pbft_quorum (pbft_new (NodeId 0) 4) = Inr 3"
    by (simp_all add: pbft_new_def pbft_quorum_def sub_usize_def Let_def)
  have ids: "set (node_ids (3 * 1 + 1)) = {NodeId 0, NodeId 1, NodeId 2, NodeId 3}"
    by (auto simp: node_ids_def upt_rec)
  show ?thesis
    using bft_quorums_share_correct [OF disjI1 [OF conjI [OF q]], of "{NodeId 0, NodeId 1, NodeId 2}"
        "{NodeId 1, NodeId 2, NodeId 3}" "{NodeId 1}"] q(2)
    unfolding ids by simp
qed


text \<open>
  Any two majorities of a Raft cluster share a node.
\<close>

theorem raft_majorities_intersect:
  assumes "A \<subseteq> set (node_ids (rn_cluster_size nd))" and "B \<subseteq> set (node_ids (rn_cluster_size nd))"
    and "raft_majority nd \<le> card A" and "raft_majority nd \<le> card B"
  shows "A \<inter> B \<noteq> {}"
  using raft_qs.intersect [OF assms(1,2)] assms(3,4) by (auto simp: raft_majority_def)

theorem raft_majorities_intersect_witness:
  "raft_majority (raft_new_seeded demo_extern (NodeId 0) 3 (0 :: u64)) = 2 \<and> {NodeId 0, NodeId 1} \<inter> {NodeId 1, NodeId 2} \<noteq> {}"
proof -
  have n: "rn_cluster_size (raft_new_seeded demo_extern (NodeId 0) 3 (0 :: u64)) = 3"
    by (simp add: raft_new_seeded_def split: prod.splits)
  then have m: "raft_majority (raft_new_seeded demo_extern (NodeId 0) 3 (0 :: u64)) = 2" by (simp add: raft_majority_def)
  have "{NodeId 0, NodeId 1} \<subseteq> set (node_ids 3)" "{NodeId 1, NodeId 2} \<subseteq> set (node_ids 3)"
    by (simp_all add: mem_node_ids_iff)
  then show ?thesis
    using raft_majorities_intersect [of "{NodeId 0, NodeId 1}" "raft_new_seeded demo_extern (NodeId 0) 3 (0 :: u64)" "{NodeId 1, NodeId 2}"] n m
    by simp
qed

end
