(* ===== verification/ClusterProps.thy ===== *)
theory ClusterProps
  imports ClusterLemmas PbftProps
begin

text \<open>
  The properties of the orchestrator, of the fault injector and of the checks.  Those of the
  orchestrator hold for every protocol: the method table is arbitrary.
\<close>

section \<open>The orchestrator\<close>

lemma cluster_of_stats: "stats_ok (cl_stats (cluster_of nds fc))"
  by (simp add: cluster_of_def cluster_stats_default_def stats_ok_def)

text \<open>
  C27: The counters of a cluster of any protocol, after any sequence of calls, satisfy that what
  was delivered and what was dropped add up to at most what was sent, and that no dropped message
  counts as tampered with.
\<close>

theorem cluster_counters:
  assumes "cluster_run X vt (cluster_of nds fc) ops = Inr c"
  shows "unat (cs_messages_delivered (cl_stats c)) + unat (cs_messages_dropped (cl_stats c)) \<le> unat (cs_messages_sent (cl_stats c)) \<and>
    unat (cs_messages_tampered (cl_stats c)) + unat (cs_messages_dropped (cl_stats c)) \<le> unat (cs_messages_sent (cl_stats c))"
  using cluster_run_stats [OF assms cluster_of_stats] by (simp add: stats_ok_def)

text \<open>A round of PBFT with a node that is cut off and one that corrupts digests.\<close>

definition faulty_round :: "u64 cluster_op list" where
  "faulty_round =
     [DoSetFaults (with_byzantine (with_isolated (fault_default 0) (NodeId 3)) (NodeId 1) [CorruptDigest]),
      DoPropose (Payload [1]), DoRun 100]"

theorem cluster_counters_witness:
  "ends_with (cluster_run demo_extern demo_pbft (new_pbft 0 4) faulty_round) (\<lambda>c.
     cs_messages_sent (cl_stats c) = 21 \<and> cs_messages_dropped (cl_stats c) = 7 \<and> cs_messages_tampered (cl_stats c) = 4 \<and>
     unat (cs_messages_delivered (cl_stats c)) + unat (cs_messages_dropped (cl_stats c)) \<le> unat (cs_messages_sent (cl_stats c)))"
proof -
  have "ends_with (cluster_run demo_extern demo_pbft (new_pbft 0 4) faulty_round) (\<lambda>c.
      cs_messages_sent (cl_stats c) = 21 \<and> cs_messages_dropped (cl_stats c) = 7 \<and> cs_messages_tampered (cl_stats c) = 4)"
    by code_simp
  then show ?thesis
    using cluster_counters [of demo_extern demo_pbft "pbft_nodes 4" "fault_default 0" faulty_round]
    by (auto simp: ends_with_def new_pbft_def split: sum.splits)
qed

lemma run_to_completion_Inl:
  "run_to_completion X vt c k = Inl e \<Longrightarrow>
     \<exists>i<k. \<exists>ci. cluster_steps X vt i c = Inr ci \<and> cl_pending ci \<noteq> [] \<and> cluster_step X vt ci = Inl e"
proof (induction k arbitrary: c)
  case (Suc k)
  then have p: "cl_pending c \<noteq> []" by (auto split: if_splits)
  show ?case
  proof (cases "cluster_step X vt c")
    case (Inl e')
    then have "cluster_steps X vt 0 c = Inr c" "cluster_step X vt c = Inl e" using Suc.prems p by auto
    then show ?thesis using p by blast
  next
    case (Inr c1)
    then have "run_to_completion X vt c1 k = Inl e" using Suc.prems p by (auto simp: rbind_eq_Inl)
    then obtain i ci where "i < k" "cluster_steps X vt i c1 = Inr ci" "cl_pending ci \<noteq> []" "cluster_step X vt ci = Inl e"
      using Suc.IH by blast
    with Inr have "Suc i < Suc k" "cluster_steps X vt (Suc i) c = Inr ci" by simp_all
    then show ?thesis using \<open>cl_pending ci \<noteq> []\<close> \<open>cluster_step X vt ci = Inl e\<close> by blast
  qed
qed simp

lemma run_to_completion_busy:
  "run_to_completion X vt c k = Inr (c', j) \<Longrightarrow> i < j \<Longrightarrow>
     \<exists>ci. cluster_steps X vt i c = Inr ci \<and> cl_pending ci \<noteq> []"
proof (induction k arbitrary: c j i)
  case (Suc k)
  then obtain c1 j1 where c1: "cl_pending c \<noteq> []" "cluster_step X vt c = Inr c1"
    "run_to_completion X vt c1 k = Inr (c', j1)" "j = Suc j1"
    by (auto simp: rbind_eq_Inr split: if_splits)
  then show ?case using Suc.IH [OF c1(3)] Suc.prems(2) by (cases i) auto
qed simp

text \<open>
  C28: \<open>run_to_completion\<close> ends: it takes the least number of steps after which no message
  is pending, at most its limit, and panics only where one of those steps does.
\<close>

theorem run_to_completion_ends:
  "case run_to_completion X vt c k of
     Inl e \<Rightarrow> \<exists>i<k. \<exists>ci. cluster_steps X vt i c = Inr ci \<and> cl_pending ci \<noteq> [] \<and> cluster_step X vt ci = Inl e
   | Inr (c', j) \<Rightarrow> j \<le> k \<and> cluster_steps X vt j c = Inr c' \<and> (cl_pending c' = [] \<or> j = k) \<and>
       {i. i < j \<and> (\<exists>ci. cluster_steps X vt i c = Inr ci \<and> cl_pending ci \<noteq> [])} = {..<j}"
proof (cases "run_to_completion X vt c k")
  case (Inl e)
  then show ?thesis using run_to_completion_Inl by simp
next
  case (Inr r)
  obtain c' j where r: "r = (c', j)" by (cases r)
  show ?thesis
    using run_to_completion_steps [of X vt c k c' j] run_to_completion_busy [of X vt c k c' j] Inr r by auto
qed

text \<open>
  C34: No run touches an isolated node: whatever is pending, a node that is isolated keeps its
  state while messages are delivered.
\<close>

theorem isolated_unchanged:
  assumes "run_to_completion X vt c k = Inr (c', j)" and "i < length (cl_nodes c)"
    and "is_isolated (cl_faults c) (vt_id vt (cl_nodes c ! i))"
  shows "cl_nodes c' ! i = cl_nodes c ! i"
  using cluster_steps_isolated [OF _ assms(2,3)] run_to_completion_steps [OF assms(1)] by blast

theorem isolated_unchanged_witness:
  "ends_with (cluster_run demo_extern demo_pbft (new_pbft (0 :: u64) 4) (take 2 faulty_round)) (\<lambda>c.
     ends_with (run_to_completion demo_extern demo_pbft c 100) (\<lambda>(c', j). j = 3 \<and> cl_nodes c' ! 3 = cl_nodes c ! 3))"
proof -
  have "ends_with (cluster_run demo_extern demo_pbft (new_pbft (0 :: u64) 4) (take 2 faulty_round)) (\<lambda>c.
      length (cl_nodes c) = 4 \<and> is_isolated (cl_faults c) (vt_id demo_pbft (cl_nodes c ! 3)) \<and>
      ends_with (run_to_completion demo_extern demo_pbft c 100) (\<lambda>(c', j). j = 3))"
    by code_simp
  then show ?thesis
    using isolated_unchanged [of demo_extern demo_pbft _ 100 _ 3 3]
    by (auto simp: ends_with_def split: sum.splits prod.splits)
qed

section \<open>The cluster refines the asynchronous system\<close>

text \<open>
  C35: Whatever sequence of calls drives a PBFT cluster in which no node equivocates, some run of
  the asynchronous system ends in the same nodes, has sent everything that is pending and has
  proposed nothing the log does not list; what the log and a node hold of the node's entries is a
  subsequence of what it decided in that run, and exactly that if every collection is recorded.
\<close>

theorem pbft_cluster_refines_async:
  assumes "n < 2 ^ 64"
    and "cluster_run X (pbft_vtable (sha256 X)) (new_pbft entropy n) ops = Inr c"
    and "\<forall>x\<in>set ops. loyal_op timers full x"
  shows "\<exists>s. net_reach timers (pbft_vtable (sha256 X)) (set (node_ids n)) pbft_view pbft_entries
       (net_init (node_at (pbft_vtable (sha256 X)) (pbft_nodes n))) s \<and>
     cluster_rel (pbft_vtable (sha256 X)) pbft_entries full (node_ids n) c s"
  using pbs.cluster_sim [OF pbft_start [OF assms(1)] _ assms(2)[unfolded new_pbft_def] assms(3)]
  by (simp add: pbft_ids)

theorem pbft_cluster_refines_async_witness:
  "\<exists>(c :: (pbft_node, u64) cluster) s. commit_count (cl_commit_log c) (NodeId 3) = 1 \<and>
     cluster_rel demo_pbft pbft_entries True (node_ids 4) c s"
proof -
  have "ends_with (cluster_run demo_extern demo_pbft (new_pbft (0 :: u64) 4) one_round)
      (\<lambda>c. commit_count (cl_commit_log c) (NodeId 3) = 1)" by code_simp
  then obtain c where c: "cluster_run demo_extern demo_pbft (new_pbft (0 :: u64) 4) one_round = Inr c"
    "commit_count (cl_commit_log c) (NodeId 3) = 1" by (rule ends_withE)
  have "\<forall>x\<in>set one_round. loyal_op True True x" by (simp add: one_round_def)
  from pbft_cluster_refines_async [OF _ c(1) this] c(2) show ?thesis by auto
qed

section \<open>Fault injection\<close>

fun digest_of :: "protocol_message \<Rightarrow> digest option" where
  "digest_of (Pbft (PrePrepare v sq d p)) = Some d"
| "digest_of (Pbft (Prepare v sq d i)) = Some d"
| "digest_of (Pbft (Commit v sq d i)) = Some d"
| "digest_of (HotStuff (Propose v sq d p jv jp)) = Some d"
| "digest_of (HotStuff (Vote v sq d ph i)) = Some d"
| "digest_of (HotStuff (QuorumCertificate v sq d ph c)) = Some d"
| "digest_of m = None"

lemma xor_ff_twice [simp]: "(b XOR 255) XOR 255 = (b :: u8)"
  by (simp add: xor.assoc)

lemma xor_ff_changes [simp]: "b XOR 255 \<noteq> (b :: u8)"
proof
  assume "b XOR 255 = b"
  then have "b XOR (b XOR 255) = b XOR b" by simp
  then show False by (simp add: xor.assoc [symmetric])
qed

lemma flip_twice [simp]: "flip_first_byte (flip_first_byte d) = d"
  by (cases d rule: flip_first_byte.cases) simp_all

lemma flip_fixed: "flip_first_byte d = d \<longleftrightarrow> d = Digest []"
  by (cases d rule: flip_first_byte.cases) simp_all

lemma corrupt_payload_twice [simp]: "corrupt_payload_digest (corrupt_payload_digest m) = m"
  by (cases m rule: corrupt_payload_digest.cases) simp_all

lemma corrupt_payload_fixed: "corrupt_payload_digest m = m \<longleftrightarrow> digest_of m \<in> {None, Some (Digest [])}"
  by (cases m rule: corrupt_payload_digest.cases) (simp_all add: flip_fixed)

text \<open>
  Corrupting a message twice gives it back, and corrupting it once changes it exactly when it
  carries a digest that is not empty; sender and receiver stay.
\<close>

theorem corrupt_digest_twice:
  "corrupt_digest (corrupt_digest msg) = msg \<and>
   (corrupt_digest msg = msg \<longleftrightarrow> digest_of (msg_payload msg) \<in> {None, Some (Digest [])}) \<and>
   msg_from (corrupt_digest msg) = msg_from msg \<and> msg_to (corrupt_digest msg) = msg_to msg"
  by (cases msg) (simp add: corrupt_digest_def corrupt_payload_fixed)

section \<open>The checks\<close>

text \<open>
  C36: The verdicts of \<open>check_invariants\<close> are those of the four sentences about the nodes
  that are neither Byzantine nor isolated, in whatever order their set and the log are iterated.
\<close>

theorem check_invariants_verdicts:
  assumes "set (iter (honest_nodes c)) = set (honest_nodes c)"
  shows "(ir_agreement (check_invariants iter c k) = Pass \<longleftrightarrow> log_agreement (cl_commit_log c) (set (honest_nodes c))) \<and>
    (ir_validity (check_invariants iter c k) = Pass \<longleftrightarrow> log_validity (cl_commit_log c) (set (honest_nodes c))) \<and>
    (ir_integrity (check_invariants iter c k) = Pass \<longleftrightarrow> log_integrity (cl_commit_log c) (set (honest_nodes c))) \<and>
    (ir_termination (check_invariants iter c k) = Pass \<longleftrightarrow> log_termination (cl_commit_log c) k (set (honest_nodes c)))"
  by (simp add: check_invariants_def check_log_def assms check_agreement_Pass check_validity_Pass
      check_integrity_Pass check_termination_Pass)

theorem check_invariants_verdicts_witness:
  "ends_with (cluster_run demo_extern demo_pbft (new_pbft (0 :: u64) 4) one_round)
     (\<lambda>c. log_agreement (cl_commit_log c) (set (honest_nodes c)) \<and>
        log_termination (cl_commit_log c) 1 (set (honest_nodes c)) \<and> length (honest_nodes c) = 4)"
proof -
  have "ends_with (cluster_run demo_extern demo_pbft (new_pbft (0 :: u64) 4) one_round)
      (\<lambda>c. ir_agreement (check_invariants rev c 1) = Pass \<and> ir_termination (check_invariants rev c 1) = Pass \<and>
         length (honest_nodes c) = 4)" by code_simp
  then show ?thesis
    using check_invariants_verdicts [of rev] by (auto simp: ends_with_def split: sum.splits)
qed

end
