(* ===== verification/Divergence.thy ===== *)
theory Divergence
  imports ClusterProps HsProps RaftProps
begin

text \<open>
  Where the guarantees end: runs of the simulator, evaluated from the model, in which a check
  fails.  Each run shows that an assumption of the safety theorems cannot be dropped for this code.
\<close>

definition byzantine_round :: "u64 cluster_op list" where
  "byzantine_round =
     [DoSetFaults (with_byzantine (fault_default 0) (NodeId 0) [Equivocate]),
      DoPropose (Payload [1]), DoRun 100, DoCollect True]"


section \<open>Changing views\<close>

definition pbft_reuse :: "u64 cluster_op list" where
  "pbft_reuse =
     [DoPropose (Payload [1]), DoStep, DoStep, DoSetFaults (with_isolated (fault_default 0) (NodeId 1)),
      DoRun 100, DoClearFaults 0] @ replicate 41 DoTick @
     [DoRun 100, DoPropose (Payload [2]), DoRun 100, DoCollect True]"

definition hs_reuse :: "u64 cluster_op list" where
  "hs_reuse =
     [DoPropose (Payload [1]), DoRun 100, DoSetFaults (with_isolated (fault_default 0) (NodeId 0))] @
     replicate 42 DoTick @ [DoRun 100, DoPropose (Payload [2]), DoRun 100, DoCollect True]"


section \<open>Elections\<close>

text \<open>
  The term of a vote response is not looked at unless it is newer than the node's: a granted vote
  of any older term counts like one of the current term.
\<close>

lemma raft_counts_stale_votes:
  assumes "t \<le> rf_current_term (rn_state nd)"
  shows "raft_on_request_vote_response nd t granted = raft_on_request_vote_response nd (rf_current_term (rn_state nd)) granted"
proof -
  have "\<not> rf_current_term (rn_state nd) < t" using assms by simp
  then show ?thesis unfolding raft_on_request_vote_response_def Let_def by (simp only: if_False less_irrefl)
qed

text \<open>
  Three nodes whose first election timers are 30, 25 and 15 ticks.  Node 2 asks for votes in
  term 1, node 1 in term 1 too and later in term 2, where it counts the vote it got in term 1.
\<close>

definition uneven_timers :: "node_id \<Rightarrow> u64" where
  "uneven_timers i = (if i = NodeId 0 then 15 else if i = NodeId 1 then 10 else 0)"

definition raft_elect :: "u64 cluster_op list" where
  "raft_elect = replicate 16 DoTick @ [DoStep] @ replicate 17 DoTick @
     [DoSetFaults (with_partition (fault_default 0) (NodeId 0) (NodeId 2)), DoRun 100]"

definition raft_diverge :: "u64 cluster_op list" where
  "raft_diverge =
     [DoPropose (Payload [1]), DoRun 100,
      DoSetFaults (with_isolated (with_isolated (fault_default 0) (NodeId 1)) (NodeId 0)),
      DoPropose (Payload [2]), DoRun 100, DoSetFaults (with_isolated (fault_default 0) (NodeId 0))] @
     replicate 6 DoTick @ [DoRun 100, DoCollect True]"

text \<open>The terms of the nodes that take themselves for the leader.\<close>

definition leader_terms :: "('rng raft_node, 'rng) cluster \<Rightarrow> u64 list" where
  "leader_terms c =
     map (\<lambda>nd. rf_current_term (rn_state nd)) (filter (\<lambda>nd. rf_role (rn_state nd) = Leader) (cl_nodes c))"


section \<open>The client and the checks\<close>

text \<open>
  A client is redirected to a leader it cannot reach: with the primary of a PBFT cluster
  isolated, a proposal is accepted, by the isolated node, and nobody else ever commits it.
\<close>

theorem propose_reaches_isolated_leader:
  "ends_with (cluster_propose demo_pbft
       (set_faults (new_pbft (0 :: u64) 4) (with_isolated (fault_default 0) (NodeId 0))) (Payload [1]))
     (\<lambda>(c, r). r = Accepted \<and> is_isolated (cl_faults c) (NodeId 0) \<and>
        pb_next_sequence (pn_state (cl_nodes c ! 0)) = 2 \<and>
        ends_with (cluster_run demo_extern demo_pbft c [DoRun 100, DoCollect True])
          (\<lambda>c'. map (commit_count (cl_commit_log c')) (node_ids 4) = [0, 0, 0, 0]))"
  by code_simp

definition split_log :: commit_log where
  "split_log =
     \<lparr>lg_proposed = [],
      lg_commits =
        [(NodeId 0, [\<lparr>ce_sequence = 1, ce_payload = Payload [1]\<rparr>]),
         (NodeId 1, [\<lparr>ce_sequence = 1, ce_payload = Payload [1]\<rparr>, \<lparr>ce_sequence = 2, ce_payload = Payload [2]\<rparr>]),
         (NodeId 2, [\<lparr>ce_sequence = 1, ce_payload = Payload [1]\<rparr>, \<lparr>ce_sequence = 3, ce_payload = Payload [3]\<rparr>])]\<rparr>"


end
