(* ===== verification/PbftRound.thy ===== *)
theory PbftRound
  imports PbftLive
begin

text \<open>
  A whole round of PBFT in a cluster whose network loses nothing: three steps take a proposal of
  the primary of view 0 from its pre-prepare to a commit at every node.  Votes may arrive in any
  order and with any digests, and more of them than a quorum.
\<close>

section \<open>The votes of one slot, in any number\<close>

text \<open>Votes of one kind for one number, from distinct senders.\<close>

definition pbft_votes :: "(digest \<Rightarrow> node_id \<Rightarrow> pbft_message) \<Rightarrow> network_message list \<Rightarrow> bool" where
  "pbft_votes M ms \<longleftrightarrow> distinct (map msg_from ms) \<and> (\<forall>m\<in>set ms. \<exists>d. msg_payload m = Pbft (M d (msg_from m)))"

lemma pbft_votes_Cons [simp]: "pbft_votes M (m # ms) \<longleftrightarrow>
    msg_from m \<notin> set (map msg_from ms) \<and> (\<exists>d. msg_payload m = Pbft (M d (msg_from m))) \<and> pbft_votes M ms"
  by (auto simp: pbft_votes_def)

lemma pbft_prepare_step:
  assumes "pb_slots (pn_state nd) sq = Some slot" and "ps_phase slot = PrePrepared" and "0 < pn_cluster_size nd"
    and "msg_payload m = Pbft (Prepare (pb_view (pn_state nd)) sq d r)"
  shows "pbft_handle_message nd m =
    (let A = insert r (ps_prepare_voters slot) in
     Inr (if 2 * pbft_f (pn_cluster_size nd) \<le> card A
          then (nd\<lparr>pn_state := (pn_state nd)\<lparr>pb_slots := (pb_slots (pn_state nd))(sq \<mapsto>
                  slot\<lparr>ps_prepare_voters := A, ps_phase := Prepared,
                       ps_commit_voters := insert (pn_id nd) (ps_commit_voters slot)\<rparr>)\<rparr>\<rparr>,
                broadcast_pbft nd (Commit (pb_view (pn_state nd)) sq d (pn_id nd)))
          else (nd\<lparr>pn_state := (pn_state nd)\<lparr>pb_slots := (pb_slots (pn_state nd))(sq \<mapsto>
                  slot\<lparr>ps_prepare_voters := A\<rparr>)\<rparr>\<rparr>, [])))"
proof -
  have "pbft_prepare_threshold nd = Inr (2 * pbft_f (pn_cluster_size nd))"
    using assms(3) by (simp add: pbft_prepare_threshold_Inr)
  then show ?thesis using assms by (simp add: pbft_handle_message_def pbft_on_prepare_def Let_def)
qed

lemma pbft_prepare_late:
  assumes "pb_slots (pn_state nd) sq = Some slot" and "ps_phase slot \<noteq> PrePrepared"
    and "pbft_votes (Prepare (pb_view (pn_state nd)) sq) ms"
  shows "node_run (pbft_vtable sha) nd (handle_all ms) = Inr (nd, [], [])"
  using assms(3)
proof (induction ms)
  case (Cons m ms)
  then obtain d where "msg_payload m = Pbft (Prepare (pb_view (pn_state nd)) sq d (msg_from m))" by auto
  then have "pbft_handle_message nd m = Inr (nd, [])"
    using assms(1,2) by (simp add: pbft_handle_message_def pbft_on_prepare_def Let_def)
  then show ?case using Cons by simp
qed simp

lemma pbft_prepares:
  assumes "pb_slots (pn_state nd) sq = Some slot" and "ps_phase slot = PrePrepared" and "0 < pn_cluster_size nd"
    and "pbft_votes (Prepare (pb_view (pn_state nd)) sq) ms" and "ms \<noteq> []"
    and "finite (ps_prepare_voters slot)" and "ps_prepare_voters slot \<inter> msg_from ` set ms = {}"
    and "2 * pbft_f (pn_cluster_size nd) \<le> card (ps_prepare_voters slot) + length ms"
  shows "\<exists>d A. node_run (pbft_vtable sha) nd (handle_all ms) =
    Inr (nd\<lparr>pn_state := (pn_state nd)\<lparr>pb_slots := (pb_slots (pn_state nd))(sq \<mapsto>
            slot\<lparr>ps_prepare_voters := A, ps_phase := Prepared,
                 ps_commit_voters := insert (pn_id nd) (ps_commit_voters slot)\<rparr>)\<rparr>\<rparr>,
         broadcast_pbft nd (Commit (pb_view (pn_state nd)) sq d (pn_id nd)), [])"
  using assms
proof (induction ms arbitrary: nd slot)
  case (Cons m ms)
  let ?A = "insert (msg_from m) (ps_prepare_voters slot)"
  obtain d where m: "msg_payload m = Pbft (Prepare (pb_view (pn_state nd)) sq d (msg_from m))"
    using Cons.prems(4) by auto
  note step = pbft_prepare_step [OF Cons.prems(1-3) m]
  have card: "card ?A = Suc (card (ps_prepare_voters slot))" using Cons.prems(6,7) by simp
  show ?case
  proof (cases "2 * pbft_f (pn_cluster_size nd) \<le> card ?A")
    case True
    let ?nd = "nd\<lparr>pn_state := (pn_state nd)\<lparr>pb_slots := (pb_slots (pn_state nd))(sq \<mapsto>
            slot\<lparr>ps_prepare_voters := ?A, ps_phase := Prepared,
                 ps_commit_voters := insert (pn_id nd) (ps_commit_voters slot)\<rparr>)\<rparr>\<rparr>"
    have "node_run (pbft_vtable sha) ?nd (handle_all ms) = Inr (?nd, [], [])"
      by (rule pbft_prepare_late) (use Cons.prems(4) in auto)
    then show ?thesis using step True by (intro exI [of _ d] exI [of _ ?A]) (simp add: Let_def fun_upd_def cong: if_cong)
  next
    case False
    let ?nd = "nd\<lparr>pn_state := (pn_state nd)\<lparr>pb_slots := (pb_slots (pn_state nd))(sq \<mapsto> slot\<lparr>ps_prepare_voters := ?A\<rparr>)\<rparr>\<rparr>"
    have "\<exists>d A. node_run (pbft_vtable sha) ?nd (handle_all ms) =
      Inr (?nd\<lparr>pn_state := (pn_state ?nd)\<lparr>pb_slots := (pb_slots (pn_state ?nd))(sq \<mapsto>
            (slot\<lparr>ps_prepare_voters := ?A\<rparr>)\<lparr>ps_prepare_voters := A, ps_phase := Prepared,
                 ps_commit_voters := insert (pn_id ?nd) (ps_commit_voters (slot\<lparr>ps_prepare_voters := ?A\<rparr>))\<rparr>)\<rparr>\<rparr>,
         broadcast_pbft ?nd (Commit (pb_view (pn_state ?nd)) sq d (pn_id ?nd)), [])"
      using Cons.prems False card by (intro Cons.IH) auto
    then obtain d' A where "node_run (pbft_vtable sha) ?nd (handle_all ms) =
      Inr (nd\<lparr>pn_state := (pn_state nd)\<lparr>pb_slots := (pb_slots (pn_state nd))(sq \<mapsto>
            slot\<lparr>ps_prepare_voters := A, ps_phase := Prepared,
                 ps_commit_voters := insert (pn_id nd) (ps_commit_voters slot)\<rparr>)\<rparr>\<rparr>,
         broadcast_pbft nd (Commit (pb_view (pn_state nd)) sq d' (pn_id nd)), [])"
      by (auto simp: broadcast_pbft_def)
    then show ?thesis using step False
      by (intro exI [of _ d'] exI [of _ A]) (simp add: Let_def fun_upd_def cong: if_cong)
  qed
qed simp

lemma pbft_commit_step:
  assumes "pb_slots (pn_state nd) sq = Some slot" and "ps_phase slot = Prepared" and "0 < pn_cluster_size nd"
    and "msg_payload m = Pbft (Commit (pb_view (pn_state nd)) sq d r)"
  shows "pbft_handle_message nd m =
    (let A = insert r (ps_commit_voters slot) in
     Inr (nd\<lparr>pn_state := (if 2 * pbft_f (pn_cluster_size nd) + 1 \<le> card A
          then pbft_commit_slot (pn_state nd) sq (slot\<lparr>ps_commit_voters := A\<rparr>)
          else (pn_state nd)\<lparr>pb_slots := (pb_slots (pn_state nd))(sq \<mapsto> slot\<lparr>ps_commit_voters := A\<rparr>)\<rparr>)\<rparr>, []))"
proof -
  have "pbft_quorum nd = Inr (2 * pbft_f (pn_cluster_size nd) + 1)" using assms(3) by (simp add: pbft_quorum_Inr)
  then show ?thesis using assms by (simp add: pbft_handle_message_def pbft_on_commit_def Let_def)
qed

lemma pbft_commit_late:
  assumes "pb_slots (pn_state nd) sq = Some slot" and "ps_phase slot = Committed"
    and "pbft_votes (Commit (pb_view (pn_state nd)) sq) ms"
  shows "node_run (pbft_vtable sha) nd (handle_all ms) = Inr (nd, [], [])"
  using assms(3)
proof (induction ms)
  case (Cons m ms)
  then obtain d where "msg_payload m = Pbft (Commit (pb_view (pn_state nd)) sq d (msg_from m))" by auto
  then have "pbft_handle_message nd m = Inr (nd, [])"
    using assms(1,2) by (simp add: pbft_handle_message_def pbft_on_commit_def Let_def)
  then show ?case using Cons by simp
qed simp

lemma pbft_commit_slot_state [simp]:
  "pb_slots (pbft_commit_slot st sq slot) = (pb_slots st)(sq \<mapsto> slot\<lparr>ps_phase := Committed\<rparr>)"
  "pb_view (pbft_commit_slot st sq slot) = pb_view st"
  by (simp_all add: pbft_commit_slot_def Let_def split: option.splits)

lemma pbft_commits:
  assumes "pb_slots (pn_state nd) sq = Some slot" and "ps_phase slot = Prepared" and "0 < pn_cluster_size nd"
    and "pbft_votes (Commit (pb_view (pn_state nd)) sq) ms" and "ms \<noteq> []"
    and "finite (ps_commit_voters slot)" and "ps_commit_voters slot \<inter> msg_from ` set ms = {}"
    and "2 * pbft_f (pn_cluster_size nd) + 1 \<le> card (ps_commit_voters slot) + length ms"
  shows "\<exists>A. node_run (pbft_vtable sha) nd (handle_all ms) =
    Inr (nd\<lparr>pn_state := pbft_commit_slot (pn_state nd) sq (slot\<lparr>ps_commit_voters := A\<rparr>)\<rparr>, [], [])"
  using assms
proof (induction ms arbitrary: nd slot)
  case (Cons m ms)
  let ?A = "insert (msg_from m) (ps_commit_voters slot)"
  obtain d where m: "msg_payload m = Pbft (Commit (pb_view (pn_state nd)) sq d (msg_from m))"
    using Cons.prems(4) by auto
  note step = pbft_commit_step [OF Cons.prems(1-3) m]
  have card: "card ?A = Suc (card (ps_commit_voters slot))" using Cons.prems(6,7) by simp
  show ?case
  proof (cases "2 * pbft_f (pn_cluster_size nd) + 1 \<le> card ?A")
    case True
    let ?nd = "nd\<lparr>pn_state := pbft_commit_slot (pn_state nd) sq (slot\<lparr>ps_commit_voters := ?A\<rparr>)\<rparr>"
    have "node_run (pbft_vtable sha) ?nd (handle_all ms) = Inr (?nd, [], [])"
      by (rule pbft_commit_late) (use Cons.prems(4) in auto)
    then show ?thesis using step True by (intro exI [of _ ?A]) (simp add: Let_def)
  next
    case False
    let ?nd = "nd\<lparr>pn_state := (pn_state nd)\<lparr>pb_slots := (pb_slots (pn_state nd))(sq \<mapsto> slot\<lparr>ps_commit_voters := ?A\<rparr>)\<rparr>\<rparr>"
    have "\<exists>A. node_run (pbft_vtable sha) ?nd (handle_all ms) =
      Inr (?nd\<lparr>pn_state := pbft_commit_slot (pn_state ?nd) sq ((slot\<lparr>ps_commit_voters := ?A\<rparr>)\<lparr>ps_commit_voters := A\<rparr>)\<rparr>, [], [])"
      using Cons.prems False card by (intro Cons.IH) auto
    then obtain A where "node_run (pbft_vtable sha) ?nd (handle_all ms) =
      Inr (nd\<lparr>pn_state := pbft_commit_slot (pn_state nd) sq (slot\<lparr>ps_commit_voters := A\<rparr>)\<rparr>, [], [])"
      by (auto simp: pbft_commit_slot_overwrites)
    then show ?thesis using step False by (intro exI [of _ A]) (simp add: Let_def)
  qed
qed simp


section \<open>Three steps\<close>

definition pbft_plain :: "nat \<Rightarrow> nat \<Rightarrow> committed_entry list \<Rightarrow> pbft_node \<Rightarrow> bool" where
  "pbft_plain n k es nd \<longleftrightarrow> pn_id nd = nid k \<and> pn_cluster_size nd = n \<and> pn_peer_ids nd = peers_of (nid k) n \<and>
     pb_view (pn_state nd) = 0 \<and> \<not> pb_view_change_in_progress (pn_state nd) \<and> pb_committed (pn_state nd) = es"

text \<open>The primary's next number; the other nodes never use theirs.\<close>

definition pbft_numbered :: "nat \<Rightarrow> SequenceNumber \<Rightarrow> pbft_node \<Rightarrow> bool" where
  "pbft_numbered k nx nd \<longleftrightarrow> (k = 0 \<longrightarrow> pb_next_sequence (pn_state nd) = nx)"

definition pbft_voting ::
  "SequenceNumber \<Rightarrow> payload \<Rightarrow> pbft_phase \<Rightarrow> node_id set \<Rightarrow> node_id set \<Rightarrow> pbft_node \<Rightarrow> bool" where
  "pbft_voting sq p phase A B nd \<longleftrightarrow> pb_pending_payloads (pn_state nd) sq = Some p \<and>
     (\<exists>slot. pb_slots (pn_state nd) sq = Some slot \<and> ps_phase slot = phase \<and>
        ps_prepare_voters slot = A \<and> ps_commit_voters slot = B)"

lemmas pbft_stage_defs = pbft_plain_def pbft_numbered_def pbft_voting_def

abbreviation prep :: "SequenceNumber \<Rightarrow> nat \<Rightarrow> protocol_message" where
  "prep sq k \<equiv> Pbft (Prepare 0 sq (Digest []) (nid k))"

abbreviation comm :: "SequenceNumber \<Rightarrow> nat \<Rightarrow> protocol_message" where
  "comm sq k \<equiv> Pbft (Commit 0 sq (Digest []) (nid k))"

lemma same_msg_pbft:
  assumes "same_msg m m'"
  shows "msg_payload m = Pbft (PrePrepare v sq d p) \<Longrightarrow> \<exists>d'. msg_payload m' = Pbft (PrePrepare v sq d' p)"
    and "msg_payload m = Pbft (Prepare v sq d i) \<Longrightarrow> \<exists>d'. msg_payload m' = Pbft (Prepare v sq d' i)"
  using assms by (auto simp: same_msg_def strip_digest_iffs)

lemma pbft_f_ge4: "4 \<le> n \<Longrightarrow> 1 \<le> pbft_f n"
  by (simp add: pbft_f_def)

lemma pbft_f_le: "0 < n \<Longrightarrow> 3 * pbft_f n + 1 \<le> n"
  by (simp add: pbft_f_def)

text \<open>Step 1 at a replica: the pre-prepare and the primary's prepare.\<close>

lemma pbft_node_step1:
  assumes "pbft_plain n k es nd" and "pbft_numbered k nx nd" and "4 \<le> n"
    and "list_all2 same_msg [mk_msg (nid 0) (nid k) (Pbft (PrePrepare 0 sq d p)),
      mk_msg (nid 0) (nid k) (Pbft (Prepare 0 sq d (nid 0)))] ms"
  shows "\<exists>nd' m'. node_run (pbft_vtable sha) nd (handle_all ms) = Inr (nd', broadcast (nid k) (peers_nid n k) m', []) \<and>
    strip_digest m' = prep sq k \<and> pbft_plain n k es nd' \<and> pbft_numbered k nx nd' \<and>
    pbft_voting sq p PrePrepared {NodeId 0} {} nd'"
proof -
  obtain m1 m2 where ms: "ms = [m1, m2]" and same: "same_msg (mk_msg (nid 0) (nid k) (Pbft (PrePrepare 0 sq d p))) m1"
      "same_msg (mk_msg (nid 0) (nid k) (Pbft (Prepare 0 sq d (nid 0)))) m2"
    using assms(4) by (auto simp: list_all2_Cons1)
  obtain d1 where m1: "msg_payload m1 = Pbft (PrePrepare 0 sq d1 p)" using same_msg_pbft(1) [OF same(1)] by auto
  obtain d2 where m2: "msg_payload m2 = Pbft (Prepare 0 sq d2 (nid 0))" using same_msg_pbft(2) [OF same(2)] by auto
  define nd1 where "nd1 = nd\<lparr>pn_state := (pn_state nd)\<lparr>pb_primary_active := True,
      pb_view_change_timeout := PBFT_VIEW_CHANGE_TIMEOUT,
      pb_slots := (pb_slots (pn_state nd))(sq \<mapsto> (pbft_slot_new 0 sq)\<lparr>ps_phase := PrePrepared\<rparr>),
      pb_pending_payloads := (pb_pending_payloads (pn_state nd))(sq \<mapsto> p)\<rparr>\<rparr>"
  have s1: "pbft_handle_message nd m1 = Inr (nd1, broadcast_pbft nd (Prepare 0 sq d1 (nid k)))"
    using assms(1) m1 by (simp add: pbft_handle_message_def pbft_on_pre_prepare_def pbft_plain_def nd1_def Let_def)
  have slot1: "pb_slots (pn_state nd1) sq = Some ((pbft_slot_new 0 sq)\<lparr>ps_phase := PrePrepared\<rparr>)"
    "pb_view (pn_state nd1) = 0" "pn_cluster_size nd1 = n"
    using assms(1) by (simp_all add: nd1_def pbft_plain_def)
  have "\<not> 2 * pbft_f n \<le> card (insert (nid 0) {} :: node_id set)" using pbft_f_ge4 [OF assms(3)] by simp
  then have s2: "pbft_handle_message nd1 m2 = Inr (nd1\<lparr>pn_state := (pn_state nd1)\<lparr>pb_slots := (pb_slots (pn_state nd1))(sq \<mapsto>
      (pbft_slot_new 0 sq)\<lparr>ps_phase := PrePrepared, ps_prepare_voters := {nid 0}\<rparr>)\<rparr>\<rparr>, [])"
    using pbft_prepare_step [OF slot1(1), of m2 d2 "nid 0"] slot1 m2 assms(3) by (simp add: pbft_slot_new_def Let_def)
  show ?thesis
    using s1 s2 assms(1,2)
    by (auto simp: ms broadcast_pbft_def pbft_stage_defs nd1_def pbft_slot_new_def)
qed

text \<open>Step 2 at any node: prepares from all the other replicas.\<close>

lemma pbft_node_step2:
  assumes nd: "pbft_plain n k es nd" "pbft_numbered k nx nd"
      "pbft_voting sq p PrePrepared (if k = 0 then {} else {NodeId 0}) {} nd"
    and n: "4 \<le> n" "n < 2 ^ 64" "k < n"
    and ms: "arrives n {1..<n} (peers_nid n) (prep sq) (nid k) ms"
  shows "\<exists>nd' m'. node_run (pbft_vtable sha) nd (handle_all ms) = Inr (nd', broadcast (nid k) (peers_nid n k) m', []) \<and>
    strip_digest m' = comm sq k \<and> pbft_plain n k es nd' \<and> pbft_numbered k nx nd' \<and>
    (\<exists>A. pbft_voting sq p Prepared A {nid k} nd')"
proof -
  obtain slot where slot: "pb_slots (pn_state nd) sq = Some slot" "ps_phase slot = PrePrepared"
      "ps_prepare_voters slot = (if k = 0 then {} else {NodeId 0})" "ps_commit_voters slot = {}"
    and pend: "pb_pending_payloads (pn_state nd) sq = Some p"
    using nd(3) by (auto simp: pbft_voting_def)
  have base: "pn_id nd = nid k" "pn_cluster_size nd = n" "pn_peer_ids nd = peers_nid n k" "pb_view (pn_state nd) = 0"
    using nd(1) by (auto simp: pbft_plain_def)
  have votes: "pbft_votes (Prepare 0 sq) ms" and froms: "\<forall>m\<in>set ms. \<exists>j<n. 1 \<le> j \<and> msg_from m = nid j"
    using ms by (fastforce simp: arrives_def pbft_votes_def strip_digest_iffs)+
  have "length ms = card ({1..<n} \<inter> {..<n} - {k})" using ms unfolding arrives_def card_senders [OF n(2,3)] by blast
  moreover have "{1..<n} \<inter> {..<n} - {k} = {1..<n} - {k}" by auto
  moreover have "card ({1..<n} - {k}) = n - (if k = 0 then 1 else 2)"
    using n(3) by (cases "k = 0") (simp_all add: card_Diff_singleton_if)
  ultimately have len: "length ms = n - (if k = 0 then 1 else 2)" by (simp only:)
  have "msg_from m \<noteq> NodeId 0" if m: "m \<in> set ms" for m
  proof -
    obtain j where "j < n" "1 \<le> j" "msg_from m = nid j" using froms m by blast
    then show ?thesis using nid_inj [of j 0] n(2) by simp
  qed
  then have "NodeId 0 \<notin> msg_from ` set ms" by (metis imageE)
  then have disj: "ps_prepare_voters slot \<inter> msg_from ` set ms = {}" by (simp add: slot(3))
  have fin: "finite (ps_prepare_voters slot)" by (simp add: slot(3))
  have "2 * pbft_f n \<le> card (ps_prepare_voters slot) + length ms" "ms \<noteq> []"
    using len slot(3) pbft_f_le [of n] n(1) by (cases "k = 0"; auto)+
  then obtain d A where "node_run (pbft_vtable sha) nd (handle_all ms) =
    Inr (nd\<lparr>pn_state := (pn_state nd)\<lparr>pb_slots := (pb_slots (pn_state nd))(sq \<mapsto>
            slot\<lparr>ps_prepare_voters := A, ps_phase := Prepared,
                 ps_commit_voters := insert (pn_id nd) (ps_commit_voters slot)\<rparr>)\<rparr>\<rparr>,
         broadcast_pbft nd (Commit (pb_view (pn_state nd)) sq d (pn_id nd)), [])"
    using pbft_prepares [OF slot(1,2), of ms sha] votes base disj fin n(1) by auto
  then show ?thesis
    using nd pend slot(4) base by (auto simp: broadcast_pbft_def pbft_stage_defs)
qed

text \<open>Step 3 at any node: commits from everybody else.\<close>

lemma pbft_node_step3:
  assumes nd: "pbft_plain n k es nd" "pbft_numbered k nx nd" "\<exists>A. pbft_voting sq p Prepared A {nid k} nd"
    and n: "4 \<le> n" "n < 2 ^ 64" "k < n"
    and ms: "arrives n {..<n} (peers_nid n) (comm sq) (nid k) ms"
  shows "\<exists>nd'. node_run (pbft_vtable sha) nd (handle_all ms) = Inr (nd', [], []) \<and>
    pbft_plain n k (es @ [\<lparr>ce_sequence = sq, ce_payload = p\<rparr>]) nd' \<and> pbft_numbered k nx nd'"
proof -
  obtain slot where slot: "pb_slots (pn_state nd) sq = Some slot" "ps_phase slot = Prepared" "ps_commit_voters slot = {nid k}"
    and pend: "pb_pending_payloads (pn_state nd) sq = Some p"
    using nd(3) by (auto simp: pbft_voting_def)
  have base: "pn_id nd = nid k" "pn_cluster_size nd = n" "pb_view (pn_state nd) = 0"
    using nd(1) by (auto simp: pbft_plain_def)
  have votes: "pbft_votes (Commit 0 sq) ms"
    using ms by (fastforce simp: arrives_def pbft_votes_def strip_digest_iffs)
  have "length ms = card ({..<n} \<inter> {..<n} - {k})" using ms unfolding arrives_def card_senders [OF n(2,3)] by blast
  then have len: "length ms = n - 1" using n(3) by (simp add: card_Diff_singleton_if)
  have "msg_from m \<noteq> nid k" if m: "m \<in> set ms" for m
  proof -
    obtain j where "j < n" "nid k \<in> set (peers_nid n j)" "msg_from m = nid j"
      using ms m unfolding arrives_def by blast
    then show ?thesis using mem_peers_nid [OF n(2) _ n(3)] nid_inj [of j k] n by auto
  qed
  then have "nid k \<notin> msg_from ` set ms" by (metis imageE)
  then have disj: "ps_commit_voters slot \<inter> msg_from ` set ms = {}" by (simp add: slot(3))
  have "2 * pbft_f n + 1 \<le> card (ps_commit_voters slot) + length ms" "ms \<noteq> []"
    using len slot(3) pbft_f_le [of n] n(1) by auto
  then obtain A where "node_run (pbft_vtable sha) nd (handle_all ms) =
      Inr (nd\<lparr>pn_state := pbft_commit_slot (pn_state nd) sq (slot\<lparr>ps_commit_voters := A\<rparr>)\<rparr>, [], [])"
    using pbft_commits [OF slot(1,2), of ms sha] votes base disj slot(3) n(1) by auto
  then show ?thesis
    using nd pend base by (auto simp: pbft_stage_defs pbft_commit_slot_def Let_def)
qed

section \<open>A round of a cluster\<close>

definition pbft_calm :: "nat \<Rightarrow> committed_entry list \<Rightarrow> SequenceNumber \<Rightarrow> (pbft_node, 'rng) cluster \<Rightarrow> bool" where
  "pbft_calm n es nx c \<longleftrightarrow> map pn_id (cl_nodes c) = node_ids n \<and> cl_pending c = [] \<and>
     (\<forall>k<n. pbft_plain n k es (cl_nodes c ! k) \<and> pbft_numbered k nx (cl_nodes c ! k))"

text \<open>What a round costs: messages, and those of them sent by Byzantine nodes.\<close>

definition pbft_messages :: "nat \<Rightarrow> nat" where
  "pbft_messages n = (n - 1) * (2 * n + 1)"

definition pbft_tampered :: "nat \<Rightarrow> 'rng fault_config \<Rightarrow> nat" where
  "pbft_tampered n fc = (n - 1) * (2 * byz_count n fc + (if is_byzantine fc (NodeId 0) then 1 else 0))"

lemma pbft_messages_split: "0 < n \<Longrightarrow> pbft_messages n = 2 * (n - 1) + (n - 1) * (n - 1) + n * (n - 1)"
  by (cases n) (simp_all add: pbft_messages_def algebra_simps)

lemma tampered_sum:
  fixes w :: nat
  assumes "a = 2 * (if b then w else 0)" and "x + (if b then w else 0) = w * k" and "y = w * k"
  shows "a + x + y = w * (2 * k + (if b then 1 else 0))"
  using assms by (cases b) (simp_all add: algebra_simps)

lemma lessThan_Int_from1: "{1..<n} \<inter> {..<n} = {1..<n}" for n :: nat
  by auto

text \<open>What is true of every node after the proposal, after each of the first two steps and at the end.\<close>

definition pbft_stage :: "nat \<Rightarrow> committed_entry list \<Rightarrow> SequenceNumber \<Rightarrow> (nat \<Rightarrow> pbft_node \<Rightarrow> bool) \<Rightarrow> (pbft_node, 'rng) cluster \<Rightarrow> bool" where
  "pbft_stage n es nx P c \<longleftrightarrow> map pn_id (cl_nodes c) = node_ids n \<and>
     (\<forall>k<n. pbft_plain n k es (cl_nodes c ! k) \<and> pbft_numbered k nx (cl_nodes c ! k) \<and> P k (cl_nodes c ! k))"

definition pbft_opening :: "nat \<Rightarrow> SequenceNumber \<Rightarrow> digest \<Rightarrow> payload \<Rightarrow> network_message list" where
  "pbft_opening n sq d p = broadcast (nid 0) (peers_nid n 0) (Pbft (PrePrepare 0 sq d p)) @
     broadcast (nid 0) (peers_nid n 0) (Pbft (Prepare 0 sq d (nid 0)))"

abbreviation at_start :: "SequenceNumber \<Rightarrow> payload \<Rightarrow> nat \<Rightarrow> pbft_node \<Rightarrow> bool" where
  "at_start sq p k nd \<equiv> k = 0 \<longrightarrow> pbft_voting sq p PrePrepared {} {} nd"

abbreviation at_prepare :: "SequenceNumber \<Rightarrow> payload \<Rightarrow> nat \<Rightarrow> pbft_node \<Rightarrow> bool" where
  "at_prepare sq p k nd \<equiv> pbft_voting sq p PrePrepared (if k = 0 then {} else {NodeId 0}) {} nd"

abbreviation at_commit :: "SequenceNumber \<Rightarrow> payload \<Rightarrow> nat \<Rightarrow> pbft_node \<Rightarrow> bool" where
  "at_commit sq p k nd \<equiv> \<exists>A. pbft_voting sq p Prepared A {nid k} nd"

lemma pbft_calm_stage: "pbft_calm n es nx c \<longleftrightarrow> pbft_stage n es nx (\<lambda>k nd. True) c \<and> cl_pending c = []"
  by (auto simp: pbft_calm_def pbft_stage_def)

lemma pbft_proposal:
  assumes n: "0 < n" "n < 2 ^ 64" and fc: "quiet (cl_faults c)"
    and calm: "pbft_calm n es nx c" and nx: "unat nx + 1 < 2 ^ 64"
  shows "\<exists>c1. cluster_propose (pbft_vtable sha) c p = Inr (c1, Accepted) \<and>
    pbft_stage n es (nx + 1) (at_start nx p) c1 \<and> cl_pending c1 = pbft_opening n nx (payload_digest sha p) p \<and>
    cl_faults c1 = cl_faults c \<and> cl_stats c1 = cl_stats c \<and> cl_commit_log c1 = record_proposal (cl_commit_log c) p"
proof -
  have len: "length (cl_nodes c) = n" using calm by (metis pbft_calm_def length_map length_node_ids)
  have plain: "pbft_plain n k es (cl_nodes c ! k)" if "k < n" for k
    using calm that by (auto simp: pbft_calm_def)
  have nx0: "pb_next_sequence (pn_state (cl_nodes c ! 0)) = nx" using calm n(1) by (auto simp: pbft_calm_def pbft_numbered_def)
  note nd0 = plain [OF n(1), unfolded pbft_stage_defs]
  have nw: "word_of_nat n \<noteq> (0 :: u64)" using n word_of_nat_inj_small [of n 0] by auto
  define nd' where "nd' = (cl_nodes c ! 0)\<lparr>pn_state := (pn_state (cl_nodes c ! 0))\<lparr>pb_next_sequence := nx + 1,
      pb_slots := (pb_slots (pn_state (cl_nodes c ! 0)))(nx \<mapsto> (pbft_slot_new 0 nx)\<lparr>ps_phase := PrePrepared\<rparr>),
      pb_pending_payloads := (pb_pending_payloads (pn_state (cl_nodes c ! 0)))(nx \<mapsto> p)\<rparr>\<rparr>"
  have accept: "vt_propose (pbft_vtable sha) (cl_nodes c ! 0) p = Inr (nd', Accepted, pbft_opening n nx (payload_digest sha p) p)"
    using nd0 nx0 nw add_u64_room [OF nx]
    by (simp add: pbft_propose_def pbft_primary_for_view_def rem_u64_def Let_def nd'_def broadcast_pbft_def pbft_opening_def)
  have lead: "pbft_plain n 0 es nd'" "pbft_numbered 0 (nx + 1) nd'" "pbft_voting nx p PrePrepared {} {} nd'"
    using nd0 by (auto simp: nd'_def pbft_stage_defs pbft_slot_new_def)
  have "pn_id nd' = map pn_id (cl_nodes c) ! 0" using nd0 len n(1) by (simp add: nd'_def)
  then have "map pn_id ((cl_nodes c)[0 := nd']) = node_ids n"
    using calm by (simp add: map_update pbft_calm_def)
  then have "pbft_stage n es (nx + 1) (at_start nx p) (c\<lparr>cl_commit_log := record_proposal (cl_commit_log c) p,
      cl_nodes := (cl_nodes c)[0 := nd'], cl_pending := pbft_opening n nx (payload_digest sha p) p\<rparr>)"
    using plain lead len by (auto simp: pbft_stage_def nth_list_update pbft_numbered_def)
  moreover have "cl_nodes c \<noteq> []" "cl_pending c = []" using len n calm by (auto simp: pbft_calm_def)
  ultimately show ?thesis using propose_first [OF _ fc accept] by simp
qed

lemma pbft_step1:
  assumes n: "4 \<le> n" "n < 2 ^ 64" and fc: "harmless (NodeId 0) (cl_faults c)"
    and stage: "pbft_stage n es nx (at_start sq p) c" and Q: "cl_pending c = pbft_opening n sq d p"
    and room: "stats_ok (cl_stats c)" "unat (cs_messages_sent (cl_stats c)) + length (cl_pending c) < 2 ^ 64"
      "unat (cs_total_steps (cl_stats c)) + 1 < 2 ^ 64"
  shows "\<exists>c'. cluster_step X (pbft_vtable sha) c = Inr c' \<and> pbft_stage n es nx (at_prepare sq p) c' \<and>
    queued n {1..<n} (peers_nid n) (prep sq) (cl_pending c') \<and>
    cl_faults c' = cl_faults c \<and> cl_commit_log c' = cl_commit_log c \<and>
    counted (cl_stats c) (length (cl_pending c)) (from_byzantine (cl_faults c) (cl_pending c)) 1 (cl_stats c')"
proof -
  have n0: "0 < n" using n by simp
  note peers = peers_nid_facts [OF n(2)]
  have nd: "pbft_plain n k es (cl_nodes c ! k)" "pbft_numbered k nx (cl_nodes c ! k)" "at_start sq p k (cl_nodes c ! k)"
    if "k < n" for k using stage that by (auto simp: pbft_stage_def)
  have "\<exists>c'. cluster_step X (pbft_vtable sha) c = Inr c' \<and> map (vt_id (pbft_vtable sha)) (cl_nodes c') = node_ids n \<and>
    (\<forall>k<n. pbft_plain n k es (cl_nodes c' ! k) \<and> pbft_numbered k nx (cl_nodes c' ! k) \<and> at_prepare sq p k (cl_nodes c' ! k)) \<and>
    queued n {1..<n} (peers_nid n) (prep sq) (cl_pending c') \<and>
    cl_faults c' = cl_faults c \<and> cl_commit_log c' = cl_commit_log c \<and>
    counted (cl_stats c) (length (cl_pending c)) (from_byzantine (cl_faults c) (cl_pending c)) 1 (cl_stats c')"
  proof (rule pb.quiet_step [OF fc n(2) _ _ _ room])
    show "map (vt_id (pbft_vtable sha)) (cl_nodes c) = node_ids n" using stage by (simp add: pbft_stage_def)
    show "msg_to m \<in> set (node_ids n) \<and> (msg_from m = NodeId 0 \<or> \<not> carries_payload (msg_payload m))"
      if "m \<in> set (cl_pending c)" for m using that Q by (auto simp: pbft_opening_def)
    fix k ms
    assume k: "k < n" and ms: "list_all2 same_msg (inbox (nid k) (cl_pending c)) ms"
    show "\<exists>nd' m'. node_run (pbft_vtable sha) (cl_nodes c ! k) (handle_all ms) =
          Inr (nd', if k \<in> {1..<n} then broadcast (nid k) (peers_nid n k) m' else [], []) \<and>
        (k \<in> {1..<n} \<longrightarrow> strip_digest m' = prep sq k) \<and>
        pbft_plain n k es nd' \<and> pbft_numbered k nx nd' \<and> at_prepare sq p k nd'"
    proof (cases "k = 0")
      case True
      have "inbox (nid 0) (cl_pending c) = []"
        using Q by (auto simp: inbox_def filter_empty_conv pbft_opening_def)
      then have "ms = []" using ms True by simp
      then show ?thesis using nd [OF n0] True by simp
    next
      case False
      have "nid k \<in> set (peers_nid n 0)" using mem_peers_nid [OF n(2) n0 k] False by simp
      then have "inbox (nid k) (cl_pending c) = [mk_msg (nid 0) (nid k) (Pbft (PrePrepare 0 sq d p)),
          mk_msg (nid 0) (nid k) (Pbft (Prepare 0 sq d (nid 0)))]"
        using filter_broadcast [OF peers(2) [OF n0]] Q by (simp add: inbox_def pbft_opening_def del: set_peers_of)
      then have "list_all2 same_msg [mk_msg (nid 0) (nid k) (Pbft (PrePrepare 0 sq d p)),
          mk_msg (nid 0) (nid k) (Pbft (Prepare 0 sq d (nid 0)))] ms" using ms by simp
      from pbft_node_step1 [OF nd(1,2) [OF k] n(1) this] show ?thesis using False k by simp
    qed
  qed
  then show ?thesis by (simp add: pbft_stage_def)
qed

lemma pbft_step2:
  assumes n: "4 \<le> n" "n < 2 ^ 64" and fc: "harmless (NodeId 0) (cl_faults c)"
    and stage: "pbft_stage n es nx (at_prepare sq p) c"
    and Q: "queued n {1..<n} (peers_nid n) (prep sq) (cl_pending c)"
    and room: "stats_ok (cl_stats c)" "unat (cs_messages_sent (cl_stats c)) + length (cl_pending c) < 2 ^ 64"
      "unat (cs_total_steps (cl_stats c)) + 1 < 2 ^ 64"
  shows "\<exists>c'. cluster_step X (pbft_vtable sha) c = Inr c' \<and> pbft_stage n es nx (at_commit sq p) c' \<and>
    queued n {..<n} (peers_nid n) (comm sq) (cl_pending c') \<and>
    cl_faults c' = cl_faults c \<and> cl_commit_log c' = cl_commit_log c \<and>
    counted (cl_stats c) (length (cl_pending c)) (from_byzantine (cl_faults c) (cl_pending c)) 1 (cl_stats c')"
proof -
  have nd: "pbft_plain n k es (cl_nodes c ! k)" "pbft_numbered k nx (cl_nodes c ! k)" "at_prepare sq p k (cl_nodes c ! k)"
    if "k < n" for k using stage that by (auto simp: pbft_stage_def)
  have "\<exists>c'. cluster_step X (pbft_vtable sha) c = Inr c' \<and> map (vt_id (pbft_vtable sha)) (cl_nodes c') = node_ids n \<and>
    (\<forall>k<n. pbft_plain n k es (cl_nodes c' ! k) \<and> pbft_numbered k nx (cl_nodes c' ! k) \<and> at_commit sq p k (cl_nodes c' ! k)) \<and>
    queued n {..<n} (peers_nid n) (comm sq) (cl_pending c') \<and>
    cl_faults c' = cl_faults c \<and> cl_commit_log c' = cl_commit_log c \<and>
    counted (cl_stats c) (length (cl_pending c)) (from_byzantine (cl_faults c) (cl_pending c)) 1 (cl_stats c')"
  proof (rule pb.quiet_round [OF fc n(2) _ Q _ _ _ room])
    show "map (vt_id (pbft_vtable sha)) (cl_nodes c) = node_ids n" using stage by (simp add: pbft_stage_def)
    show "distinct (peers_nid n k) \<and> set (peers_nid n k) \<subseteq> set (node_ids n)" if "k < n" for k
      using peers_nid_facts [OF n(2) that] by blast
    show "\<exists>nd' m'. node_run (pbft_vtable sha) (cl_nodes c ! k) (handle_all ms) =
          Inr (nd', if k \<in> {..<n} then broadcast (nid k) (peers_nid n k) m' else [], []) \<and>
        (k \<in> {..<n} \<longrightarrow> strip_digest m' = comm sq k) \<and>
        pbft_plain n k es nd' \<and> pbft_numbered k nx nd' \<and> at_commit sq p k nd'"
      if "k < n" and "arrives n {1..<n} (peers_nid n) (prep sq) (nid k) ms" for k ms
      using pbft_node_step2 [OF nd [OF that(1)] n that, of sha] that(1) by simp
  qed simp
  then show ?thesis by (simp add: pbft_stage_def)
qed

lemma pbft_step3:
  assumes n: "4 \<le> n" "n < 2 ^ 64" and fc: "harmless (NodeId 0) (cl_faults c)"
    and stage: "pbft_stage n es nx (at_commit sq p) c"
    and Q: "queued n {..<n} (peers_nid n) (comm sq) (cl_pending c)"
    and room: "stats_ok (cl_stats c)" "unat (cs_messages_sent (cl_stats c)) + length (cl_pending c) < 2 ^ 64"
      "unat (cs_total_steps (cl_stats c)) + 1 < 2 ^ 64"
  shows "\<exists>c'. cluster_step X (pbft_vtable sha) c = Inr c' \<and> pbft_calm n (es @ [\<lparr>ce_sequence = sq, ce_payload = p\<rparr>]) nx c' \<and>
    cl_faults c' = cl_faults c \<and> cl_commit_log c' = cl_commit_log c \<and>
    counted (cl_stats c) (length (cl_pending c)) (from_byzantine (cl_faults c) (cl_pending c)) 1 (cl_stats c')"
proof -
  have nd: "pbft_plain n k es (cl_nodes c ! k)" "pbft_numbered k nx (cl_nodes c ! k)" "at_commit sq p k (cl_nodes c ! k)"
    if "k < n" for k using stage that by (auto simp: pbft_stage_def)
  let ?es = "es @ [\<lparr>ce_sequence = sq, ce_payload = p\<rparr>]"
  have "\<exists>c'. cluster_step X (pbft_vtable sha) c = Inr c' \<and> map (vt_id (pbft_vtable sha)) (cl_nodes c') = node_ids n \<and>
    (\<forall>k<n. pbft_plain n k ?es (cl_nodes c' ! k) \<and> pbft_numbered k nx (cl_nodes c' ! k)) \<and>
    queued n {} (peers_nid n) (comm sq) (cl_pending c') \<and>
    cl_faults c' = cl_faults c \<and> cl_commit_log c' = cl_commit_log c \<and>
    counted (cl_stats c) (length (cl_pending c)) (from_byzantine (cl_faults c) (cl_pending c)) 1 (cl_stats c')"
  proof (rule pb.quiet_round [OF fc n(2) _ Q _ _ _ room])
    show "map (vt_id (pbft_vtable sha)) (cl_nodes c) = node_ids n" using stage by (simp add: pbft_stage_def)
    show "distinct (peers_nid n k) \<and> set (peers_nid n k) \<subseteq> set (node_ids n)" if "k < n" for k
      using peers_nid_facts [OF n(2) that] by blast
    show "\<exists>nd' m'. node_run (pbft_vtable sha) (cl_nodes c ! k) (handle_all ms) =
          Inr (nd', if k \<in> {} then broadcast (nid k) (peers_nid n k) m' else [], []) \<and>
        (k \<in> {} \<longrightarrow> strip_digest m' = comm sq k) \<and> pbft_plain n k ?es nd' \<and> pbft_numbered k nx nd'"
      if "k < n" and "arrives n {..<n} (peers_nid n) (comm sq) (nid k) ms" for k ms
      using pbft_node_step3 [OF nd [OF that(1)] n that, of sha] by simp
  qed simp
  then show ?thesis by (simp add: pbft_calm_def queued_empty) blast
qed

lemma pbft_round:
  assumes n: "4 \<le> n" "n < 2 ^ 64" and fc: "harmless (NodeId 0) (cl_faults c)"
    and calm: "pbft_calm n es nx c" and nx: "unat nx + 1 < 2 ^ 64" and limit: "3 \<le> limit"
    and room: "stats_ok (cl_stats c)" "unat (cs_messages_sent (cl_stats c)) + pbft_messages n < 2 ^ 64"
      "unat (cs_total_steps (cl_stats c)) + 3 < 2 ^ 64"
  shows "\<exists>c1 c2. cluster_propose (pbft_vtable sha) c p = Inr (c1, Accepted) \<and>
    run_to_completion X (pbft_vtable sha) c1 limit = Inr (c2, 3) \<and>
    pbft_calm n (es @ [\<lparr>ce_sequence = nx, ce_payload = p\<rparr>]) (nx + 1) c2 \<and>
    cl_faults c2 = cl_faults c \<and> cl_commit_log c2 = record_proposal (cl_commit_log c) p \<and>
    counted (cl_stats c) (pbft_messages n) (pbft_tampered n (cl_faults c)) 3 (cl_stats c2)"
proof -
  let ?vt = "pbft_vtable sha" and ?fc = "cl_faults c" and ?b = "byz_count n (cl_faults c)"
  have n0: "0 < n" using n by simp
  have cost: "pbft_messages n = 2 * (n - 1) + (n - 1) * (n - 1) + n * (n - 1)" by (rule pbft_messages_split [OF n0])
  obtain c0 where c0: "cluster_propose ?vt c p = Inr (c0, Accepted)" "pbft_stage n es (nx + 1) (at_start nx p) c0"
    "cl_pending c0 = pbft_opening n nx (payload_digest sha p) p" "cl_faults c0 = ?fc" "cl_stats c0 = cl_stats c"
    "cl_commit_log c0 = record_proposal (cl_commit_log c) p"
    using pbft_proposal [OF n0 n(2) harmless_quiet [OF fc] calm nx] by blast
  have Q0: "length (cl_pending c0) = 2 * (n - 1)"
    "from_byzantine ?fc (cl_pending c0) = 2 * (if is_byzantine ?fc (NodeId 0) then n - 1 else 0)"
    using peers_nid_facts(1) [OF n(2) n0] c0(3) by (auto simp: pbft_opening_def from_byzantine_broadcast)
  have r0: "stats_ok (cl_stats c0)" "unat (cs_messages_sent (cl_stats c0)) + length (cl_pending c0) < 2 ^ 64"
      "unat (cs_total_steps (cl_stats c0)) + 1 < 2 ^ 64"
    using room cost Q0(1) unfolding c0(5) by linarith+
  obtain c1 where c1: "cluster_step X ?vt c0 = Inr c1" "pbft_stage n es (nx + 1) (at_prepare nx p) c1"
    "queued n {1..<n} (peers_nid n) (prep nx) (cl_pending c1)" "cl_faults c1 = ?fc" "cl_commit_log c1 = record_proposal (cl_commit_log c) p"
    "counted (cl_stats c) (length (cl_pending c0)) (from_byzantine ?fc (cl_pending c0)) 1 (cl_stats c1)"
    using pbft_step1 [OF n fc [folded c0(4)] c0(2,3) r0, of X sha] c0(4-6) by auto
  have Q1: "length (cl_pending c1) = (n - 1) * (n - 1)"
    "from_byzantine ?fc (cl_pending c1) + (if is_byzantine ?fc (NodeId 0) then n - 1 else 0) = (n - 1) * ?b"
    using queued_peers(1) [OF c1(3) n(2)] sum_byzantine_others [OF n0, of ?fc "n - 1"]
    by (simp_all only: lessThan_Int_from1 queued_peers(2) [OF c1(3) n(2)] card_atLeastLessThan)
  have r1: "stats_ok (cl_stats c1)" "unat (cs_messages_sent (cl_stats c1)) + length (cl_pending c1) < 2 ^ 64"
      "unat (cs_total_steps (cl_stats c1)) + 1 < 2 ^ 64"
    using counted_ok [OF c1(6) from_byzantine_le room(1)] c1(6) room cost Q0(1) Q1(1) unfolding counted_def by linarith+
  obtain c2 where c2: "cluster_step X ?vt c1 = Inr c2" "pbft_stage n es (nx + 1) (at_commit nx p) c2"
    "queued n {..<n} (peers_nid n) (comm nx) (cl_pending c2)" "cl_faults c2 = ?fc" "cl_commit_log c2 = record_proposal (cl_commit_log c) p"
    "counted (cl_stats c1) (length (cl_pending c1)) (from_byzantine ?fc (cl_pending c1)) 1 (cl_stats c2)"
    using pbft_step2 [OF n fc [folded c1(4)] c1(2,3) r1, of X sha] c1(4,5) by auto
  have Q2: "length (cl_pending c2) = n * (n - 1)" "from_byzantine ?fc (cl_pending c2) = (n - 1) * ?b"
    using queued_peers(1) [OF c2(3) n(2)] sum_byzantine [of ?fc "n - 1" n]
    by (simp_all only: Int_absorb queued_peers(2) [OF c2(3) n(2)] card_lessThan)
  have r2: "stats_ok (cl_stats c2)" "unat (cs_messages_sent (cl_stats c2)) + length (cl_pending c2) < 2 ^ 64"
      "unat (cs_total_steps (cl_stats c2)) + 1 < 2 ^ 64"
    using counted_ok [OF c2(6) from_byzantine_le r1(1)] c1(6) c2(6) room cost Q0(1) Q1(1) Q2(1) unfolding counted_def by linarith+
  obtain c3 where c3: "cluster_step X ?vt c2 = Inr c3" "pbft_calm n (es @ [\<lparr>ce_sequence = nx, ce_payload = p\<rparr>]) (nx + 1) c3"
    "cl_faults c3 = ?fc" "cl_commit_log c3 = record_proposal (cl_commit_log c) p"
    "counted (cl_stats c2) (length (cl_pending c2)) (from_byzantine ?fc (cl_pending c2)) 1 (cl_stats c3)"
    using pbft_step3 [OF n fc [folded c2(4)] c2(2,3) r2, of X sha] c2(4,5) by auto
  have "cl_pending c3 = []" using c3(2) by (simp add: pbft_calm_def)
  moreover have "cl_pending c0 \<noteq> []" "cl_pending c1 \<noteq> []" "cl_pending c2 \<noteq> []" using Q0(1) Q1(1) Q2(1) n by auto
  moreover obtain l where "limit = Suc (Suc (Suc l))" using limit by (metis add_Suc_right add_0 le_Suc_ex numeral_3_eq_3 add.commute)
  ultimately have run: "run_to_completion X ?vt c0 limit = Inr (c3, 3)"
    using c1(1) c2(1) c3(1) by (cases l) simp_all
  have "counted (cl_stats c) (pbft_messages n) (pbft_tampered n ?fc) 3 (cl_stats c3)"
  proof -
    have "counted (cl_stats c) (length (cl_pending c0) + length (cl_pending c1) + length (cl_pending c2))
        (from_byzantine ?fc (cl_pending c0) + from_byzantine ?fc (cl_pending c1) + from_byzantine ?fc (cl_pending c2)) (1 + 1 + 1) (cl_stats c3)"
      using counted_trans [OF counted_trans [OF c1(6) c2(6)] c3(5)] .
    moreover have "from_byzantine ?fc (cl_pending c0) + from_byzantine ?fc (cl_pending c1) + from_byzantine ?fc (cl_pending c2) = pbft_tampered n ?fc"
      using Q0(2) Q1(2) Q2(2) unfolding pbft_tampered_def by (rule tampered_sum)
    ultimately show ?thesis using Q0(1) Q1(1) Q2(1) cost by (simp add: numeral_3_eq_3)
  qed
  then show ?thesis using c0(1) run c3 by blast
qed

end
