(* ===== verification/PbftThree.thy ===== *)
theory PbftThree
  imports PbftRound
begin

text \<open>
  A round of PBFT with three nodes.  The quorum is then one vote, so a replica commits on the first
  commit it sees, and the order of the messages matters: the round is followed message by message.
\<close>

section \<open>A step of nodes only\<close>

fun nodes_deliver :: "'n vtable \<Rightarrow> 'n list \<Rightarrow> network_message list \<Rightarrow> ('n list \<times> network_message list) res" where
  "nodes_deliver vt nds [] = Inr (nds, [])"
| "nodes_deliver vt nds (m # ms) =
     (case node_position vt nds (msg_to m) of
        None \<Rightarrow> nodes_deliver vt nds ms
      | Some j \<Rightarrow>
          rbind (vt_handle_message vt (nds ! j) m) (\<lambda>(nd', out).
          rbind (nodes_deliver vt (nds[j := nd']) ms) (\<lambda>(nds', out'). Inr (nds', out @ out'))))"

context consensus_node begin

lemma deliver_all_honest:
  assumes "quiet (cl_faults c)" and "fc_byzantine_nodes (cl_faults c) = Map.empty" and "distinct (map (vt_id vt) (cl_nodes c))"
    and "msg_to ` set ms \<subseteq> vt_id vt ` set (cl_nodes c)" and "nodes_deliver vt (cl_nodes c) ms = Inr (nds', out)"
    and "stats_ok (cl_stats c)" and "unat (cs_messages_sent (cl_stats c)) + length ms < 2 ^ 64"
  shows "\<exists>c'. deliver_all X vt c ms = Inr (c', out) \<and> cl_nodes c' = nds' \<and> cl_pending c' = cl_pending c \<and>
    cl_faults c' = cl_faults c \<and> cl_commit_log c' = cl_commit_log c \<and> counted (cl_stats c) (length ms) 0 0 (cl_stats c')"
  using assms
proof (induction ms arbitrary: c nds' out)
  case (Cons m ms)
  obtain j where j: "j < length (cl_nodes c)" "vt_id vt (cl_nodes c ! j) = msg_to m"
    using Cons.prems(4) by (auto simp: in_set_conv_nth)
  have pos: "node_position vt (cl_nodes c) (msg_to m) = Some j"
    by (rule node_position_at [OF Cons.prems(3) j])
  obtain nd1 out1 out2 where h: "vt_handle_message vt (cl_nodes c ! j) m = Inr (nd1, out1)"
    and rest: "nodes_deliver vt ((cl_nodes c)[j := nd1]) ms = Inr (nds', out2)" and out: "out = out1 @ out2"
    using Cons.prems(5) pos by (auto simp: rbind_eq_Inr)
  have honest: "tamper (sha256 X) (cl_faults c) m = [m]" "\<not> is_byzantine (cl_faults c) i" for i
    using Cons.prems(2) by (simp_all add: tamper_def is_byzantine_def)
  have room: "unat (cs_messages_sent (cl_stats c)) + 1 < 2 ^ 64" using Cons.prems(7) by simp
  obtain c1 where c1: "deliver_one X vt c m = Inr (c1, out1)" "cl_nodes c1 = (cl_nodes c)[j := nd1]"
    "cl_pending c1 = cl_pending c" "cl_faults c1 = cl_faults c" "cl_commit_log c1 = cl_commit_log c"
    "counted (cl_stats c) 1 0 0 (cl_stats c1)"
    using deliver_one_quiet [OF Cons.prems(1,3) honest(1) refl j h Cons.prems(6) room] honest(2) by auto
  have "vt_id vt nd1 = vt_id vt (cl_nodes c ! j)" using handle_id [OF h] .
  then have ids: "map (vt_id vt) (cl_nodes c1) = map (vt_id vt) (cl_nodes c)"
    using c1(2) j list_update_id [of "map (vt_id vt) (cl_nodes c)" j] by (simp add: map_update)
  then have same_ids: "vt_id vt ` set (cl_nodes c1) = vt_id vt ` set (cl_nodes c)" by (metis set_map)
  have "\<exists>c'. deliver_all X vt c1 ms = Inr (c', out2) \<and> cl_nodes c' = nds' \<and> cl_pending c' = cl_pending c1 \<and>
    cl_faults c' = cl_faults c1 \<and> cl_commit_log c' = cl_commit_log c1 \<and> counted (cl_stats c1) (length ms) 0 0 (cl_stats c')"
  proof (rule Cons.IH)
    show "stats_ok (cl_stats c1)" by (rule counted_ok [OF c1(6) _ Cons.prems(6)]) simp
    show "unat (cs_messages_sent (cl_stats c1)) + length ms < 2 ^ 64" using c1(6) Cons.prems(7) by (simp add: counted_def)
  qed (use Cons.prems c1 ids same_ids rest in simp_all)
  then show ?case using c1 out counted_trans [OF c1(6)] by fastforce
qed simp

text \<open>A step of an honest cluster, as an advance.\<close>

lemma step_honest:
  assumes "quiet (cl_faults c)" and "fc_byzantine_nodes (cl_faults c) = Map.empty" and "distinct (map (vt_id vt) (cl_nodes c))"
    and "msg_to ` set (cl_pending c) \<subseteq> vt_id vt ` set (cl_nodes c)" and "cl_pending c \<noteq> []"
    and "nodes_deliver vt (cl_nodes c) (cl_pending c) = Inr (nds', out)"
    and "stats_ok (cl_stats c)" and "unat (cs_messages_sent (cl_stats c)) + length (cl_pending c) < 2 ^ 64"
    and "unat (cs_total_steps (cl_stats c)) + 1 < 2 ^ 64"
  shows "\<exists>c'. advances X vt 1 (length (cl_pending c)) 0 c c' \<and> cl_nodes c' = nds' \<and> cl_pending c' = out"
proof -
  let ?c0 = "c\<lparr>cl_pending := []\<rparr>"
  have "\<exists>c'. deliver_all X vt ?c0 (cl_pending c) = Inr (c', out) \<and> cl_nodes c' = nds' \<and> cl_pending c' = cl_pending ?c0 \<and>
    cl_faults c' = cl_faults ?c0 \<and> cl_commit_log c' = cl_commit_log ?c0 \<and>
    counted (cl_stats ?c0) (length (cl_pending c)) 0 0 (cl_stats c')"
    by (rule deliver_all_honest) (use assms in simp_all)
  then obtain c1 where c1: "deliver_all X vt ?c0 (cl_pending c) = Inr (c1, out)" "cl_nodes c1 = nds'" "cl_pending c1 = []"
    "cl_faults c1 = cl_faults c" "cl_commit_log c1 = cl_commit_log c" "counted (cl_stats c) (length (cl_pending c)) 0 0 (cl_stats c1)"
    by auto
  have room: "unat (cs_total_steps (cl_stats c1)) + 1 < 2 ^ 64" using c1(6) assms(9) by (simp add: counted_def)
  define c2 where "c2 = c1\<lparr>cl_stats := (cl_stats c1)\<lparr>cs_total_steps := cs_total_steps (cl_stats c1) + 1\<rparr>\<rparr>"
  have c2: "count_step c1 = Inr c2" using add_u64_room [OF room] by (simp add: count_step_def c2_def)
  have "counted (cl_stats c1) 0 0 1 (cl_stats c2)" using count_step_Inr [OF c2] by (simp add: counted_def)
  from counted_trans [OF c1(6) this]
  have "counted (cl_stats c) (length (cl_pending c)) 0 1 (cl_stats (enqueue c2 out))" by (simp add: enqueue_def)
  moreover have "cluster_step X vt c = Inr (enqueue c2 out)" using c1(1) c2 by (simp add: cluster_step_def)
  moreover have "cl_faults (enqueue c2 out) = cl_faults c" "cl_commit_log (enqueue c2 out) = cl_commit_log c"
    using c1 by (simp_all add: enqueue_def c2_def)
  ultimately have "advances X vt 1 (length (cl_pending c)) 0 c (enqueue c2 out)"
    using assms(5) by (intro advances_step) simp_all
  then show ?thesis using c1 by (intro exI [of _ "enqueue c2 out"]) (simp add: enqueue_def c2_def)
qed

end

section \<open>Three steps of three nodes\<close>

lemma node_ids_3: "node_ids 3 = [NodeId 0, NodeId 1, NodeId 2]"
  by (simp add: node_ids_def upt_rec)

lemma pbft_thresholds_3:
  "pn_cluster_size nd = 3 \<Longrightarrow> pbft_quorum nd = Inr 1" "pn_cluster_size nd = 3 \<Longrightarrow> pbft_prepare_threshold nd = Inr 0"
  by (simp_all add: pbft_quorum_Inr pbft_prepare_threshold_Inr pbft_f_def)

lemmas three_nodes = broadcast_def peers_of_def node_ids_3 pbft_thresholds_3 pbft_plain_def pbft_numbered_def pbft_voting_def nid_def
  pbft_handle_message_def pbft_on_pre_prepare_def pbft_on_prepare_def pbft_on_commit_def Let_def broadcast_pbft_def pbft_slot_new_def

text \<open>The answers to the pre-prepare, and to the prepares.\<close>

definition pbft_ballots_3 :: "SequenceNumber \<Rightarrow> digest \<Rightarrow> network_message list" where
  "pbft_ballots_3 sq d = concat (map (\<lambda>k. broadcast (nid k) (peers_nid 3 k) (Pbft (Prepare 0 sq d (nid k)))) [1, 2]) @
     concat (map (\<lambda>k. broadcast (nid k) (peers_nid 3 k) (Pbft (Commit 0 sq d (nid k)))) [1, 2])"

definition pbft_echo_3 :: "SequenceNumber \<Rightarrow> digest \<Rightarrow> network_message list" where
  "pbft_echo_3 sq d = broadcast (nid 0) (peers_nid 3 0) (Pbft (Commit 0 sq d (nid 0)))"

lemma pbft_three_step1:
  assumes "pbft_plain 3 0 es nd0" "pbft_numbered 0 nx nd0" "pbft_voting sq p PrePrepared {} {} nd0"
    and "pbft_plain 3 1 es nd1" and "pbft_plain 3 2 es nd2"
  shows "\<exists>nd1' nd2'. nodes_deliver (pbft_vtable sha) [nd0, nd1, nd2] (pbft_opening 3 sq d p) =
      Inr ([nd0, nd1', nd2'], pbft_ballots_3 sq d) \<and>
    pbft_plain 3 1 es nd1' \<and> pbft_voting sq p Prepared {NodeId 0} {NodeId 1} nd1' \<and>
    pbft_plain 3 2 es nd2' \<and> pbft_voting sq p Prepared {NodeId 0} {NodeId 2} nd2'"
  using assms by (simp add: pbft_opening_def pbft_ballots_3_def three_nodes)

lemma pbft_three_step2:
  assumes "pbft_plain 3 0 es nd0" "pbft_numbered 0 nx nd0" "pbft_voting sq p PrePrepared {} {} nd0"
    and "pbft_plain 3 1 es nd1" "pbft_voting sq p Prepared {NodeId 0} {NodeId 1} nd1"
    and "pbft_plain 3 2 es nd2" "pbft_voting sq p Prepared {NodeId 0} {NodeId 2} nd2"
  defines "es' \<equiv> es @ [\<lparr>ce_sequence = sq, ce_payload = p\<rparr>]"
  shows "\<exists>nd0' nd1' nd2'. nodes_deliver (pbft_vtable sha) [nd0, nd1, nd2] (pbft_ballots_3 sq d) =
      Inr ([nd0', nd1', nd2'], pbft_echo_3 sq d) \<and>
    pbft_plain 3 0 es' nd0' \<and> pbft_numbered 0 nx nd0' \<and>
    pbft_plain 3 1 es' nd1' \<and> (\<exists>slot. pb_slots (pn_state nd1') sq = Some slot \<and> ps_phase slot = Committed) \<and>
    pbft_plain 3 2 es' nd2' \<and> (\<exists>slot. pb_slots (pn_state nd2') sq = Some slot \<and> ps_phase slot = Committed)"
  using assms by (auto simp add: pbft_echo_3_def pbft_ballots_3_def three_nodes pbft_commit_slot_def)

lemma pbft_three_step3:
  assumes "pbft_plain 3 0 es nd0"
    and "pbft_plain 3 1 es nd1" "pb_slots (pn_state nd1) sq = Some slot1" "ps_phase slot1 = Committed"
    and "pbft_plain 3 2 es nd2" "pb_slots (pn_state nd2) sq = Some slot2" "ps_phase slot2 = Committed"
  shows "nodes_deliver (pbft_vtable sha) [nd0, nd1, nd2] (pbft_echo_3 sq d) = Inr ([nd0, nd1, nd2], [])"
  using assms by (simp add: pbft_echo_3_def three_nodes)

section \<open>The round\<close>

lemma all_three: "(\<forall>k<3. P k) \<longleftrightarrow> P 0 \<and> P 1 \<and> P (2 :: nat)"
  unfolding numeral_3_eq_3 numeral_2_eq_2 by (simp add: All_less_Suc conj_commute conj_left_commute)

lemma three_nodes_list:
  assumes "map pn_id nds = node_ids 3"
  obtains nd0 nd1 nd2 where "nds = [nd0, nd1, nd2]" "pn_id nd0 = NodeId 0" "pn_id nd1 = NodeId 1" "pn_id nd2 = NodeId 2"
  using assms by (auto simp: node_ids_3 map_eq_Cons_conv)

lemma pbft_step_three:
  assumes "quiet (cl_faults c)" and "fc_byzantine_nodes (cl_faults c) = Map.empty" and "cl_nodes c = [nd0, nd1, nd2]"
    and "pbft_plain 3 0 es nd0" and "pbft_plain 3 1 es1 nd1" and "pbft_plain 3 2 es2 nd2"
    and "cl_pending c \<noteq> []" and "msg_to ` set (cl_pending c) \<subseteq> {NodeId 0, NodeId 1, NodeId 2}"
    and "nodes_deliver (pbft_vtable sha) [nd0, nd1, nd2] (cl_pending c) = Inr (nds', out)"
    and "stats_ok (cl_stats c)" and "unat (cs_messages_sent (cl_stats c)) + length (cl_pending c) < 2 ^ 64"
    and "unat (cs_total_steps (cl_stats c)) + 1 < 2 ^ 64"
  shows "\<exists>c'. advances X (pbft_vtable sha) 1 (length (cl_pending c)) 0 c c' \<and> cl_nodes c' = nds' \<and> cl_pending c' = out"
  by (rule pb.step_honest) (use assms in \<open>simp_all add: pbft_plain_def nid_def\<close>)

lemma pbft_round_three:
  assumes fc: "quiet (cl_faults c)" "fc_byzantine_nodes (cl_faults c) = Map.empty"
    and calm: "pbft_calm 3 es nx c" and nx: "unat nx + 1 < 2 ^ 64" and limit: "3 \<le> limit"
    and room: "stats_ok (cl_stats c)" "unat (cs_messages_sent (cl_stats c)) + pbft_messages 3 < 2 ^ 64"
      "unat (cs_total_steps (cl_stats c)) + 3 < 2 ^ 64"
  shows "\<exists>c1 c2. cluster_propose (pbft_vtable sha) c p = Inr (c1, Accepted) \<and>
    run_to_completion X (pbft_vtable sha) c1 limit = Inr (c2, 3) \<and>
    pbft_calm 3 (es @ [\<lparr>ce_sequence = nx, ce_payload = p\<rparr>]) (nx + 1) c2 \<and>
    cl_faults c2 = cl_faults c \<and> cl_commit_log c2 = record_proposal (cl_commit_log c) p \<and>
    counted (cl_stats c) (pbft_messages 3) 0 3 (cl_stats c2)"
proof -
  let ?vt = "pbft_vtable sha" and ?d = "payload_digest sha p" and ?es = "es @ [\<lparr>ce_sequence = nx, ce_payload = p\<rparr>]"
  obtain c0 where c0: "cluster_propose ?vt c p = Inr (c0, Accepted)" "pbft_stage 3 es (nx + 1) (at_start nx p) c0"
    "cl_pending c0 = pbft_opening 3 nx ?d p" "cl_faults c0 = cl_faults c" "cl_stats c0 = cl_stats c"
    "cl_commit_log c0 = record_proposal (cl_commit_log c) p"
    using pbft_proposal [OF _ _ fc(1) calm nx] by auto
  obtain nd0 nd1 nd2 where nds: "cl_nodes c0 = [nd0, nd1, nd2]"
    by (rule three_nodes_list [of "cl_nodes c0"]) (use c0(2) in \<open>simp add: pbft_stage_def\<close>)
  have st0: "pbft_plain 3 0 es nd0" "pbft_numbered 0 (nx + 1) nd0" "pbft_voting nx p PrePrepared {} {} nd0"
    "pbft_plain 3 1 es nd1" "pbft_plain 3 2 es nd2"
    using c0(2) unfolding pbft_stage_def nds by (simp_all add: all_three)
  have len: "length (pbft_opening 3 nx ?d p) = 4" "length (pbft_ballots_3 nx ?d) = 8" "length (pbft_echo_3 nx ?d) = 2"
    "pbft_messages 3 = 4 + 8 + 2"
    by (simp_all add: pbft_opening_def pbft_ballots_3_def pbft_echo_3_def pbft_messages_def peers_of_def node_ids_3 nid_def)
  have to: "msg_to ` set (pbft_opening 3 nx ?d p) \<subseteq> {NodeId 0, NodeId 1, NodeId 2}"
    "msg_to ` set (pbft_ballots_3 nx ?d) \<subseteq> {NodeId 0, NodeId 1, NodeId 2}"
    "msg_to ` set (pbft_echo_3 nx ?d) \<subseteq> {NodeId 0, NodeId 1, NodeId 2}"
    by (auto simp: pbft_opening_def pbft_ballots_3_def pbft_echo_3_def peers_of_def node_ids_3 broadcast_def)
  obtain nd1' nd2' where s1: "nodes_deliver ?vt [nd0, nd1, nd2] (pbft_opening 3 nx ?d p) = Inr ([nd0, nd1', nd2'], pbft_ballots_3 nx ?d)"
    "pbft_plain 3 1 es nd1'" "pbft_voting nx p Prepared {NodeId 0} {NodeId 1} nd1'"
    "pbft_plain 3 2 es nd2'" "pbft_voting nx p Prepared {NodeId 0} {NodeId 2} nd2'"
    using pbft_three_step1 [OF st0, of sha ?d] by blast
  obtain c1 where c1: "advances X ?vt 1 4 0 c0 c1" "cl_nodes c1 = [nd0, nd1', nd2']" "cl_pending c1 = pbft_ballots_3 nx ?d"
    using pbft_step_three [OF _ _ nds st0(1,4,5), of sha _ _ X] s1(1) c0(3-5) fc to(1) len room by fastforce
  have r1: "stats_ok (cl_stats c1)" "unat (cs_messages_sent (cl_stats c1)) + 8 < 2 ^ 64"
    "unat (cs_total_steps (cl_stats c1)) + 1 < 2 ^ 64" "cl_faults c1 = cl_faults c"
    using advances_room [OF c1(1)] c0(4,5) room len(4) c1(1) by (simp_all add: advances_def)
  obtain nd0a nd1a nd2a slot1 slot2 where s2: "nodes_deliver ?vt [nd0, nd1', nd2'] (pbft_ballots_3 nx ?d) = Inr ([nd0a, nd1a, nd2a], pbft_echo_3 nx ?d)"
    "pbft_plain 3 0 ?es nd0a" "pbft_numbered 0 (nx + 1) nd0a"
    "pbft_plain 3 1 ?es nd1a" "pb_slots (pn_state nd1a) nx = Some slot1" "ps_phase slot1 = Committed"
    "pbft_plain 3 2 ?es nd2a" "pb_slots (pn_state nd2a) nx = Some slot2" "ps_phase slot2 = Committed"
    using pbft_three_step2 [OF st0(1-3) s1(2-5), of sha ?d] by blast
  obtain c2 where c2: "advances X ?vt 1 8 0 c1 c2" "cl_nodes c2 = [nd0a, nd1a, nd2a]" "cl_pending c2 = pbft_echo_3 nx ?d"
    using pbft_step_three [OF _ _ c1(2) st0(1) s1(2,4), of sha _ _ X] s2(1) c1(3) r1 fc to(2) len by fastforce
  have r2: "stats_ok (cl_stats c2)" "unat (cs_messages_sent (cl_stats c2)) + 2 < 2 ^ 64"
    "unat (cs_total_steps (cl_stats c2)) + 1 < 2 ^ 64" "cl_faults c2 = cl_faults c"
    using advances_room [OF advances_trans [OF c1(1) c2(1)]] c0(4,5) room len(4) r1(4) c2(1)
    by (simp_all add: advances_def)
  obtain c3 where c3: "advances X ?vt 1 2 0 c2 c3" "cl_nodes c3 = [nd0a, nd1a, nd2a]" "cl_pending c3 = []"
    using pbft_step_three [OF _ _ c2(2) s2(2,4,7), of sha _ _ X] pbft_three_step3 [OF s2(2,4-9), of sha ?d] c2(3) r2 fc to(3) len
    by fastforce
  have adv: "advances X ?vt 3 (pbft_messages 3) 0 c0 c3"
    using advances_trans [OF advances_trans [OF c1(1) c2(1)] c3(1)] unfolding len(4) by (simp add: eval_nat_numeral)
  have "run_to_completion X ?vt c0 limit = Inr (c3, 3)" by (rule advances_completes [OF adv c3(3) limit])
  moreover have "pbft_calm 3 ?es (nx + 1) c3"
    using s2(2-4,7) c3(2,3) by (simp add: pbft_calm_def all_three pbft_plain_def pbft_numbered_def node_ids_3 nid_def)
  ultimately show ?thesis using c0 adv by (auto simp: advances_def)
qed

end
