(* ===== verification/HsRound.thy ===== *)
theory HsRound
  imports HsLive
begin

text \<open>
  A whole round of HotStuff in a cluster whose network loses nothing: seven steps take a proposal of
  the leader of view 0 through its three phases of votes and certificates to a commit at every
  node, first at the leader, in the last step at the replicas.
\<close>

section \<open>The votes of one phase, in any number\<close>

definition hs_ballots :: "SequenceNumber \<Rightarrow> phase_tag \<Rightarrow> network_message list \<Rightarrow> bool" where
  "hs_ballots sq ph ms \<longleftrightarrow> distinct (map msg_from ms) \<and>
     (\<forall>m\<in>set ms. \<exists>d. msg_payload m = HotStuff (Vote 0 sq d ph (msg_from m)))"

lemma hs_ballots_Cons [simp]: "hs_ballots sq ph (m # ms) \<longleftrightarrow>
    msg_from m \<notin> set (map msg_from ms) \<and> (\<exists>d. msg_payload m = HotStuff (Vote 0 sq d ph (msg_from m))) \<and> hs_ballots sq ph ms"
  by (auto simp: hs_ballots_def)

definition hs_plain :: "nat \<Rightarrow> nat \<Rightarrow> hs_node \<Rightarrow> bool" where
  "hs_plain n k nd \<longleftrightarrow> hn_id nd = nid k \<and> hn_cluster_size nd = n \<and> hn_peer_ids nd = peers_nid n k \<and>
     hs_view (hn_state nd) = 0"

lemma hs_handle_payload: "hs_handle_message nd m = hs_handle_message nd (mk_msg a b (msg_payload m))"
  by (simp add: hs_handle_message_def)

lemma leader_of_0 [simp]: "leader_of n 0 = NodeId 0"
  by (simp add: leader_of_def)

lemma hs_ballots_late:
  assumes "hs_slots (hn_state nd) sq = Some slot" and "ss_phase slot \<noteq> tag_phase ph" and "hs_plain n k nd"
    and "0 < n" and "n < 2 ^ 64" and "hs_ballots sq ph ms"
  shows "node_run (hs_vtable sha) nd (handle_all ms) = Inr (nd, [], [])"
  using assms(6)
proof (induction ms)
  case (Cons m ms)
  have "hs_count_vote me q slot ph r = None" for me q r using assms(2) by (cases ph) (simp_all add: hs_count_vote_def)
  moreover have "hs_quorum nd = Inr (2 * hs_f n + 1)" "hs_leader_for_view nd v = Inr (leader_of n v)" for v
    using hs_helpers_total [of nd] assms(3-5) by (simp_all add: hs_plain_def)
  ultimately have "hs_handle_message nd m = Inr (nd, [])"
    using Cons.prems assms(1) by (auto simp: hs_handle_message_def hs_on_vote_def Let_def)
  then show ?case using Cons by simp
qed simp

lemma hs_ballots_run:
  assumes "hs_slots (hn_state nd) sq = Some slot" and "ss_phase slot = tag_phase ph" and "hs_plain n 0 nd"
    and "0 < n" and "n < 2 ^ 64" and "hs_ballots sq ph ms" and "ms \<noteq> []"
    and "finite (tag_voters ph slot)" and "tag_voters ph slot \<inter> msg_from ` set ms = {}"
    and "2 * hs_f n + 1 \<le> card (tag_voters ph slot) + length ms"
  shows "\<exists>d A. node_run (hs_vtable sha) nd (handle_all ms) =
    Inr (nd\<lparr>hn_state := hs_certify nd sq ph (with_voters ph A slot)\<rparr>,
         broadcast (nid 0) (peers_nid n 0) (HotStuff (QuorumCertificate 0 sq d ph
           (max (2 * hs_f n + 1) (Suc (card (tag_voters ph slot)))))), [])"
  using assms
proof (induction ms arbitrary: nd slot)
  case (Cons m ms)
  let ?A = "insert (msg_from m) (tag_voters ph slot)" and ?q = "2 * hs_f n + 1"
  obtain d where m: "msg_payload m = HotStuff (Vote 0 sq d ph (msg_from m))" using Cons.prems(6) by auto
  have base: "hn_id nd = nid 0" "hn_cluster_size nd = n" "hn_peer_ids nd = peers_nid n 0" "hs_view (hn_state nd) = 0"
    using Cons.prems(3) by (simp_all add: hs_plain_def)
  have lead: "leader_of (hn_cluster_size nd) (hs_view (hn_state nd)) = hn_id nd" using base by simp
  have "hs_handle_message nd m = hs_handle_message nd (mk_msg (msg_from m) (NodeId 0) (HotStuff (Vote (hs_view (hn_state nd)) sq d ph (msg_from m))))"
    by (metis hs_handle_payload m base(4))
  note step = this [unfolded hs_vote_step [OF Cons.prems(1,2) lead Cons.prems(4,5) [folded base(2)]]]
  have card: "card ?A = Suc (card (tag_voters ph slot))" using Cons.prems(8,9) by simp
  show ?case
  proof (cases "?q \<le> card ?A")
    case True
    let ?nd = "nd\<lparr>hn_state := hs_certify nd sq ph (with_voters ph ?A slot)\<rparr>"
    have "ss_phase (next_slot (hn_id nd) ph (with_voters ph ?A slot)) \<noteq> tag_phase ph" by (cases ph) simp_all
    then have "node_run (hs_vtable sha) ?nd (handle_all ms) = Inr (?nd, [], [])"
      using Cons.prems(3-6) by (intro hs_ballots_late [of _ sq _ ph n 0]) (auto simp: hs_plain_def)
    moreover have "max ?q (Suc (card (tag_voters ph slot))) = card ?A" using True card by simp
    ultimately show ?thesis using step True base
      by (intro exI [of _ d] exI [of _ ?A]) (simp add: Let_def broadcast_hotstuff_def)
  next
    case False
    let ?nd = "nd\<lparr>hn_state := (hn_state nd)\<lparr>hs_slots := (hs_slots (hn_state nd))(sq \<mapsto> with_voters ph ?A slot)\<rparr>\<rparr>"
    have "\<exists>d A. node_run (hs_vtable sha) ?nd (handle_all ms) =
      Inr (?nd\<lparr>hn_state := hs_certify ?nd sq ph (with_voters ph A (with_voters ph ?A slot))\<rparr>,
         broadcast (nid 0) (peers_nid n 0) (HotStuff (QuorumCertificate 0 sq d ph
           (max ?q (Suc (card (tag_voters ph (with_voters ph ?A slot))))))), [])"
      using Cons.prems False card by (intro Cons.IH) (auto simp: hs_plain_def)
    then obtain d' A where "node_run (hs_vtable sha) ?nd (handle_all ms) =
      Inr (nd\<lparr>hn_state := hs_certify nd sq ph (with_voters ph A slot)\<rparr>,
         broadcast (nid 0) (peers_nid n 0) (HotStuff (QuorumCertificate 0 sq d' ph (max ?q (Suc (card ?A))))), [])"
      by (auto simp: hs_certify_overwrites)
    moreover have "max ?q (Suc (card ?A)) = max ?q (Suc (card (tag_voters ph slot)))" using False card by simp
    ultimately show ?thesis using step False base by (intro exI [of _ d'] exI [of _ A]) (simp add: Let_def)
  qed
qed simp

section \<open>One node in one step\<close>

definition hs_done :: "SequenceNumber \<Rightarrow> committed_entry list \<Rightarrow> hs_node \<Rightarrow> bool" where
  "hs_done nx es nd \<longleftrightarrow> hs_next_sequence (hn_state nd) = nx \<and> hs_committed (hn_state nd) = es"

fun next_tag :: "phase_tag \<Rightarrow> phase_tag" where
  "next_tag TagPrepare = TagPreCommit" | "next_tag TagPreCommit = TagCommit" | "next_tag TagCommit = TagCommit"

text \<open>The leader collecting the votes of a phase, no vote but its own counted yet.\<close>

fun later_voters :: "phase_tag \<Rightarrow> hs_slot \<Rightarrow> node_id set" where
  "later_voters TagPrepare slot = ss_precommit_voters slot \<union> ss_commit_voters slot"
| "later_voters TagPreCommit slot = ss_commit_voters slot"
| "later_voters TagCommit slot = {}"

definition hs_leads :: "SequenceNumber \<Rightarrow> committed_entry list \<Rightarrow> SequenceNumber \<Rightarrow> payload \<Rightarrow> phase_tag \<Rightarrow> hs_node \<Rightarrow> bool" where
  "hs_leads nx es sq p ph nd \<longleftrightarrow> hs_done nx es nd \<and> hs_pending_payloads (hn_state nd) sq = Some p \<and>
     (\<exists>slot. hs_slots (hn_state nd) sq = Some slot \<and> ss_phase slot = tag_phase ph \<and>
        tag_voters ph slot = {NodeId 0} \<and> later_voters ph slot = {})"

text \<open>A replica that has voted in a phase, and one that holds what was committed.\<close>

definition hs_follows :: "committed_entry list \<Rightarrow> SequenceNumber \<Rightarrow> payload \<Rightarrow> phase_tag \<Rightarrow> hs_node \<Rightarrow> bool" where
  "hs_follows es sq p ph nd \<longleftrightarrow> hs_committed (hn_state nd) = es \<and> hs_pending_payloads (hn_state nd) sq = Some p \<and>
     (\<exists>slot. hs_slots (hn_state nd) sq = Some slot \<and> ss_phase slot = tag_phase ph)"

definition hs_holds :: "committed_entry list \<Rightarrow> hs_node \<Rightarrow> bool" where
  "hs_holds es nd \<longleftrightarrow> hs_committed (hn_state nd) = es"

definition qc_votes :: "nat \<Rightarrow> nat" where
  "qc_votes n = max 2 (2 * hs_f n + 1)"

abbreviation hs_vote_msg :: "SequenceNumber \<Rightarrow> phase_tag \<Rightarrow> nat \<Rightarrow> protocol_message" where
  "hs_vote_msg sq ph k \<equiv> HotStuff (Vote 0 sq (Digest []) ph (nid k))"

abbreviation hs_qc_msg :: "nat \<Rightarrow> SequenceNumber \<Rightarrow> phase_tag \<Rightarrow> protocol_message" where
  "hs_qc_msg n sq ph \<equiv> HotStuff (QuorumCertificate 0 sq (Digest []) ph (qc_votes n))"

lemma hs_f_lt: "2 \<le> n \<Longrightarrow> 2 * hs_f n + 1 \<le> n"
  by (simp add: hs_f_def)

text \<open>The votes of all the replicas at the leader.\<close>

lemma hs_lead_run:
  assumes nd: "hs_plain n 0 nd" "hs_leads nx es sq p ph nd" and n: "2 \<le> n" "n < 2 ^ 64"
    and ms: "length ms = n - 1" "distinct (map msg_from ms)"
      "\<forall>m\<in>set ms. \<exists>j<n. 1 \<le> j \<and> msg_from m = nid j \<and> strip_digest (msg_payload m) = hs_vote_msg sq ph j"
  shows "\<exists>nd' m'. node_run (hs_vtable sha) nd (handle_all ms) = Inr (nd', broadcast (nid 0) (peers_nid n 0) m', []) \<and>
    strip_digest m' = hs_qc_msg n sq ph \<and> hs_plain n 0 nd' \<and>
    (if ph = TagCommit then hs_done nx (es @ [\<lparr>ce_sequence = sq, ce_payload = p\<rparr>]) nd'
     else hs_leads nx es sq p (next_tag ph) nd')"
proof -
  obtain slot where slot: "hs_slots (hn_state nd) sq = Some slot" "ss_phase slot = tag_phase ph"
      "tag_voters ph slot = {NodeId 0}" "later_voters ph slot = {}"
    and pend: "hs_pending_payloads (hn_state nd) sq = Some p" and fin: "hs_done nx es nd"
    using nd(2) by (auto simp: hs_leads_def)
  have votes: "hs_ballots sq ph ms" using ms(2,3) by (fastforce simp: hs_ballots_def strip_digest_iffs)
  have "msg_from m \<noteq> NodeId 0" if m: "m \<in> set ms" for m
  proof -
    obtain j where "j < n" "1 \<le> j" "msg_from m = nid j" using ms(3) m by blast
    then show ?thesis using nid_inj [of j 0] n(2) by simp
  qed
  then have "NodeId 0 \<notin> msg_from ` set ms" by (metis imageE)
  then have disj: "tag_voters ph slot \<inter> msg_from ` set ms = {}" by (simp add: slot(3))
  have some: "ms \<noteq> []" "2 * hs_f n + 1 \<le> card (tag_voters ph slot) + length ms" "0 < n"
    using ms(1) n(1) hs_f_lt [OF n(1)] slot(3) by auto
  have "max (2 * hs_f n + 1) (Suc (card (tag_voters ph slot))) = qc_votes n" by (simp add: slot(3) qc_votes_def)
  then obtain d A where run: "node_run (hs_vtable sha) nd (handle_all ms) =
    Inr (nd\<lparr>hn_state := hs_certify nd sq ph (with_voters ph A slot)\<rparr>,
         broadcast (nid 0) (peers_nid n 0) (HotStuff (QuorumCertificate 0 sq d ph (qc_votes n))), [])"
    using hs_ballots_run [OF slot(1,2) nd(1) some(3) n(2) votes some(1) _ disj some(2), of sha] slot(3) by auto
  let ?nd = "nd\<lparr>hn_state := hs_certify nd sq ph (with_voters ph A slot)\<rparr>"
  have "hs_plain n 0 ?nd" using nd(1) by (simp add: hs_plain_def)
  moreover have "if ph = TagCommit then hs_done nx (es @ [\<lparr>ce_sequence = sq, ce_payload = p\<rparr>]) ?nd
     else hs_leads nx es sq p (next_tag ph) ?nd"
  proof (cases "ph = TagCommit")
    case True
    have "hs_next_sequence (hs_certify nd sq ph (with_voters ph A slot)) = hs_next_sequence (hn_state nd)"
      by (simp add: hs_certify_def Let_def hs_take_pending_def split: option.splits)
    then show ?thesis using True hs_certify_commit [OF pend, of "with_voters ph A slot"] fin by (simp add: hs_done_def)
  next
    case False
    have "hn_id nd = NodeId 0" using nd(1) by (simp add: hs_plain_def)
    then show ?thesis using False pend fin slot
      by (cases ph) (simp_all add: hs_leads_def hs_done_def hs_certify_def Let_def)
  qed
  ultimately show ?thesis using run
    by (intro exI [of _ ?nd] exI [of _ "HotStuff (QuorumCertificate 0 sq d ph (qc_votes n))"]) simp
qed

text \<open>A replica takes the proposal, and a certificate.\<close>

lemma hs_replica_propose:
  assumes nd: "hs_plain n k nd" "hs_holds es nd" and n: "2 \<le> n" "n < 2 ^ 64"
    and m: "strip_digest (msg_payload m) = HotStuff (Propose 0 sq (Digest []) p jv jp)"
  shows "\<exists>nd' m'. hs_handle_message nd m = Inr (nd', [mk_msg (nid k) (NodeId 0) m']) \<and>
    strip_digest m' = hs_vote_msg sq TagPrepare k \<and> hs_plain n k nd' \<and> hs_follows es sq p TagPrepare nd'"
proof -
  obtain d where m: "msg_payload m = HotStuff (Propose 0 sq d p jv jp)" using m by (auto simp: strip_digest_iffs)
  have "hs_leader_for_view nd v = Inr (leader_of n v)" for v
    using hs_helpers_total(2) [of nd] nd(1) n by (simp add: hs_plain_def)
  then show ?thesis using nd m
    by (auto simp: hs_handle_message_def hs_on_propose_def Let_def hs_plain_def hs_follows_def hs_holds_def hs_slot_new_def)
qed

lemma hs_replica_qc:
  assumes nd: "hs_plain n k nd" "hs_follows es sq p ph nd" and n: "2 \<le> n" "n < 2 ^ 64"
    and m: "strip_digest (msg_payload m) = hs_qc_msg n sq ph"
  shows "\<exists>nd' m'. hs_handle_message nd m = Inr (nd', if ph \<noteq> TagCommit then [mk_msg (nid k) (NodeId 0) m'] else []) \<and>
    (ph \<noteq> TagCommit \<longrightarrow> strip_digest m' = hs_vote_msg sq (next_tag ph) k) \<and> hs_plain n k nd' \<and>
    (if ph = TagCommit then hs_holds (es @ [\<lparr>ce_sequence = sq, ce_payload = p\<rparr>]) nd'
     else hs_follows es sq p (next_tag ph) nd')"
proof -
  obtain d where m: "msg_payload m = HotStuff (QuorumCertificate 0 sq d ph (qc_votes n))" using m by (auto simp: strip_digest_iffs)
  obtain slot where slot: "hs_slots (hn_state nd) sq = Some slot" "ss_phase slot = tag_phase ph"
    and pend: "hs_pending_payloads (hn_state nd) sq = Some p" and es: "hs_committed (hn_state nd) = es"
    using nd(2) by (auto simp: hs_follows_def)
  have total: "hs_leader_for_view nd v = Inr (leader_of n v)" "hs_quorum nd = Inr (2 * hs_f n + 1)" for v
    using hs_helpers_total [of nd] nd(1) n by (simp_all add: hs_plain_def)
  have enough: "\<not> qc_votes n < 2 * hs_f n + 1" by (simp add: qc_votes_def)
  have view: "hs_view (hn_state nd) = 0" "hn_id nd = nid k" using nd(1) by (simp_all add: hs_plain_def)
  show ?thesis
  proof (cases "ph = TagCommit")
    case True
    let ?nd = "nd\<lparr>hn_state := hs_decide_slot (hs_track_qc (hn_state nd) 0 ph) sq\<rparr>"
    have "hs_handle_message nd m = Inr (?nd, [])"
      using True m total enough view by (simp add: hs_handle_message_def hs_on_qc_def Let_def)
    moreover have "hs_holds (es @ [\<lparr>ce_sequence = sq, ce_payload = p\<rparr>]) ?nd" "hs_plain n k ?nd"
      using True nd(1) slot pend es
      by (simp_all add: hs_holds_def hs_plain_def hs_decide_slot_def hs_take_pending_committed)
    ultimately show ?thesis using True by auto
  next
    case False
    let ?st = "hs_advance_slot (hs_track_qc (hn_state nd) 0 ph) sq (tag_phase ph) (tag_phase (next_tag ph))"
    let ?vote = "HotStuff (Vote 0 sq d (next_tag ph) (nid k))"
    have "hs_handle_message nd m = Inr (nd\<lparr>hn_state := ?st\<rparr>, [mk_msg (nid k) (NodeId 0) ?vote])"
      using False m total enough view by (cases ph) (simp_all add: hs_handle_message_def hs_on_qc_def Let_def)
    moreover have "hs_follows es sq p (next_tag ph) (nd\<lparr>hn_state := ?st\<rparr>)" "hs_plain n k (nd\<lparr>hn_state := ?st\<rparr>)"
      using nd(1) slot pend es by (simp_all add: hs_follows_def hs_plain_def hs_advance_slot_def)
    ultimately show ?thesis using False
      by (intro exI [of _ "nd\<lparr>hn_state := ?st\<rparr>"] exI [of _ ?vote]) simp
  qed
qed

section \<open>A round of a cluster\<close>

definition hs_calm :: "nat \<Rightarrow> committed_entry list \<Rightarrow> SequenceNumber \<Rightarrow> (hs_node, 'rng) cluster \<Rightarrow> bool" where
  "hs_calm n es nx c \<longleftrightarrow> map hn_id (cl_nodes c) = node_ids n \<and> cl_pending c = [] \<and>
     (\<forall>k<n. hs_plain n k (cl_nodes c ! k) \<and> (if k = 0 then hs_done nx es (cl_nodes c ! k) else hs_holds es (cl_nodes c ! k)))"

definition hs_messages :: "nat \<Rightarrow> nat" where
  "hs_messages n = 7 * (n - 1)"

definition hs_tampered :: "nat \<Rightarrow> 'rng fault_config \<Rightarrow> nat" where
  "hs_tampered n fc = 4 * (if is_byzantine fc (NodeId 0) then n - 1 else 0) + 3 * rim_byzantine n fc"

text \<open>The nodes between two steps: the condition on the leader, that on every replica.\<close>

definition hs_mid :: "nat \<Rightarrow> (hs_node \<Rightarrow> bool) \<Rightarrow> (hs_node \<Rightarrow> bool) \<Rightarrow> nat \<Rightarrow> hs_node \<Rightarrow> bool" where
  "hs_mid n L F k nd \<longleftrightarrow> hs_plain n k nd \<and> (if k = 0 then L nd else F nd)"

lemma hs_proposal:
  assumes n: "0 < n" "n < 2 ^ 64" and fc: "quiet (cl_faults c)"
    and calm: "hs_calm n es nx c" and nx: "unat nx + 1 < 2 ^ 64"
  shows "\<exists>c1 jv jp. cluster_propose (hs_vtable sha) c p = Inr (c1, Accepted) \<and>
    map hn_id (cl_nodes c1) = node_ids n \<and>
    (\<forall>k<n. hs_mid n (hs_leads (nx + 1) es nx p TagPrepare) (hs_holds es) k (cl_nodes c1 ! k)) \<and>
    hub_sends n (HotStuff (Propose 0 nx (Digest []) p jv jp)) (cl_pending c1) \<and>
    cl_faults c1 = cl_faults c \<and> cl_stats c1 = cl_stats c \<and> cl_commit_log c1 = record_proposal (cl_commit_log c) p"
proof -
  have len: "length (cl_nodes c) = n" using calm by (metis hs_calm_def length_map length_node_ids)
  have plain: "hs_plain n k (cl_nodes c ! k)" "k \<noteq> 0 \<Longrightarrow> hs_holds es (cl_nodes c ! k)" if "k < n" for k
    using calm that by (auto simp: hs_calm_def)
  have lead: "hs_done nx es (cl_nodes c ! 0)" using calm n(1) by (auto simp: hs_calm_def)
  let ?nd = "cl_nodes c ! 0" and ?d = "payload_digest sha p"
  let ?st = "hn_state ?nd"
  define nd' where "nd' = ?nd\<lparr>hn_state := ?st\<lparr>hs_next_sequence := nx + 1,
      hs_slots := (hs_slots ?st)(nx \<mapsto> (hs_slot_new 0 nx)\<lparr>ss_phase := HsPrepare, ss_prepare_voters := {nid 0}\<rparr>),
      hs_pending_payloads := (hs_pending_payloads ?st)(nx \<mapsto> p)\<rparr>\<rparr>"
  let ?m = "HotStuff (Propose 0 nx ?d p (hs_highest_qc_view ?st) (hs_highest_qc_phase ?st))"
  let ?out = "broadcast (nid 0) (peers_nid n 0) ?m"
  have "hs_leader_for_view ?nd v = Inr (leader_of n v)" for v
    using hs_helpers_total(2) [of ?nd] plain(1) [OF n(1)] n by (simp add: hs_plain_def)
  then have accept: "vt_propose (hs_vtable sha) ?nd p = Inr (nd', Accepted, ?out)"
    using plain(1) [OF n(1)] lead add_u64_room [OF nx]
    by (simp add: hs_propose_def Let_def nd'_def broadcast_hotstuff_def hs_plain_def hs_done_def)
  have mid0: "hs_mid n (hs_leads (nx + 1) es nx p TagPrepare) (hs_holds es) 0 nd'"
    using plain(1) [OF n(1)] lead
    by (simp add: hs_mid_def hs_plain_def hs_leads_def hs_done_def nd'_def hs_slot_new_def)
  have "hn_id nd' = map hn_id (cl_nodes c) ! 0" using len n(1) by (simp add: nd'_def)
  then have ids: "map hn_id ((cl_nodes c)[0 := nd']) = node_ids n"
    using calm by (simp add: map_update hs_calm_def)
  have "hub_sends n (HotStuff (Propose 0 nx (Digest []) p (hs_highest_qc_view ?st) (hs_highest_qc_phase ?st))) ?out"
    by (rule hub_sends_broadcast [OF n(1)]) simp
  moreover have "cl_nodes c \<noteq> []" "cl_pending c = []" using len n calm by (auto simp: hs_calm_def)
  moreover have "hs_mid n (hs_leads (nx + 1) es nx p TagPrepare) (hs_holds es) k ((cl_nodes c)[0 := nd'] ! k)" if "k < n" for k
    using that mid0 plain len by (cases "k = 0") (simp_all add: hs_mid_def)
  ultimately show ?thesis using propose_first [OF _ fc accept] ids
    by (intro exI [of _ "c\<lparr>cl_commit_log := record_proposal (cl_commit_log c) p, cl_nodes := (cl_nodes c)[0 := nd'], cl_pending := ?out\<rparr>"]
        exI [of _ "hs_highest_qc_view ?st"] exI [of _ "hs_highest_qc_phase ?st"]) simp
qed

text \<open>The steps: the proposal out, the votes of a phase in, a certificate out.\<close>

abbreviation hs_at :: "(u8 list \<Rightarrow> u8 list) \<Rightarrow> nat \<Rightarrow> 'rng fault_config \<Rightarrow> nat \<Rightarrow> (hs_node \<Rightarrow> bool) \<Rightarrow> (hs_node \<Rightarrow> bool)
    \<Rightarrow> (hs_node, 'rng) cluster \<Rightarrow> bool" where
  "hs_at sha n fc j L F \<equiv> star_at (hs_vtable sha) n fc j (hs_mid n L F)"

lemma hs_step_propose:
  assumes at: "hs_at sha n fc (Suc j) L (hs_holds es) c" and fc: "harmless (NodeId 0) fc" and n: "2 \<le> n" "n < 2 ^ 64"
    and Q: "hub_sends n (HotStuff (Propose 0 sq (Digest []) p jv jp)) (cl_pending c)"
  shows "\<exists>c'. advances X (hs_vtable sha) 1 (n - 1) (if is_byzantine fc (NodeId 0) then n - 1 else 0) c c' \<and>
    hs_at sha n fc j L (hs_follows es sq p TagPrepare) c' \<and> rim_sends n (hs_vote_msg sq TagPrepare) (cl_pending c')"
proof -
  have "\<exists>c'. advances X (hs_vtable sha) 1 (n - 1) (if is_byzantine fc (NodeId 0) then n - 1 else 0) c c' \<and>
    hs_at sha n fc j L (hs_follows es sq p TagPrepare) c' \<and>
    (if True then rim_sends n (hs_vote_msg sq TagPrepare) (cl_pending c') else cl_pending c' = [])"
    by (rule hb.star_out [OF at fc n Q])
      (use hs_replica_propose [OF _ _ n] in \<open>simp_all add: hs_mid_def\<close>)
  then show ?thesis by simp
qed

lemma hs_step_votes:
  assumes at: "hs_at sha n fc (Suc j) (hs_leads nx es sq p ph) F c" and fc: "harmless (NodeId 0) fc" and n: "2 \<le> n" "n < 2 ^ 64"
    and Q: "rim_sends n (hs_vote_msg sq ph) (cl_pending c)"
  shows "\<exists>c'. advances X (hs_vtable sha) 1 (n - 1) (rim_byzantine n fc) c c' \<and>
    hs_at sha n fc j (if ph = TagCommit then hs_done nx (es @ [\<lparr>ce_sequence = sq, ce_payload = p\<rparr>])
      else hs_leads nx es sq p (next_tag ph)) F c' \<and> hub_sends n (hs_qc_msg n sq ph) (cl_pending c')"
proof -
  have "\<exists>c'. advances X (hs_vtable sha) 1 (n - 1) (rim_byzantine n fc) c c' \<and>
    hs_at sha n fc j (if ph = TagCommit then hs_done nx (es @ [\<lparr>ce_sequence = sq, ce_payload = p\<rparr>])
      else hs_leads nx es sq p (next_tag ph)) F c' \<and>
    (if True then hub_sends n (hs_qc_msg n sq ph) (cl_pending c') else cl_pending c' = [])"
  proof (rule hb.star_in [OF at fc n Q])
    fix nd and ms :: "network_message list"
    assume "hs_mid n (hs_leads nx es sq p ph) F 0 nd" "length ms = n - 1" "distinct (map msg_from ms)"
      "\<forall>m\<in>set ms. \<exists>j<n. 1 \<le> j \<and> msg_from m = nid j \<and> strip_digest (msg_payload m) = hs_vote_msg sq ph j"
    with hs_lead_run [OF _ _ n this(2-), of nd nx es p sha]
    show "\<exists>nd' m'. node_run (hs_vtable sha) nd (handle_all ms) =
        Inr (nd', if True then broadcast (nid 0) (peers_nid n 0) m' else [], []) \<and>
      (True \<longrightarrow> strip_digest m' = hs_qc_msg n sq ph) \<and>
      hs_mid n (if ph = TagCommit then hs_done nx (es @ [\<lparr>ce_sequence = sq, ce_payload = p\<rparr>])
        else hs_leads nx es sq p (next_tag ph)) F 0 nd'"
      by (cases "ph = TagCommit") (simp_all add: hs_mid_def)
  qed (simp_all add: hs_mid_def)
  then show ?thesis by simp
qed

lemma hs_step_qc:
  assumes at: "hs_at sha n fc (Suc j) L (hs_follows es sq p ph) c" and fc: "harmless (NodeId 0) fc" and n: "2 \<le> n" "n < 2 ^ 64"
    and Q: "hub_sends n (hs_qc_msg n sq ph) (cl_pending c)"
  shows "\<exists>c'. advances X (hs_vtable sha) 1 (n - 1) (if is_byzantine fc (NodeId 0) then n - 1 else 0) c c' \<and>
    hs_at sha n fc j L (if ph = TagCommit then hs_holds (es @ [\<lparr>ce_sequence = sq, ce_payload = p\<rparr>])
      else hs_follows es sq p (next_tag ph)) c' \<and>
    (if ph \<noteq> TagCommit then rim_sends n (hs_vote_msg sq (next_tag ph)) (cl_pending c') else cl_pending c' = [])"
proof (rule hb.star_out [OF at fc n Q])
  fix k nd and m :: network_message
  assume "k < n" "k \<noteq> 0" "hs_mid n L (hs_follows es sq p ph) k nd" "strip_digest (msg_payload m) = hs_qc_msg n sq ph"
  then show "\<exists>nd' m'. vt_handle_message (hs_vtable sha) nd m =
        Inr (nd', if ph \<noteq> TagCommit then [mk_msg (nid k) (NodeId 0) m'] else []) \<and>
      (ph \<noteq> TagCommit \<longrightarrow> strip_digest m' = hs_vote_msg sq (next_tag ph) k) \<and>
      hs_mid n L (if ph = TagCommit then hs_holds (es @ [\<lparr>ce_sequence = sq, ce_payload = p\<rparr>])
        else hs_follows es sq p (next_tag ph)) k nd'"
    using hs_replica_qc [of n k nd es sq p ph m] n by (cases "ph = TagCommit") (simp_all add: hs_mid_def)
qed (simp add: hs_mid_def)

text \<open>Votes in and certificate out: two steps of every phase.\<close>

lemma hs_phase:
  assumes at: "hs_at sha n fc (Suc (Suc j)) (hs_leads nx es sq p ph) (hs_follows es sq p ph) c"
    and fc: "harmless (NodeId 0) fc" and n: "2 \<le> n" "n < 2 ^ 64" and Q: "rim_sends n (hs_vote_msg sq ph) (cl_pending c)"
  shows "\<exists>c'. advances X (hs_vtable sha) 2 (2 * (n - 1)) (rim_byzantine n fc + (if is_byzantine fc (NodeId 0) then n - 1 else 0)) c c' \<and>
    (if ph = TagCommit
     then hs_at sha n fc j (hs_done nx (es @ [\<lparr>ce_sequence = sq, ce_payload = p\<rparr>])) (hs_holds (es @ [\<lparr>ce_sequence = sq, ce_payload = p\<rparr>])) c' \<and>
       cl_pending c' = []
     else hs_at sha n fc j (hs_leads nx es sq p (next_tag ph)) (hs_follows es sq p (next_tag ph)) c' \<and>
       rim_sends n (hs_vote_msg sq (next_tag ph)) (cl_pending c'))"
proof -
  obtain c1 where c1: "advances X (hs_vtable sha) 1 (n - 1) (rim_byzantine n fc) c c1"
    "hs_at sha n fc (Suc j) (if ph = TagCommit then hs_done nx (es @ [\<lparr>ce_sequence = sq, ce_payload = p\<rparr>])
      else hs_leads nx es sq p (next_tag ph)) (hs_follows es sq p ph) c1"
    "hub_sends n (hs_qc_msg n sq ph) (cl_pending c1)"
    using hs_step_votes [OF at fc n Q] by blast
  obtain c2 where c2: "advances X (hs_vtable sha) 1 (n - 1) (if is_byzantine fc (NodeId 0) then n - 1 else 0) c1 c2"
    "hs_at sha n fc j (if ph = TagCommit then hs_done nx (es @ [\<lparr>ce_sequence = sq, ce_payload = p\<rparr>])
      else hs_leads nx es sq p (next_tag ph)) (if ph = TagCommit then hs_holds (es @ [\<lparr>ce_sequence = sq, ce_payload = p\<rparr>])
      else hs_follows es sq p (next_tag ph)) c2"
    "if ph \<noteq> TagCommit then rim_sends n (hs_vote_msg sq (next_tag ph)) (cl_pending c2) else cl_pending c2 = []"
    using hs_step_qc [OF c1(2) fc n c1(3)] by blast
  have "advances X (hs_vtable sha) 2 (2 * (n - 1)) (rim_byzantine n fc + (if is_byzantine fc (NodeId 0) then n - 1 else 0)) c c2"
    using advances_trans [OF c1(1) c2(1)] by (simp only: one_add_one mult_2)
  then show ?thesis using c2(2,3) by (intro exI [of _ c2]) (simp split: if_splits)
qed

lemma hs_round:
  assumes n: "2 \<le> n" "n < 2 ^ 64" and fc: "harmless (NodeId 0) (cl_faults c)"
    and calm: "hs_calm n es nx c" and nx: "unat nx + 1 < 2 ^ 64" and limit: "7 \<le> limit"
    and room: "stats_ok (cl_stats c)" "unat (cs_messages_sent (cl_stats c)) + hs_messages n < 2 ^ 64"
      "unat (cs_total_steps (cl_stats c)) + 7 < 2 ^ 64"
  shows "\<exists>c1 c2. cluster_propose (hs_vtable sha) c p = Inr (c1, Accepted) \<and>
    run_to_completion X (hs_vtable sha) c1 limit = Inr (c2, 7) \<and>
    hs_calm n (es @ [\<lparr>ce_sequence = nx, ce_payload = p\<rparr>]) (nx + 1) c2 \<and>
    cl_faults c2 = cl_faults c \<and> cl_commit_log c2 = record_proposal (cl_commit_log c) p \<and>
    counted (cl_stats c) (hs_messages n) (hs_tampered n (cl_faults c)) 7 (cl_stats c2)"
proof -
  let ?vt = "hs_vtable sha" and ?fc = "cl_faults c" and ?e = "\<lparr>ce_sequence = nx, ce_payload = p\<rparr>"
  let ?hub = "if is_byzantine ?fc (NodeId 0) then n - 1 else 0"
  have n0: "0 < n" using n by simp
  obtain c0 jv jp where c0: "cluster_propose ?vt c p = Inr (c0, Accepted)" "map hn_id (cl_nodes c0) = node_ids n"
    "\<forall>k<n. hs_mid n (hs_leads (nx + 1) es nx p TagPrepare) (hs_holds es) k (cl_nodes c0 ! k)"
    "hub_sends n (HotStuff (Propose 0 nx (Digest []) p jv jp)) (cl_pending c0)"
    "cl_faults c0 = ?fc" "cl_stats c0 = cl_stats c" "cl_commit_log c0 = record_proposal (cl_commit_log c) p"
    using hs_proposal [OF n0 n(2) harmless_quiet [OF fc] calm nx] by blast
  have at0: "hs_at sha n ?fc (Suc (Suc (Suc (Suc (Suc (Suc (Suc 0))))))) (hs_leads (nx + 1) es nx p TagPrepare) (hs_holds es) c0"
    using c0(2,3,5,6) room by (simp add: star_at_def room_def hs_messages_def)
  obtain c1 where c1: "advances X ?vt 1 (n - 1) ?hub c0 c1"
    "hs_at sha n ?fc (Suc (Suc (Suc (Suc (Suc (Suc 0)))))) (hs_leads (nx + 1) es nx p TagPrepare) (hs_follows es nx p TagPrepare) c1"
    "rim_sends n (hs_vote_msg nx TagPrepare) (cl_pending c1)"
    using hs_step_propose [OF at0 fc n c0(4)] by blast
  obtain c2 where c2: "advances X ?vt 2 (2 * (n - 1)) (rim_byzantine n ?fc + ?hub) c1 c2"
    "hs_at sha n ?fc (Suc (Suc (Suc (Suc 0)))) (hs_leads (nx + 1) es nx p TagPreCommit) (hs_follows es nx p TagPreCommit) c2"
    "rim_sends n (hs_vote_msg nx TagPreCommit) (cl_pending c2)"
    using hs_phase [OF c1(2) fc n c1(3), of X] by auto
  obtain c3 where c3: "advances X ?vt 2 (2 * (n - 1)) (rim_byzantine n ?fc + ?hub) c2 c3"
    "hs_at sha n ?fc (Suc (Suc 0)) (hs_leads (nx + 1) es nx p TagCommit) (hs_follows es nx p TagCommit) c3"
    "rim_sends n (hs_vote_msg nx TagCommit) (cl_pending c3)"
    using hs_phase [OF c2(2) fc n c2(3), of X] by auto
  obtain c4 where c4: "advances X ?vt 2 (2 * (n - 1)) (rim_byzantine n ?fc + ?hub) c3 c4"
    "hs_at sha n ?fc 0 (hs_done (nx + 1) (es @ [?e])) (hs_holds (es @ [?e])) c4" "cl_pending c4 = []"
    using hs_phase [OF c3(2) fc n c3(3), of X] by auto
  have "1 + 2 + 2 + 2 = (7 :: nat)" "n - 1 + 2 * (n - 1) + 2 * (n - 1) + 2 * (n - 1) = hs_messages n"
    "?hub + (rim_byzantine n ?fc + ?hub) + (rim_byzantine n ?fc + ?hub) + (rim_byzantine n ?fc + ?hub) = hs_tampered n ?fc"
    unfolding hs_messages_def hs_tampered_def by simp_all
  then have adv: "advances X ?vt 7 (hs_messages n) (hs_tampered n ?fc) c0 c4"
    using advances_trans [OF advances_trans [OF advances_trans [OF c1(1) c2(1)] c3(1)] c4(1)] by (simp only:)
  have "run_to_completion X ?vt c0 limit = Inr (c4, 7)" by (rule advances_completes [OF adv c4(3) limit])
  moreover have "hs_calm n (es @ [?e]) (nx + 1) c4"
    using c4(2,3) by (auto simp: star_at_def hs_mid_def hs_calm_def split: if_splits)
  ultimately show ?thesis using c0 adv by (auto simp: advances_def)
qed

end
