(* ===== verification/RaftRound.thy ===== *)
theory RaftRound
  imports RaftSafety
begin

text \<open>
  A whole round of Raft under an established leader, in a cluster whose network loses nothing: two
  steps, the entries out and the acknowledgements back.  The leader commits in the second step; a
  follower learns of a commit only from the leader's next entries, so it is one entry behind.
\<close>

section \<open>Bookkeeping\<close>

abbreviation num :: "nat \<Rightarrow> u64" where
  "num k \<equiv> word_of_nat k"

lemma unat_num: "k < 2 ^ 64 \<Longrightarrow> unat (num k) = k"
  by (rule unat_word_of_nat_small)

lemma num_Suc: "num (Suc k) = num k + 1"
  by simp

lemma num_less: "j < 2 ^ 64 \<Longrightarrow> k < 2 ^ 64 \<Longrightarrow> num j < num k \<longleftrightarrow> j < k"
  by (simp add: word_less_nat_alt unat_num del: of_nat_Suc)

lemma num_le: "j < 2 ^ 64 \<Longrightarrow> k < 2 ^ 64 \<Longrightarrow> num j \<le> num k \<longleftrightarrow> j \<le> k"
  by (simp add: word_le_nat_alt unat_num del: of_nat_Suc)

lemma num_minus: "num (Suc k) - 1 = num k"
  by simp

lemma update_map:
  "distinct xs \<Longrightarrow> i \<in> set xs \<Longrightarrow>
     AList.update i v (map (\<lambda>j. (j, f j)) xs) = map (\<lambda>j. (j, if j = i then v else f j)) xs"
  by (induction xs) auto

lemma update_new: "i \<notin> fst ` set xs \<Longrightarrow> AList.update i v xs = xs @ [(i, v)]"
  by (induction xs) auto

lemma init_indices_match_map:
  "distinct ps \<Longrightarrow> set ps \<inter> fst ` set (rf_match_index st) = {} \<Longrightarrow>
     rf_match_index (init_indices k ps st) = rf_match_index st @ map (\<lambda>i. (i, 0)) ps"
  by (induction ps arbitrary: st) (auto simp: update_new)

text \<open>The log of a leader of term 1 that has appended \<open>es\<close>.\<close>

definition term1_log :: "committed_entry list \<Rightarrow> log_entry list" where
  "term1_log es = map (\<lambda>e. \<lparr>le_term = 1, le_index = ce_sequence e, le_payload = ce_payload e\<rparr>) es"

lemma term1_log_simps [simp]:
  "length (term1_log es) = length es" "term1_log (es @ [e]) = term1_log es @ [\<lparr>le_term = 1, le_index = ce_sequence e, le_payload = ce_payload e\<rparr>]"
  "k < length es \<Longrightarrow> le_term (term1_log es ! k) = 1"
  by (simp_all add: term1_log_def)

lemma entries_term1_log: "map entry_of (term1_log es) = es"
  by (simp add: term1_log_def entry_of_def o_def) (rule map_idI, simp)

section \<open>The nodes of a round\<close>

definition raft_plain :: "nat \<Rightarrow> nat \<Rightarrow> 'rng raft_node \<Rightarrow> bool" where
  "raft_plain n k nd \<longleftrightarrow> rn_id nd = nid k \<and> rn_cluster_size nd = n \<and> rn_peer_ids nd = peers_nid n k"

text \<open>The leader while the followers in \<open>A\<close> have acknowledged \<open>e\<close>.\<close>

definition raft_leads :: "nat \<Rightarrow> committed_entry list \<Rightarrow> committed_entry \<Rightarrow> node_id set \<Rightarrow> 'rng raft_node \<Rightarrow> bool" where
  "raft_leads n es e A nd \<longleftrightarrow> raft_plain n 0 nd \<and>
     (let st = rn_state nd; k = length es in
        rf_role st = Leader \<and> rf_current_term st = 1 \<and> rf_log st = term1_log (es @ [e]) \<and>
        rf_match_index st = map (\<lambda>i. (i, if i \<in> A then num (Suc k) else num k)) (peers_nid n 0) \<and>
        (\<forall>i\<in>set (peers_nid n 0). rf_next_index st i = Some (if i \<in> A then num (Suc (Suc k)) else num (Suc k))) \<and>
        (if n div 2 + 1 \<le> card A + 1 then rf_commit_index st = num (Suc k) \<and> rf_committed st = es @ [e]
         else rf_commit_index st = num k \<and> rf_committed st = es))"

definition raft_led :: "nat \<Rightarrow> committed_entry list \<Rightarrow> 'rng raft_node \<Rightarrow> bool" where
  "raft_led n es nd \<longleftrightarrow> raft_plain n 0 nd \<and>
     (let st = rn_state nd; k = length es in
        rf_role st = Leader \<and> rf_current_term st = 1 \<and> rf_log st = term1_log es \<and>
        rf_match_index st = map (\<lambda>i. (i, num k)) (peers_nid n 0) \<and>
        (\<forall>i\<in>set (peers_nid n 0). rf_next_index st i = Some (num (Suc k))) \<and>
        rf_commit_index st = num k \<and> rf_committed st = es)"

text \<open>A follower, one commit behind.\<close>

definition raft_trails :: "nat \<Rightarrow> nat \<Rightarrow> committed_entry list \<Rightarrow> 'rng raft_node \<Rightarrow> bool" where
  "raft_trails n k es nd \<longleftrightarrow> raft_plain n k nd \<and>
     (let st = rn_state nd in
        rf_current_term st \<le> 1 \<and> rf_log st = term1_log es \<and> rf_commit_index st = num (length es - 1) \<and>
        rf_committed st = butlast es)"

section \<open>Acknowledgements at the leader\<close>

lemma raft_replicated:
  assumes "rf_match_index st = map (\<lambda>i. (i, if i \<in> A then num (Suc k) else num k)) ps"
    and "distinct ps" and "A \<subseteq> set ps" and "Suc k < 2 ^ 64"
  shows "replicated_on st (num (Suc k)) = card A + 1"
proof -
  have "num (Suc k) \<le> (if i \<in> A then num (Suc k) else num k) \<longleftrightarrow> i \<in> A" for i
    using num_le [of "Suc k" k] assms(4) by (simp del: of_nat_Suc)
  then have "filter (\<lambda>kv. num (Suc k) \<le> snd kv) (rf_match_index st) =
      map (\<lambda>i. (i, if i \<in> A then num (Suc k) else num k)) (filter (\<lambda>i. i \<in> A) ps)"
    unfolding assms(1) filter_map o_def snd_conv by (simp only:)
  moreover have "length (filter (\<lambda>i. i \<in> A) ps) = card (set (filter (\<lambda>i. i \<in> A) ps))"
    by (rule distinct_card [symmetric]) (simp add: assms(2))
  moreover have "set (filter (\<lambda>i. i \<in> A) ps) = A" using assms(3) by auto
  ultimately show ?thesis by (simp only: replicated_on_def length_map)
qed

lemma raft_ack:
  assumes nd: "raft_leads n es e A nd" and n: "2 \<le> n" "n < 2 ^ 64" and k: "length es + 2 < 2 ^ 64"
    and i: "i \<in> set (peers_nid n 0) - A" and A: "A \<subseteq> set (peers_nid n 0)"
    and m: "msg_from m = i" "msg_payload m = Raft (AppendEntriesResponse 1 True (num (Suc (length es))))"
  shows "\<exists>nd'. raft_handle_message X nd m = Inr (nd', []) \<and> raft_leads n es e (insert i A) nd'"
proof -
  let ?k = "length es" and ?ps = "peers_nid n 0" and ?st = "rn_state nd"
  have nd': "raft_plain n 0 nd" "rf_role ?st = Leader" "rf_current_term ?st = 1" "rf_log ?st = term1_log (es @ [e])"
    "rf_match_index ?st = map (\<lambda>i. (i, if i \<in> A then num (Suc ?k) else num ?k)) ?ps"
    "\<And>j. j \<in> set ?ps \<Longrightarrow> rf_next_index ?st j = Some (if j \<in> A then num (Suc (Suc ?k)) else num (Suc ?k))"
    "if n div 2 + 1 \<le> card A + 1 then rf_commit_index ?st = num (Suc ?k) \<and> rf_committed ?st = es @ [e]
         else rf_commit_index ?st = num ?k \<and> rf_committed ?st = es"
    using nd by (simp_all add: raft_leads_def Let_def)
  have d: "distinct ?ps" and n0: "0 < n" using distinct_peers_of [OF n(2)] n(1) by auto
  define st1 where "st1 = ?st\<lparr>rf_match_index := AList.update i (num (Suc ?k)) (rf_match_index ?st),
      rf_next_index := (rf_next_index ?st)(i \<mapsto> num (Suc (Suc ?k)))\<rparr>"
  have match1: "rf_match_index st1 = map (\<lambda>j. (j, if j \<in> insert i A then num (Suc ?k) else num ?k)) ?ps"
    unfolding st1_def using update_map [OF d, of i "num (Suc ?k)" "\<lambda>i. if i \<in> A then num (Suc ?k) else num ?k"] i nd'(5)
    by (auto simp del: of_nat_Suc)
  have next1: "rf_next_index st1 j = Some (if j \<in> insert i A then num (Suc (Suc ?k)) else num (Suc ?k))" if "j \<in> set ?ps" for j
    using nd'(6) [OF that] by (simp add: st1_def del: of_nat_Suc)
  have rep: "replicated_on st1 (num (Suc ?k)) = card (insert i A) + 1"
    by (rule raft_replicated [OF match1 d]) (use A i k in auto)
  have fin: "finite A" using A by (rule finite_subset) simp
  have card: "card (insert i A) = Suc (card A)" using i fin by simp
  have len: "log_len st1 = num (Suc ?k)" by (simp add: log_len_def st1_def nd'(4))
  have base: "add_u64 (num (Suc ?k)) 1 = Inr (num (Suc (Suc ?k)))"
    using add_u64_room [of "num (Suc ?k)"] unat_num [of "Suc ?k"] k by (simp add: add.commute)
  have ans: "raft_handle_message X nd m = rbind (add_u64 (rf_commit_index ?st) 1) (\<lambda>from.
      case find (committable nd st1) (commit_candidates st1 from) of
        None \<Rightarrow> Inr (nd\<lparr>rn_state := st1\<rparr>, [])
      | Some n \<Rightarrow> rbind (commit_to st1 n) (\<lambda>st2. Inr (nd\<lparr>rn_state := st2\<rparr>, [])))"
    using m nd'(2,3) base
    by (simp add: raft_handle_message_def raft_on_append_entries_response_def Let_def del: of_nat_Suc cong: option.case_cong flip: st1_def)
  have idx: "rf_commit_index st1 = rf_commit_index ?st" "rf_committed st1 = rf_committed ?st" "rf_log st1 = term1_log (es @ [e])"
    "rf_role st1 = Leader" "rf_current_term st1 = 1"
    using nd' by (simp_all add: st1_def)
  show ?thesis
  proof (cases "n div 2 + 1 \<le> card A + 1")
    case True
    then have "commit_candidates st1 (num (Suc (Suc ?k))) = []"
      using unat_num [of "Suc (Suc ?k)"] unat_num [of "Suc ?k"] k by (simp add: commit_candidates_def len del: of_nat_Suc)
    then have "raft_handle_message X nd m = Inr (nd\<lparr>rn_state := st1\<rparr>, [])"
      using ans base True nd'(7) by (simp add: idx del: of_nat_Suc)
    moreover have "raft_leads n es e (insert i A) (nd\<lparr>rn_state := st1\<rparr>)"
      using True nd'(1,7) idx match1 next1 card by (simp add: raft_leads_def raft_plain_def Let_def del: of_nat_Suc)
    ultimately show ?thesis by blast
  next
    case False
    have b2: "add_u64 (num ?k) 1 = Inr (num (Suc ?k))"
      using add_u64_room [of "num ?k"] unat_num [of ?k] k by (simp add: add.commute)
    have cand: "commit_candidates st1 (num (Suc ?k)) = [num (Suc ?k)]"
      using unat_num [of "Suc ?k"] k by (simp add: commit_candidates_def len del: of_nat_Suc)
    have com: "committable nd st1 (num (Suc ?k)) \<longleftrightarrow> n div 2 + 1 \<le> card (insert i A) + 1"
      using nd'(1) unat_num [of ?k] k rep
      by (simp add: committable_def num_minus idx vec_get_def raft_majority_def raft_plain_def nth_append del: of_nat_Suc)
    show ?thesis
    proof (cases "n div 2 + 1 \<le> card (insert i A) + 1")
      case True
      let ?st2 = "st1\<lparr>rf_commit_index := num (Suc ?k), rf_committed := es @ [e]\<rparr>"
      have "slice (term1_log (es @ [e])) ?k (Suc ?k) = Inr [\<lparr>le_term = 1, le_index = ce_sequence e, le_payload = ce_payload e\<rparr>]"
        by (simp add: slice_def)
      then have "commit_to st1 (num (Suc ?k)) = Inr ?st2"
        using False nd'(7) idx unat_num [of ?k] unat_num [of "Suc ?k"] k
        by (simp add: commit_to_def entry_of_def del: of_nat_Suc)
      then have "raft_handle_message X nd m = Inr (nd\<lparr>rn_state := ?st2\<rparr>, [])"
        using ans b2 cand com True False nd'(7) by (simp add: idx del: of_nat_Suc)
      moreover have "raft_leads n es e (insert i A) (nd\<lparr>rn_state := ?st2\<rparr>)"
        using True nd'(1) idx match1 next1 by (simp add: raft_leads_def raft_plain_def Let_def del: of_nat_Suc)
      ultimately show ?thesis by blast
    next
      case few: False
      then have "raft_handle_message X nd m = Inr (nd\<lparr>rn_state := st1\<rparr>, [])"
        using ans b2 cand com False nd'(7) by (simp add: idx del: of_nat_Suc)
      moreover have "raft_leads n es e (insert i A) (nd\<lparr>rn_state := st1\<rparr>)"
        using few False nd'(1,7) idx match1 next1 by (simp add: raft_leads_def raft_plain_def Let_def del: of_nat_Suc)
      ultimately show ?thesis by blast
    qed
  qed
qed

lemma raft_acks:
  assumes n: "2 \<le> n" "n < 2 ^ 64" and k: "length es + 2 < 2 ^ 64"
    and "raft_leads n es e A nd" and "A \<subseteq> set (peers_nid n 0)" and "distinct (map msg_from ms)"
    and "\<forall>m\<in>set ms. msg_from m \<in> set (peers_nid n 0) - A \<and>
      msg_payload m = Raft (AppendEntriesResponse 1 True (num (Suc (length es))))"
  shows "\<exists>nd'. node_run (raft_vtable X) nd (handle_all ms) = Inr (nd', [], []) \<and> raft_leads n es e (A \<union> msg_from ` set ms) nd'"
  using assms(4-)
proof (induction ms arbitrary: A nd)
  case (Cons m ms)
  have m: "msg_from m \<in> set (peers_nid n 0) - A" "msg_payload m = Raft (AppendEntriesResponse 1 True (num (Suc (length es))))"
    using Cons.prems(4) by auto
  obtain nd1 where nd1: "raft_handle_message X nd m = Inr (nd1, [])" "raft_leads n es e (insert (msg_from m) A) nd1"
    using raft_ack [OF Cons.prems(1) n k m(1) Cons.prems(2) refl m(2)] by blast
  have "msg_from m \<notin> msg_from ` set ms" using Cons.prems(3) by simp
  then have ne: "msg_from m' \<noteq> msg_from m" if "m' \<in> set ms" for m' using that by (metis image_eqI)
  have "\<exists>nd'. node_run (raft_vtable X) nd1 (handle_all ms) = Inr (nd', [], []) \<and>
      raft_leads n es e (insert (msg_from m) A \<union> msg_from ` set ms) nd'"
    by (rule Cons.IH [OF nd1(2)]) (use Cons.prems m ne in auto)
  then show ?case using nd1(1) by auto
qed simp

section \<open>Entries at a follower\<close>

abbreviation raft_entries :: "committed_entry list \<Rightarrow> committed_entry \<Rightarrow> protocol_message" where
  "raft_entries es e \<equiv> Raft (AppendEntries 1 (NodeId 0) (num (length es)) (if es = [] then 0 else 1)
     [\<lparr>le_term = 1, le_index = ce_sequence e, le_payload = ce_payload e\<rparr>] (num (length es)))"

abbreviation raft_reply :: "committed_entry list \<Rightarrow> nat \<Rightarrow> protocol_message" where
  "raft_reply es k \<equiv> Raft (AppendEntriesResponse 1 True (num (Suc (length es))))"

lemma raft_follow:
  assumes nd: "raft_trails n k es nd" and len: "length es + 2 < 2 ^ 64" and e: "ce_sequence e = num (Suc (length es))"
    and m: "msg_from m = NodeId 0" "msg_payload m = raft_entries es e"
  shows "\<exists>nd'. raft_handle_message X nd m = Inr (nd', [mk_msg (nid k) (NodeId 0) (raft_reply es k)]) \<and>
    raft_trails n k (es @ [e]) nd'"
proof -
  let ?k = "length es" and ?st = "rn_state nd" and ?le = "\<lparr>le_term = 1, le_index = ce_sequence e, le_payload = ce_payload e\<rparr>"
  have st: "rn_id nd = nid k" "\<not> 1 < rf_current_term ?st" "rf_log ?st = term1_log es" "rf_commit_index ?st = num (?k - 1)"
    "rf_committed ?st = butlast es"
    using nd by (simp_all add: raft_trails_def raft_plain_def Let_def not_less)
  define st1 where "st1 = reset_election_timeout X (?st\<lparr>rf_current_term := 1, rf_role := Follower, rf_leader_id := Some (NodeId 0)\<rparr>)"
  have st1: "rf_log st1 = term1_log es" "rf_commit_index st1 = num (?k - 1)" "rf_committed st1 = butlast es" "rf_current_term st1 = 1"
    using st by (simp_all add: st1_def)
  define lg where "lg = term1_log (es @ [e])"
  define st2 where "st2 = st1\<lparr>rf_log := lg\<rparr>"
  define st3 where "st3 = (if es = [] then st2 else st2\<lparr>rf_commit_index := num ?k, rf_committed := es\<rparr>)"
  have "sub_u64 (num (Suc ?k)) 1 = Inr (num ?k)"
    using num_less [of "Suc ?k" 1] len by (simp add: sub_u64_def)
  then have loop: "append_loop (rf_log st1) [?le] = Inr lg"
    using st1(1) unat_num [of ?k] len e by (simp add: lg_def)
  have l2: "log_len st2 = num (Suc ?k)" by (simp add: log_len_def st2_def lg_def)
  have com: "(if rf_commit_index st1 < num ?k then commit_to st2 (min (num ?k) (log_len st2)) else Inr st2) = Inr st3"
  proof (cases "es = []")
    case True
    then show ?thesis using st1(2) by (simp add: st2_def st3_def)
  next
    case False
    then have k: "0 < ?k" by simp
    have "min (num ?k) (num (Suc ?k)) = num ?k" using num_le [of ?k "Suc ?k"] len by (simp add: min_def del: of_nat_Suc)
    moreover have "num (?k - 1) < num ?k" by (rule iffD2 [OF num_less]) (use len k in simp_all)
    moreover have "slice (term1_log (es @ [e])) (?k - 1) ?k = Inr [term1_log es ! (?k - 1)]"
      using gr0_implies_Suc [OF k] by (auto simp: slice_def nth_append take_Suc_conv_app_nth simp flip: Cons_nth_drop_Suc)
    moreover have "butlast es @ [entry_of (term1_log es ! (?k - 1))] = es"
      using False k entries_term1_log [of es] nth_map [of "?k - 1" "term1_log es" entry_of]
        append_butlast_last_id [of es] last_conv_nth [of es] by simp
    ultimately show ?thesis
      using False st1(2,3) unat_num [of ?k] unat_num [of "?k - 1"] len k
      by (simp add: commit_to_def st2_def st3_def log_len_def lg_def del: of_nat_Suc of_nat_diff)
  qed
  have prev: "(if 0 < num ?k then Some (vec_get (rf_log st1) (unat (num ?k - 1))) else None) =
      (if es = [] then None else Some (Some (term1_log es ! (?k - 1))))"
  proof (cases "es = []")
    case False
    then have k: "0 < ?k" by simp
    then have "num ?k - 1 = num (?k - 1)" by (metis Suc_diff_1 num_minus)
    moreover have "0 < num ?k" using num_less [of 0 ?k] len k by simp
    ultimately show ?thesis using False st1(1) unat_num [of "?k - 1"] len k by (simp add: vec_get_def)
  qed simp
  have "es \<noteq> [] \<Longrightarrow> le_term (term1_log es ! (?k - 1)) = 1" by simp
  moreover have term3: "rf_current_term st3 = 1" "rf_current_term st2 = 1" by (simp_all add: st3_def st2_def st1_def)
  ultimately have "raft_handle_message X nd m = Inr (nd\<lparr>rn_leader_id_atomic := 0, rn_state := st3\<rparr>,
      [mk_msg (rn_id nd) (NodeId 0) (Raft (AppendEntriesResponse 1 True (log_len st2)))])"
    using m st(2) loop com prev st1(4)
    by (cases "es = []"; cases "rf_commit_index st1 < num ?k")
      (simp_all add: raft_handle_message_def raft_on_append_entries_def Let_def
        del: of_nat_Suc append_loop.simps flip: st1_def st2_def)
  moreover have "raft_trails n k (es @ [e]) (nd\<lparr>rn_leader_id_atomic := 0, rn_state := st3\<rparr>)"
    using nd st1 by (cases "es = []") (simp_all add: raft_trails_def raft_plain_def Let_def st3_def st2_def lg_def)
  ultimately show ?thesis using st(1) l2 by auto
qed

section \<open>A round of a cluster\<close>

definition raft_calm :: "nat \<Rightarrow> committed_entry list \<Rightarrow> ('rng raft_node, 'rng) cluster \<Rightarrow> bool" where
  "raft_calm n es c \<longleftrightarrow> map rn_id (cl_nodes c) = node_ids n \<and> cl_pending c = [] \<and>
     (\<forall>k<n. if k = 0 then raft_led n es (cl_nodes c ! k) else raft_trails n k es (cl_nodes c ! k))"

definition raft_messages :: "nat \<Rightarrow> nat" where
  "raft_messages n = 2 * (n - 1)"

definition raft_tampered :: "nat \<Rightarrow> 'rng fault_config \<Rightarrow> nat" where
  "raft_tampered n fc = (if is_byzantine fc (NodeId 0) then n - 1 else 0) + rim_byzantine n fc"

definition raft_mid :: "('rng raft_node \<Rightarrow> bool) \<Rightarrow> (nat \<Rightarrow> 'rng raft_node \<Rightarrow> bool) \<Rightarrow> nat \<Rightarrow> 'rng raft_node \<Rightarrow> bool" where
  "raft_mid L F k nd \<longleftrightarrow> (if k = 0 then L nd else F k nd)"

lemma map_res_map: "\<forall>x\<in>set xs. f x = Inr (g x) \<Longrightarrow> map_res f xs = Inr (map g xs)"
  by (induction xs) simp_all

lemma raft_proposal:
  assumes n: "2 \<le> n" "n < 2 ^ 64" and fc: "quiet (cl_faults c)"
    and calm: "raft_calm n es c" and k: "length es + 2 < 2 ^ 64"
    and e: "e = \<lparr>ce_sequence = num (Suc (length es)), ce_payload = p\<rparr>"
  shows "\<exists>c1. cluster_propose (raft_vtable X) c p = Inr (c1, Accepted) \<and>
    map rn_id (cl_nodes c1) = node_ids n \<and>
    (\<forall>k<n. raft_mid (raft_leads n es e {}) (\<lambda>k. raft_trails n k es) k (cl_nodes c1 ! k)) \<and>
    hub_sends n (raft_entries es e) (cl_pending c1) \<and>
    cl_faults c1 = cl_faults c \<and> cl_stats c1 = cl_stats c \<and> cl_commit_log c1 = record_proposal (cl_commit_log c) p"
proof -
  have len: "length (cl_nodes c) = n" using calm by (metis raft_calm_def length_map length_node_ids)
  have n0: "0 < n" using n by simp
  let ?nd = "cl_nodes c ! 0" and ?k = "length es"
  let ?st = "rn_state ?nd"
  have led: "raft_led n es ?nd" using calm n0 by (auto simp: raft_calm_def)
  have st: "rn_id ?nd = NodeId 0" "rn_peer_ids ?nd = peers_nid n 0" "rf_role ?st = Leader" "rf_current_term ?st = 1"
    "rf_log ?st = term1_log es" "rf_commit_index ?st = num ?k"
    "\<And>i. i \<in> set (peers_nid n 0) \<Longrightarrow> rf_next_index ?st i = Some (num (Suc ?k))"
    using led by (simp_all add: raft_led_def raft_plain_def Let_def)
  have add: "add_u64 (num ?k) 1 = Inr (num (Suc ?k))"
    using add_u64_room [of "num ?k"] unat_num [of ?k] k by (simp add: add.commute)
  let ?e = "\<lparr>le_term = 1, le_index = num (Suc ?k), le_payload = p\<rparr>"
  define st' where "st' = ?st\<lparr>rf_log := term1_log es @ [?e]\<rparr>"
  define nd' where "nd' = ?nd\<lparr>rn_state := st'\<rparr>"
  let ?out = "broadcast (nid 0) (peers_nid n 0) (raft_entries es e)"
  have sub: "sub_u64 (num (Suc ?k)) 1 = Inr (num ?k)" "saturating_sub (num (Suc ?k)) 1 = num ?k"
    using num_less [of "Suc ?k" 1] k by (simp_all add: sub_u64_def saturating_sub_def)
  have prev: "(if 0 < num ?k then case vec_get (rf_log st') (unat (num ?k - 1)) of None \<Rightarrow> 0 | Some e \<Rightarrow> le_term e else 0) =
      (if es = [] then 0 else 1)"
  proof (cases "es = []")
    case False
    then have l: "0 < ?k" by simp
    then have "num ?k - 1 = num (?k - 1)" by (metis Suc_diff_1 num_minus)
    moreover have "0 < num ?k" using num_less [of 0 ?k] k l by simp
    ultimately show ?thesis using False unat_num [of "?k - 1"] k l by (simp add: vec_get_def st'_def nth_append)
  qed simp
  have st': "rf_current_term st' = 1" "rf_commit_index st' = num ?k" "rf_next_index st' = rf_next_index ?st"
    using st(4,6) by (simp_all add: st'_def)
  have "drop (unat (num ?k)) (rf_log st') = [?e]" using unat_num [of ?k] k by (simp add: st'_def)
  then have "build_append_entries ?nd st' i = Inr (mk_msg (nid 0) i (raft_entries es e))" if "i \<in> set (peers_nid n 0)" for i
    unfolding build_append_entries_def Let_def st' st(7) [OF that] option.case sub prev by (simp add: st(1) e)
  then have "append_entries_to_peers ?nd st' = Inr ?out"
    unfolding append_entries_to_peers_def st(2) broadcast_def by (intro map_res_map) blast
  then have accept: "vt_propose (raft_vtable X) ?nd p = Inr (nd', Accepted, ?out)"
    using st(3-5) add by (simp add: raft_propose_def log_len_def st'_def nd'_def Let_def del: of_nat_Suc)
  have mid0: "raft_leads n es e {} nd'"
    using led n e by (simp add: raft_leads_def raft_led_def raft_plain_def Let_def nd'_def st'_def del: of_nat_Suc)
  have "rn_id nd' = map rn_id (cl_nodes c) ! 0" using len n0 by (simp add: nd'_def)
  then have ids: "map rn_id ((cl_nodes c)[0 := nd']) = node_ids n"
    using calm by (simp add: map_update raft_calm_def)
  have "hub_sends n (raft_entries es e) ?out" by (rule hub_sends_broadcast [OF n0]) simp
  moreover have "cl_nodes c \<noteq> []" "cl_pending c = []" using len n0 calm by (auto simp: raft_calm_def)
  moreover have "raft_mid (raft_leads n es e {}) (\<lambda>k. raft_trails n k es) k ((cl_nodes c)[0 := nd'] ! k)" if "k < n" for k
    using that mid0 calm len by (cases "k = 0") (auto simp: raft_mid_def raft_calm_def)
  ultimately show ?thesis using propose_first [OF _ fc accept] ids
    by (intro exI [of _ "c\<lparr>cl_commit_log := record_proposal (cl_commit_log c) p, cl_nodes := (cl_nodes c)[0 := nd'], cl_pending := ?out\<rparr>"]) simp
qed

lemma raft_lead_run:
  assumes nd: "raft_leads n es e {} nd" and n: "2 \<le> n" "n < 2 ^ 64" and k: "length es + 2 < 2 ^ 64"
    and ms: "length ms = n - 1" "distinct (map msg_from ms)"
      "\<forall>m\<in>set ms. \<exists>j<n. 1 \<le> j \<and> msg_from m = nid j \<and> strip_digest (msg_payload m) = raft_reply es j"
  shows "\<exists>nd'. node_run (raft_vtable X) nd (handle_all ms) = Inr (nd', [], []) \<and> raft_led n (es @ [e]) nd'"
proof -
  have n0: "0 < n" using n by simp
  have fr: "msg_from m \<in> set (peers_nid n 0) - {} \<and> msg_payload m = Raft (AppendEntriesResponse 1 True (num (Suc (length es))))"
    if m: "m \<in> set ms" for m
  proof -
    obtain j where j: "j < n" "1 \<le> j" "msg_from m = nid j" "strip_digest (msg_payload m) = raft_reply es j" using ms(3) m by blast
    then show ?thesis using mem_peers_nid [OF n(2) n0 j(1)] by (simp add: strip_digest_iffs del: set_peers_of of_nat_Suc)
  qed
  obtain nd' where nd': "node_run (raft_vtable X) nd (handle_all ms) = Inr (nd', [], [])"
    "raft_leads n es e ({} \<union> msg_from ` set ms) nd'"
    using raft_acks [OF n k nd _ ms(2), of X] fr by blast
  have sub: "msg_from ` set ms \<subseteq> set (peers_nid n 0)" using fr by blast
  have "card (msg_from ` set ms) = n - 1" using distinct_card [OF ms(2)] ms(1) by simp
  moreover have "card (set (peers_nid n 0)) = n - 1"
    using distinct_card [OF peers_nid_facts(2) [OF n(2) n0]] peers_nid_facts(1) [OF n(2) n0] by simp
  ultimately have all: "msg_from ` set ms = set (peers_nid n 0)" "card (set (peers_nid n 0)) = n - 1"
    using card_subset_eq [OF finite_set sub] by simp_all
  have "n div 2 + 1 \<le> n - 1 + 1" using n by linarith
  then have "raft_led n (es @ [e]) nd'"
    using nd'(2) all n by (simp add: raft_leads_def raft_led_def Let_def del: of_nat_Suc set_peers_of cong: map_cong)
  then show ?thesis using nd'(1) by blast
qed

lemma raft_round:
  fixes X :: "'rng extern"
  assumes n: "2 \<le> n" "n < 2 ^ 64" and fc: "harmless (NodeId 0) (cl_faults c)"
    and calm: "raft_calm n es c" and k: "length es + 2 < 2 ^ 64" and limit: "2 \<le> limit"
    and room: "stats_ok (cl_stats c)" "unat (cs_messages_sent (cl_stats c)) + raft_messages n < 2 ^ 64"
      "unat (cs_total_steps (cl_stats c)) + 2 < 2 ^ 64"
  shows "\<exists>c1 c2. cluster_propose (raft_vtable X) c p = Inr (c1, Accepted) \<and>
    run_to_completion X (raft_vtable X) c1 limit = Inr (c2, 2) \<and>
    raft_calm n (es @ [\<lparr>ce_sequence = num (Suc (length es)), ce_payload = p\<rparr>]) c2 \<and>
    cl_faults c2 = cl_faults c \<and> cl_commit_log c2 = record_proposal (cl_commit_log c) p \<and>
    counted (cl_stats c) (raft_messages n) (raft_tampered n (cl_faults c)) 2 (cl_stats c2)"
proof -
  let ?vt = "raft_vtable X" and ?fc = "cl_faults c"
  define e where "e = \<lparr>ce_sequence = num (Suc (length es)), ce_payload = p\<rparr>"
  let ?hub = "if is_byzantine ?fc (NodeId 0) then n - 1 else 0"
  obtain c0 where c0: "cluster_propose ?vt c p = Inr (c0, Accepted)" "map rn_id (cl_nodes c0) = node_ids n"
    "\<forall>k<n. raft_mid (raft_leads n es e {}) (\<lambda>k. raft_trails n k es) k (cl_nodes c0 ! k)"
    "hub_sends n (raft_entries es e) (cl_pending c0)"
    "cl_faults c0 = ?fc" "cl_stats c0 = cl_stats c" "cl_commit_log c0 = record_proposal (cl_commit_log c) p"
    using raft_proposal [OF n harmless_quiet [OF fc] calm k e_def] by blast
  have at0: "star_at ?vt n ?fc (Suc (Suc 0)) (raft_mid (raft_leads n es e {}) (\<lambda>k. raft_trails n k es)) c0"
    using c0(2,3,5,6) room by (simp add: star_at_def room_def raft_messages_def)
  have "\<exists>c1. advances X ?vt 1 (n - 1) ?hub c0 c1 \<and>
    star_at ?vt n ?fc (Suc 0) (raft_mid (raft_leads n es e {}) (\<lambda>k. raft_trails n k (es @ [e]))) c1 \<and>
    (if True then rim_sends n (raft_reply es) (cl_pending c1) else cl_pending c1 = [])"
  proof (rule rb.star_out [OF at0 fc n c0(4)])
    fix k and nd :: "'rng raft_node" and m :: network_message
    assume "k < n" "k \<noteq> 0" "raft_mid (raft_leads n es e {}) (\<lambda>k. raft_trails n k es) k nd" "msg_from m = NodeId 0"
      "strip_digest (msg_payload m) = raft_entries es e"
    then show "\<exists>nd' m'. vt_handle_message ?vt nd m = Inr (nd', if True then [mk_msg (nid k) (NodeId 0) m'] else []) \<and>
        (True \<longrightarrow> strip_digest m' = raft_reply es k) \<and>
        raft_mid (raft_leads n es e {}) (\<lambda>k. raft_trails n k (es @ [e])) k nd'"
      using raft_follow [of n k es nd e m X] k
      by (fastforce simp: raft_mid_def strip_digest_iffs e_def simp del: of_nat_Suc)
  qed (simp add: raft_mid_def)
  then obtain c1 where c1: "advances X ?vt 1 (n - 1) ?hub c0 c1"
    "star_at ?vt n ?fc (Suc 0) (raft_mid (raft_leads n es e {}) (\<lambda>k. raft_trails n k (es @ [e]))) c1"
    "rim_sends n (raft_reply es) (cl_pending c1)" by auto
  have "\<exists>c2. advances X ?vt 1 (n - 1) (rim_byzantine n ?fc) c1 c2 \<and>
    star_at ?vt n ?fc 0 (raft_mid (raft_led n (es @ [e])) (\<lambda>k. raft_trails n k (es @ [e]))) c2 \<and>
    (if False then hub_sends n (raft_entries es e) (cl_pending c2) else cl_pending c2 = [])"
  proof (rule rb.star_in [OF c1(2) fc n c1(3)])
    fix nd :: "'rng raft_node" and ms :: "network_message list"
    assume "raft_mid (raft_leads n es e {}) (\<lambda>k. raft_trails n k (es @ [e])) 0 nd" "length ms = n - 1" "distinct (map msg_from ms)"
      "\<forall>m\<in>set ms. \<exists>j<n. 1 \<le> j \<and> msg_from m = nid j \<and> strip_digest (msg_payload m) = raft_reply es j"
    with raft_lead_run [OF _ n k this(2-), of e nd X]
    show "\<exists>nd' m'. node_run ?vt nd (handle_all ms) = Inr (nd', if False then broadcast (nid 0) (peers_nid n 0) m' else [], []) \<and>
      (False \<longrightarrow> strip_digest m' = raft_entries es e) \<and>
      raft_mid (raft_led n (es @ [e])) (\<lambda>k. raft_trails n k (es @ [e])) 0 nd'"
      by (simp add: raft_mid_def)
  qed (simp_all add: raft_mid_def)
  then obtain c2 where c2: "advances X ?vt 1 (n - 1) (rim_byzantine n ?fc) c1 c2"
    "star_at ?vt n ?fc 0 (raft_mid (raft_led n (es @ [e])) (\<lambda>k. raft_trails n k (es @ [e]))) c2" "cl_pending c2 = []" by auto
  have adv: "advances X ?vt 2 (raft_messages n) (raft_tampered n ?fc) c0 c2"
    using advances_trans [OF c1(1) c2(1)] by (simp only: raft_messages_def raft_tampered_def one_add_one mult_2)
  have "run_to_completion X ?vt c0 limit = Inr (c2, 2)" by (rule advances_completes [OF adv c2(3) limit])
  moreover have "raft_calm n (es @ [e]) c2"
    using c2(2,3) by (auto simp: star_at_def raft_mid_def raft_calm_def)
  ultimately show ?thesis using c0 adv by (auto simp: advances_def e_def simp del: of_nat_Suc)
qed

end
