(* ===== verification/Workloads.thy ===== *)
theory Workloads
  imports PbftThree HsRound RaftRound Concrete
begin

text \<open>
  The rounds of the three protocols as interpretations of \<open>round_protocol\<close>, and what a workload does
  to a new cluster of each: the number of messages, and what the checks say.
\<close>

section \<open>Rounds as a contract\<close>

definition pbft_ready :: "nat \<Rightarrow> committed_entry list \<Rightarrow> (pbft_node, 'rng) cluster \<Rightarrow> bool" where
  "pbft_ready n es c \<longleftrightarrow> 4 \<le> n \<and> n < 2 ^ 64 \<and> harmless (NodeId 0) (cl_faults c) \<and>
     pbft_calm n es (word_of_nat (Suc (length es))) c"

definition pbft_ready_3 :: "committed_entry list \<Rightarrow> (pbft_node, 'rng) cluster \<Rightarrow> bool" where
  "pbft_ready_3 es c \<longleftrightarrow> quiet (cl_faults c) \<and> fc_byzantine_nodes (cl_faults c) = Map.empty \<and>
     pbft_calm 3 es (word_of_nat (Suc (length es))) c"

definition hs_ready :: "nat \<Rightarrow> committed_entry list \<Rightarrow> (hs_node, 'rng) cluster \<Rightarrow> bool" where
  "hs_ready n es c \<longleftrightarrow> 2 \<le> n \<and> n < 2 ^ 64 \<and> harmless (NodeId 0) (cl_faults c) \<and>
     hs_calm n es (word_of_nat (Suc (length es))) c"

definition raft_ready :: "nat \<Rightarrow> committed_entry list \<Rightarrow> ('rng raft_node, 'rng) cluster \<Rightarrow> bool" where
  "raft_ready n es c \<longleftrightarrow> 2 \<le> n \<and> n < 2 ^ 64 \<and> harmless (NodeId 0) (cl_faults c) \<and> raft_calm n es c"

lemma byz_count_le: "byz_count n fc \<le> n"
proof -
  have "byz_count n fc \<le> card {..<n}" unfolding byz_count_def by (rule card_mono) auto
  then show ?thesis by simp
qed

lemma next_number_room: "length es + 2 < 2 ^ 64 \<Longrightarrow> unat (word_of_nat (Suc (length es)) :: u64) + 1 < 2 ^ 64"
  using unat_word_of_nat_small [of "Suc (length es)"] by (simp del: of_nat_Suc)

lemma next_number: "(word_of_nat (Suc (length es)) :: u64) + 1 = word_of_nat (Suc (length (es @ [e])))"
  by simp

interpretation pw: round_protocol X "pbft_vtable sha" "pbft_ready n" 3 "pbft_messages n" "pbft_tampered n" for X sha n
proof
  fix es and c :: "(pbft_node, 'a) cluster" and limit :: usize and p
  assume ready: "pbft_ready n es c" and es: "length es + 2 < 2 ^ 64" and rest: "3 \<le> limit" "stats_ok (cl_stats c)"
    "unat (cs_messages_sent (cl_stats c)) + pbft_messages n < 2 ^ 64" "unat (cs_total_steps (cl_stats c)) + 3 < 2 ^ 64"
  have n: "4 \<le> n" "n < 2 ^ 64" and fc: "harmless (NodeId 0) (cl_faults c)"
    and calm: "pbft_calm n es (word_of_nat (Suc (length es))) c"
    using ready by (simp_all add: pbft_ready_def)
  show "\<exists>c1 c2. cluster_propose (pbft_vtable sha) c p = Inr (c1, Accepted) \<and>
      run_to_completion X (pbft_vtable sha) c1 limit = Inr (c2, 3) \<and>
      pbft_ready n (es @ [\<lparr>ce_sequence = word_of_nat (Suc (length es)), ce_payload = p\<rparr>]) c2 \<and>
      cl_faults c2 = cl_faults c \<and> cl_commit_log c2 = record_proposal (cl_commit_log c) p \<and>
      counted (cl_stats c) (pbft_messages n) (pbft_tampered n (cl_faults c)) 3 (cl_stats c2)"
    using pbft_round [OF n fc calm next_number_room [OF es] rest, of sha p X] n fc
    unfolding pbft_ready_def next_number [of es "\<lparr>ce_sequence = word_of_nat (Suc (length es)), ce_payload = p\<rparr>"] by metis
next
  fix es :: "committed_entry list" and c :: "(pbft_node, 'a) cluster"
  assume "pbft_ready n es c"
  then have n: "4 \<le> n" by (simp add: pbft_ready_def)
  show "2 \<le> pbft_messages n \<and> 3 \<le> pbft_messages n" using n by (cases n) (auto simp: pbft_messages_def)
  show "pbft_tampered n (cl_faults c) \<le> pbft_messages n"
    unfolding pbft_tampered_def pbft_messages_def using byz_count_le [of n "cl_faults c"] by (intro mult_left_mono) auto
qed

interpretation pw3: round_protocol X "pbft_vtable sha" pbft_ready_3 3 "pbft_messages 3" "\<lambda>fc. 0" for X sha
proof
  fix es and c :: "(pbft_node, 'a) cluster" and limit :: usize and p
  assume ready: "pbft_ready_3 es c" and es: "length es + 2 < 2 ^ 64" and rest: "3 \<le> limit" "stats_ok (cl_stats c)"
    "unat (cs_messages_sent (cl_stats c)) + pbft_messages 3 < 2 ^ 64" "unat (cs_total_steps (cl_stats c)) + 3 < 2 ^ 64"
  have fc: "quiet (cl_faults c)" "fc_byzantine_nodes (cl_faults c) = Map.empty"
    and calm: "pbft_calm 3 es (word_of_nat (Suc (length es))) c"
    using ready by (simp_all add: pbft_ready_3_def)
  show "\<exists>c1 c2. cluster_propose (pbft_vtable sha) c p = Inr (c1, Accepted) \<and>
      run_to_completion X (pbft_vtable sha) c1 limit = Inr (c2, 3) \<and>
      pbft_ready_3 (es @ [\<lparr>ce_sequence = word_of_nat (Suc (length es)), ce_payload = p\<rparr>]) c2 \<and>
      cl_faults c2 = cl_faults c \<and> cl_commit_log c2 = record_proposal (cl_commit_log c) p \<and>
      counted (cl_stats c) (pbft_messages 3) 0 3 (cl_stats c2)"
    using pbft_round_three [OF fc calm next_number_room [OF es] rest, of sha p X] fc
    unfolding pbft_ready_3_def next_number [of es "\<lparr>ce_sequence = word_of_nat (Suc (length es)), ce_payload = p\<rparr>"] by metis
qed (simp_all add: pbft_messages_def)

interpretation hw: round_protocol X "hs_vtable sha" "hs_ready n" 7 "hs_messages n" "hs_tampered n" for X sha n
proof
  fix es and c :: "(hs_node, 'a) cluster" and limit :: usize and p
  assume ready: "hs_ready n es c" and es: "length es + 2 < 2 ^ 64" and rest: "7 \<le> limit" "stats_ok (cl_stats c)"
    "unat (cs_messages_sent (cl_stats c)) + hs_messages n < 2 ^ 64" "unat (cs_total_steps (cl_stats c)) + 7 < 2 ^ 64"
  have n: "2 \<le> n" "n < 2 ^ 64" and fc: "harmless (NodeId 0) (cl_faults c)"
    and calm: "hs_calm n es (word_of_nat (Suc (length es))) c"
    using ready by (simp_all add: hs_ready_def)
  show "\<exists>c1 c2. cluster_propose (hs_vtable sha) c p = Inr (c1, Accepted) \<and>
      run_to_completion X (hs_vtable sha) c1 limit = Inr (c2, 7) \<and>
      hs_ready n (es @ [\<lparr>ce_sequence = word_of_nat (Suc (length es)), ce_payload = p\<rparr>]) c2 \<and>
      cl_faults c2 = cl_faults c \<and> cl_commit_log c2 = record_proposal (cl_commit_log c) p \<and>
      counted (cl_stats c) (hs_messages n) (hs_tampered n (cl_faults c)) 7 (cl_stats c2)"
    using hs_round [OF n fc calm next_number_room [OF es] rest, of sha p X] n fc
    unfolding hs_ready_def next_number [of es "\<lparr>ce_sequence = word_of_nat (Suc (length es)), ce_payload = p\<rparr>"] by metis
next
  fix es :: "committed_entry list" and c :: "(hs_node, 'a) cluster"
  assume "hs_ready n es c"
  then have n: "2 \<le> n" by (simp add: hs_ready_def)
  then show "2 \<le> hs_messages n \<and> 7 \<le> hs_messages n" unfolding hs_messages_def by arith
  show "hs_tampered n (cl_faults c) \<le> hs_messages n"
    unfolding hs_tampered_def hs_messages_def using rim_byzantine_le [of n "cl_faults c"] by auto
qed

interpretation rw: round_protocol X "raft_vtable X" "raft_ready n" 2 "raft_messages n" "raft_tampered n" for X n
proof
  fix es and c :: "('a raft_node, 'a) cluster" and limit :: usize and p
  assume ready: "raft_ready n es c" and es: "length es + 2 < 2 ^ 64" and rest: "2 \<le> limit" "stats_ok (cl_stats c)"
    "unat (cs_messages_sent (cl_stats c)) + raft_messages n < 2 ^ 64" "unat (cs_total_steps (cl_stats c)) + 2 < 2 ^ 64"
  have n: "2 \<le> n" "n < 2 ^ 64" and fc: "harmless (NodeId 0) (cl_faults c)" and calm: "raft_calm n es c"
    using ready by (simp_all add: raft_ready_def)
  show "\<exists>c1 c2. cluster_propose (raft_vtable X) c p = Inr (c1, Accepted) \<and>
      run_to_completion X (raft_vtable X) c1 limit = Inr (c2, 2) \<and>
      raft_ready n (es @ [\<lparr>ce_sequence = word_of_nat (Suc (length es)), ce_payload = p\<rparr>]) c2 \<and>
      cl_faults c2 = cl_faults c \<and> cl_commit_log c2 = record_proposal (cl_commit_log c) p \<and>
      counted (cl_stats c) (raft_messages n) (raft_tampered n (cl_faults c)) 2 (cl_stats c2)"
    using raft_round [OF n fc calm es rest, of X p] n fc unfolding raft_ready_def by metis
next
  fix es :: "committed_entry list" and c :: "('a raft_node, 'a) cluster"
  assume "raft_ready n es c"
  then have n: "2 \<le> n" by (simp add: raft_ready_def)
  then show "2 \<le> raft_messages n \<and> 2 \<le> raft_messages n" by (simp add: raft_messages_def)
  show "raft_tampered n (cl_faults c) \<le> raft_messages n"
    unfolding raft_tampered_def raft_messages_def using rim_byzantine_le [of n "cl_faults c"] by auto
qed

section \<open>New clusters\<close>

lemma cluster_of_simps [simp]: "cl_nodes (cluster_of nds fc) = nds" "cl_pending (cluster_of nds fc) = []"
  "cl_faults (cluster_of nds fc) = fc"
  by (simp_all add: cluster_of_def)

lemma pbft_calm_start: "pbft_calm n [] 1 (cluster_of (pbft_nodes n) fc)"
  by (auto simp: pbft_calm_def pbft_nodes_def pbft_plain_def pbft_numbered_def pbft_new_def o_def node_ids_nid)

lemma hs_calm_start: "hs_calm n [] 1 (cluster_of (hs_nodes n) fc)"
  by (auto simp: hs_calm_def hs_nodes_def hs_plain_def hs_done_def hs_holds_def hs_new_def o_def node_ids_nid)

lemma raft_calm_start:
  assumes n: "0 < n" "n < 2 ^ 64"
  shows "\<exists>nds. force_first (raft_nodes X node_entropy n) = Inr nds \<and> raft_calm n [] (cluster_of nds fc)"
proof -
  let ?nd = "\<lambda>i. raft_new_seeded X i n (node_entropy i)"
  have nodes: "raft_nodes X node_entropy n = ?nd (nid 0) # map (\<lambda>k. ?nd (nid k)) [1..<n]"
    using n(1) by (simp add: raft_nodes_def node_ids_nid o_def upt_rec [of 0 n])
  have new: "rn_id (?nd i) = i" "raft_trails n k [] (?nd (nid k))" "rf_log (rn_state (?nd i)) = []"
    "rf_match_index (rn_state (?nd i)) = []" for i k
    by (auto simp: raft_new_seeded_def raft_trails_def raft_plain_def Let_def term1_log_def split: prod.splits)
  define nd where "nd = (?nd (nid 0))\<lparr>rn_leader_id_atomic := node_num (nid 0),
      rn_state := init_indices 1 (rn_peer_ids (?nd (nid 0)))
        ((rn_state (?nd (nid 0)))\<lparr>rf_role := Leader, rf_current_term := 1, rf_leader_id := Some (nid 0)\<rparr>)\<rparr>"
  have force: "raft_force_leader (?nd (nid 0)) = Inr nd"
    using new(1,3) [of "nid 0"] by (simp add: raft_force_leader_def nd_def log_len_def add_u64_def Let_def)
  have "raft_led n [] nd"
    using new(2) [of 0] new(4) [of "nid 0"] distinct_peers_of [OF n(2), of "nid 0"]
    by (simp add: raft_led_def nd_def raft_trails_def raft_plain_def Let_def init_indices_match_map init_indices_next del: nid_0)
  moreover have "map rn_id (nd # map (\<lambda>k. ?nd (nid k)) [1..<n]) = node_ids n"
    using n(1) new(1) by (simp add: nd_def node_ids_nid o_def upt_rec [of 0 n])
  ultimately have "raft_calm n [] (cluster_of (nd # map (\<lambda>k. ?nd (nid k)) [1..<n]) fc)"
    using new(2) n(1) by (auto simp: raft_calm_def nth_Cons')
  then show ?thesis using force by (simp add: nodes)
qed

section \<open>Workloads on new clusters\<close>

text \<open>
  The statistics of a cluster that has sent, and delivered, \<open>m\<close> messages in \<open>s\<close> steps, \<open>t\<close> of them from
  Byzantine nodes.
\<close>

definition stats_are :: "nat \<Rightarrow> nat \<Rightarrow> nat \<Rightarrow> cluster_stats \<Rightarrow> bool" where
  "stats_are m t s st \<longleftrightarrow> unat (cs_messages_sent st) = m \<and> unat (cs_messages_delivered st) = m \<and>
     cs_messages_dropped st = 0 \<and> unat (cs_messages_tampered st) = t \<and> unat (cs_total_steps st) = s"

lemma length_small:
  assumes "length ps * m < 2 ^ 64" and "2 \<le> m"
  shows "length ps < 2 ^ 64"
proof -
  have "length ps * 1 \<le> length ps * m" by (rule mult_le_mono2) (use assms(2) in simp)
  then show ?thesis using assms(1) by linarith
qed

lemma pbft_bench_loop:
  assumes n: "4 \<le> n" "n < 2 ^ 64" and fc: "harmless (NodeId 0) fc" and limit: "3 \<le> limit"
    and room: "length ps * pbft_messages n < 2 ^ 64"
  shows "\<exists>c. bench_loop X (pbft_vtable sha) limit (cluster_of (pbft_nodes n) fc) ps = Inr c \<and>
    stats_are (length ps * pbft_messages n) (length ps * pbft_tampered n fc) (length ps * 3) (cl_stats c) \<and>
    map pn_id (cl_nodes c) = node_ids n \<and> cl_faults c = fc \<and> cl_commit_log c = commit_log_new\<lparr>lg_proposed := ps\<rparr> \<and>
    (\<forall>k<n. pb_committed (pn_state (cl_nodes c ! k)) = entries_of ps)"
proof -
  have "pbft_ready n [] (cluster_of (pbft_nodes n) fc)" using n fc pbft_calm_start by (simp add: pbft_ready_def)
  from pw.workload_from_start [OF this limit room, of X sha] show ?thesis
    by (auto simp: stats_are_def pbft_ready_def pbft_calm_def pbft_plain_def)
qed

lemma pbft_bench_loop_3:
  assumes fc: "quiet fc" "fc_byzantine_nodes fc = Map.empty" and limit: "3 \<le> limit"
    and room: "length ps * pbft_messages 3 < 2 ^ 64"
  shows "\<exists>c. bench_loop X (pbft_vtable sha) limit (cluster_of (pbft_nodes 3) fc) ps = Inr c \<and>
    stats_are (length ps * pbft_messages 3) 0 (length ps * 3) (cl_stats c) \<and>
    map pn_id (cl_nodes c) = node_ids 3 \<and> cl_faults c = fc \<and> cl_commit_log c = commit_log_new\<lparr>lg_proposed := ps\<rparr> \<and>
    (\<forall>k<3. pb_committed (pn_state (cl_nodes c ! k)) = entries_of ps)"
proof -
  have "pbft_ready_3 [] (cluster_of (pbft_nodes 3) fc)" using fc pbft_calm_start by (simp add: pbft_ready_3_def)
  from pw3.workload_from_start [OF this limit room, of X sha] show ?thesis
    by (auto simp: stats_are_def pbft_ready_3_def pbft_calm_def pbft_plain_def)
qed

lemma hs_bench_loop:
  assumes n: "2 \<le> n" "n < 2 ^ 64" and fc: "harmless (NodeId 0) fc" and limit: "7 \<le> limit"
    and room: "length ps * hs_messages n < 2 ^ 64"
  shows "\<exists>c. bench_loop X (hs_vtable sha) limit (cluster_of (hs_nodes n) fc) ps = Inr c \<and>
    stats_are (length ps * hs_messages n) (length ps * hs_tampered n fc) (length ps * 7) (cl_stats c) \<and>
    map hn_id (cl_nodes c) = node_ids n \<and> cl_faults c = fc \<and> cl_commit_log c = commit_log_new\<lparr>lg_proposed := ps\<rparr> \<and>
    (\<forall>k<n. hs_committed (hn_state (cl_nodes c ! k)) = entries_of ps)"
proof -
  have "hs_ready n [] (cluster_of (hs_nodes n) fc)" using n fc hs_calm_start by (simp add: hs_ready_def)
  from hw.workload_from_start [OF this limit room, of X sha] show ?thesis
    by (auto simp: stats_are_def hs_ready_def hs_calm_def hs_done_def hs_holds_def split: if_splits)
qed

lemma raft_bench_loop:
  assumes n: "2 \<le> n" "n < 2 ^ 64" and fc: "harmless (NodeId 0) fc" and limit: "2 \<le> limit"
    and room: "length ps * raft_messages n < 2 ^ 64"
  shows "\<exists>nds c. force_first (raft_nodes X node_entropy n) = Inr nds \<and>
    bench_loop X (raft_vtable X) limit (cluster_of nds fc) ps = Inr c \<and>
    stats_are (length ps * raft_messages n) (length ps * raft_tampered n fc) (length ps * 2) (cl_stats c) \<and>
    map rn_id (cl_nodes c) = node_ids n \<and> cl_faults c = fc \<and> cl_commit_log c = commit_log_new\<lparr>lg_proposed := ps\<rparr> \<and>
    (\<forall>k<n. rf_committed (rn_state (cl_nodes c ! k)) = (if k = 0 then entries_of ps else butlast (entries_of ps)))"
proof -
  have n0: "0 < n" using n by simp
  obtain nds where nds: "force_first (raft_nodes X node_entropy n) = Inr nds" "raft_calm n [] (cluster_of nds fc)"
    using raft_calm_start [OF n0 n(2)] by blast
  have "raft_ready n [] (cluster_of nds fc)" using n fc nds(2) by (simp add: raft_ready_def)
  from rw.workload_from_start [OF this limit room, of X] obtain c where
    c: "bench_loop X (raft_vtable X) limit (cluster_of nds fc) ps = Inr c" "raft_calm n (entries_of ps) c"
      "cl_commit_log c = commit_log_new\<lparr>lg_proposed := ps\<rparr>" "cl_faults c = fc"
      "stats_are (length ps * raft_messages n) (length ps * raft_tampered n fc) (length ps * 2) (cl_stats c)"
    by (auto simp: stats_are_def raft_ready_def)
  have "rf_committed (rn_state (cl_nodes c ! k)) = (if k = 0 then entries_of ps else butlast (entries_of ps))" if "k < n" for k
    using c(2) that by (cases "k = 0") (auto simp: raft_calm_def raft_led_def raft_trails_def Let_def)
  moreover have "map rn_id (cl_nodes c) = node_ids n" using c(2) by (simp add: raft_calm_def)
  ultimately show ?thesis using nds(1) c by blast
qed

lemma count_byzantine:
  "byz_count n fc = length (filter (\<lambda>k. is_byzantine fc (nid k)) [0..<n])"
  "rim_byzantine n fc = length (filter (\<lambda>k. is_byzantine fc (nid k)) [1..<n])"
proof -
  have "length (filter (\<lambda>k. is_byzantine fc (nid k)) [a..<n]) = card {k. a \<le> k \<and> k < n \<and> is_byzantine fc (nid k)}" for a
    by (subst distinct_card [symmetric]) (simp_all add: conj_assoc cong: conj_cong)
  then show "byz_count n fc = length (filter (\<lambda>k. is_byzantine fc (nid k)) [0..<n])"
    "rim_byzantine n fc = length (filter (\<lambda>k. is_byzantine fc (nid k)) [1..<n])"
    by (simp_all add: byz_count_def rim_byzantine_def)
qed

text \<open>Faults for the runs below: one equivocator, a follower.\<close>

definition demo_faults :: "u64 fault_config" where
  "demo_faults = with_byzantine (fault_default 0) (NodeId 3) [Equivocate]"

lemma demo_harmless: "harmless (NodeId 0) demo_faults"
  by (auto simp: harmless_def quiet_def demo_faults_def with_byzantine_def fault_default_def split: if_splits)

lemma demo_tampered:
  "pbft_tampered 4 demo_faults = 6" "hs_tampered 4 demo_faults = 3" "raft_tampered 4 demo_faults = 1"
  by (simp_all add: pbft_tampered_def hs_tampered_def raft_tampered_def count_byzantine demo_faults_def with_byzantine_def
      fault_default_def is_byzantine_def upt_rec nid_def)

lemma demo_two: "length [a, b] = 2"
  by simp

lemma demo_messages: "pbft_messages 4 = 27" "hs_messages 4 = 21" "raft_messages 4 = 6"
  by (simp_all add: pbft_messages_def hs_messages_def raft_messages_def)

section \<open>Workloads and checks\<close>

text \<open>C7: A benchmark workload on a new PBFT cluster of at least four nodes whose Byzantine nodes corrupt
  digests, and equivocate unless they lead: every proposal is accepted and committed, and after one
  collection all five checks pass, in every iteration order.\<close>

theorem pbft_workload_passes:
  assumes n: "4 \<le> n" "n < 2 ^ 64" and fc: "harmless (NodeId 0) fc" and limit: "3 \<le> limit"
    and room: "length ps * pbft_messages n < 2 ^ 64" and iter: "\<And>xs. set (iter xs) = set xs"
  shows "\<exists>c. bench_loop X (pbft_vtable sha) limit (cluster_of (pbft_nodes n) fc) ps = Inr c \<and>
    stats_are (length ps * pbft_messages n) (length ps * pbft_tampered n fc) (length ps * 3) (cl_stats c) \<and>
    check_invariants iter (fst (collect_and_record_commits (pbft_vtable sha) c)) (length ps) = all_pass"
proof -
  obtain c where c: "bench_loop X (pbft_vtable sha) limit (cluster_of (pbft_nodes n) fc) ps = Inr c"
    "stats_are (length ps * pbft_messages n) (length ps * pbft_tampered n fc) (length ps * 3) (cl_stats c)"
    "map pn_id (cl_nodes c) = node_ids n" "cl_commit_log c = commit_log_new\<lparr>lg_proposed := ps\<rparr>" "cl_faults c = fc"
    "\<And>k. k < n \<Longrightarrow> pb_committed (pn_state (cl_nodes c ! k)) = entries_of ps"
    using pbft_bench_loop [OF n fc limit room, of X sha] by blast
  have len: "length ps < 2 ^ 64" by (rule length_small [OF room]) (use n in \<open>cases n; auto simp: pbft_messages_def\<close>)
  have "passes_if (\<forall>k<n. is_byzantine (cl_faults c) (nid k) \<or> length ps = length ps)
      (check_invariants iter (fst (collect_and_record_commits (pbft_vtable sha) c)) (length ps))"
    by (rule pb.collect_and_check [OF _ n(2)]) (use c len iter harmless_quiet [OF fc] in simp_all)
  then show ?thesis using c(1,2) by (auto simp: passes_if_True)
qed

theorem pbft_workload_passes_witness:
  "\<exists>c. bench_loop demo_extern demo_pbft 30 (cluster_of (pbft_nodes 4) demo_faults) [Payload [1], Payload [2]] = Inr c \<and>
     stats_are 54 12 6 (cl_stats c) \<and>
     check_invariants rev (fst (collect_and_record_commits demo_pbft c)) 2 = all_pass"
  using pbft_workload_passes [of 4 demo_faults 30 "[Payload [1], Payload [2]]" rev demo_extern "sha256 demo_extern", unfolded demo_two]
  by (simp add: demo_harmless demo_tampered demo_messages del: bench_loop.simps)

text \<open>C8: The same for HotStuff, for any cluster of at least two nodes.\<close>

theorem hs_workload_passes:
  assumes n: "2 \<le> n" "n < 2 ^ 64" and fc: "harmless (NodeId 0) fc" and limit: "7 \<le> limit"
    and room: "length ps * hs_messages n < 2 ^ 64" and iter: "\<And>xs. set (iter xs) = set xs"
  shows "\<exists>c. bench_loop X (hs_vtable sha) limit (cluster_of (hs_nodes n) fc) ps = Inr c \<and>
    stats_are (length ps * hs_messages n) (length ps * hs_tampered n fc) (length ps * 7) (cl_stats c) \<and>
    check_invariants iter (fst (collect_and_record_commits (hs_vtable sha) c)) (length ps) = all_pass"
proof -
  obtain c where c: "bench_loop X (hs_vtable sha) limit (cluster_of (hs_nodes n) fc) ps = Inr c"
    "stats_are (length ps * hs_messages n) (length ps * hs_tampered n fc) (length ps * 7) (cl_stats c)"
    "map hn_id (cl_nodes c) = node_ids n" "cl_commit_log c = commit_log_new\<lparr>lg_proposed := ps\<rparr>" "cl_faults c = fc"
    "\<And>k. k < n \<Longrightarrow> hs_committed (hn_state (cl_nodes c ! k)) = entries_of ps"
    using hs_bench_loop [OF n fc limit room, of X sha] by blast
  have len: "length ps < 2 ^ 64" by (rule length_small [OF room]) (use n in \<open>auto simp: hs_messages_def\<close>)
  have "passes_if (\<forall>k<n. is_byzantine (cl_faults c) (nid k) \<or> length ps = length ps)
      (check_invariants iter (fst (collect_and_record_commits (hs_vtable sha) c)) (length ps))"
    by (rule hb.collect_and_check [OF _ n(2)]) (use c len iter harmless_quiet [OF fc] in simp_all)
  then show ?thesis using c(1,2) by (auto simp: passes_if_True)
qed

theorem hs_workload_passes_witness:
  "\<exists>c. bench_loop demo_extern demo_hs 50 (cluster_of (hs_nodes 4) demo_faults) [Payload [1], Payload [2]] = Inr c \<and>
     stats_are 42 6 14 (cl_stats c) \<and>
     check_invariants rev (fst (collect_and_record_commits demo_hs c)) 2 = all_pass"
  using hs_workload_passes [of 4 demo_faults 50 "[Payload [1], Payload [2]]" rev demo_extern "sha256 demo_extern", unfolded demo_two]
  by (simp add: demo_harmless demo_tampered demo_messages del: bench_loop.simps)



end
