(* ===== verification/Floats.thy ===== *)
theory Floats
  imports Types
begin

text \<open>
  The floating-point arithmetic of the benchmark report: IEEE 754 double precision, rounding to the
  nearest and ties to even, on the values of \<open>f64\<close> in the model, and the standard library's
  conversions and decimal output.  A finite double is the rational number it stands for.  The sign
  of a zero is not kept: the report never computes a negative zero, since it divides and multiplies
  non-negative numbers, and a difference of doubles that is not zero does not underflow.
\<close>

section \<open>Rounding\<close>

text \<open>The nearest integer, the even one of two; the number of binary digits.\<close>

definition half_even :: "rat \<Rightarrow> int" where
  "half_even q =
     (let f = \<lfloor>q\<rfloor>; r = q - of_int f
      in if r < 1 / 2 \<or> (r = 1 / 2 \<and> even f) then f else f + 1)"

function bits :: "int \<Rightarrow> nat" where
  "bits n = (if n \<le> 0 then 0 else Suc (bits (n div 2)))"
  by auto
termination by (relation "measure nat") auto

declare bits.simps [simp del]

definition pow2 :: "int \<Rightarrow> rat" where
  "pow2 k = (if 0 \<le> k then 2 ^ nat k else 1 / 2 ^ nat (- k))"

text \<open>The binary exponent of a positive number: \<open>2\<^sup>k \<le> q < 2\<^sup>k\<^sup>+\<^sup>1\<close>.\<close>

definition exponent :: "rat \<Rightarrow> int" where
  "exponent q =
     (let (a, b) = quotient_of q; k = int (bits a) - int (bits b)
      in if pow2 k \<le> q then k else k - 1)"

text \<open>A significand of 53 bits, no exponent below that of the subnormal numbers.\<close>

definition round_f64 :: "rat \<Rightarrow> f64" where
  "round_f64 q =
     (if q = 0 then Finite 0
      else
        let s = max (exponent \<bar>q\<bar> - 52) (- 1074);
            y = of_int (half_even (\<bar>q\<bar> / pow2 s)) * pow2 s
        in if 2 ^ 1024 \<le> y then Infinite (0 < q) else Finite (sgn q * y))"

section \<open>Operations\<close>

text \<open>\<open>as f64\<close> on an unsigned integer, and the arithmetic operators.\<close>

definition f64_of_nat :: "nat \<Rightarrow> f64" where
  "f64_of_nat n = round_f64 (of_nat n)"

fun f64_neg :: "f64 \<Rightarrow> f64" where
  "f64_neg (Finite a) = Finite (- a)"
| "f64_neg (Infinite pos) = Infinite (\<not> pos)"
| "f64_neg NaN = NaN"

fun f64_add :: "f64 \<Rightarrow> f64 \<Rightarrow> f64" where
  "f64_add (Finite a) (Finite b) = round_f64 (a + b)"
| "f64_add (Infinite p) (Infinite q) = (if p = q then Infinite p else NaN)"
| "f64_add NaN y = NaN"
| "f64_add x NaN = NaN"
| "f64_add (Infinite p) (Finite b) = Infinite p"
| "f64_add (Finite a) (Infinite q) = Infinite q"

definition f64_sub :: "f64 \<Rightarrow> f64 \<Rightarrow> f64" where
  "f64_sub x y = f64_add x (f64_neg y)"

fun f64_mul :: "f64 \<Rightarrow> f64 \<Rightarrow> f64" where
  "f64_mul (Finite a) (Finite b) = round_f64 (a * b)"
| "f64_mul (Infinite p) (Infinite q) = Infinite (p = q)"
| "f64_mul NaN y = NaN"
| "f64_mul x NaN = NaN"
| "f64_mul (Infinite p) (Finite b) = (if b = 0 then NaN else Infinite (p = (0 < b)))"
| "f64_mul (Finite a) (Infinite q) = (if a = 0 then NaN else Infinite (q = (0 < a)))"

fun f64_div :: "f64 \<Rightarrow> f64 \<Rightarrow> f64" where
  "f64_div (Finite a) (Finite b) =
     (if b = 0 then (if a = 0 then NaN else Infinite (0 < a)) else round_f64 (a / b))"
| "f64_div (Infinite p) (Infinite q) = NaN"
| "f64_div NaN y = NaN"
| "f64_div x NaN = NaN"
| "f64_div (Infinite p) (Finite b) = Infinite (p = (0 \<le> b))"
| "f64_div (Finite a) (Infinite q) = Finite 0"

text \<open>\<open>f64::max\<close> prefers the other operand to NaN; \<open>as usize\<close> truncates and saturates.\<close>

definition f64_max :: "f64 \<Rightarrow> f64 \<Rightarrow> f64" where
  "f64_max x y = (if x = NaN then y else if y = NaN then x else if f64_less x y then y else x)"

fun f64_to_usize :: "f64 \<Rightarrow> usize" where
  "f64_to_usize (Finite a) = (if a < 0 then 0 else min (nat \<lfloor>a\<rfloor>) (2 ^ 64 - 1))"
| "f64_to_usize (Infinite pos) = (if pos then 2 ^ 64 - 1 else 0)"
| "f64_to_usize NaN = 0"

section \<open>Decimal output\<close>

text \<open>
  The formats \<open>{:.1}\<close> and \<open>{:.2}\<close>: the exact value rounded to \<open>k\<close> decimal places, ties to even, the
  sign of a negative number kept even when all digits are zero.
\<close>

definition pad_zeros :: "nat \<Rightarrow> string \<Rightarrow> string" where
  "pad_zeros k s = replicate (k - length s) (CHR ''0'') @ s"

fun show_fixed :: "nat \<Rightarrow> f64 \<Rightarrow> string" where
  "show_fixed k (Finite a) =
     (let m = nat (half_even (\<bar>a\<bar> * 10 ^ k))
      in (if a < 0 then ''-'' else '''') @ show_nat (m div 10 ^ k) @ ''.'' @ pad_zeros k (show_nat (m mod 10 ^ k)))"
| "show_fixed k (Infinite pos) = (if pos then ''inf'' else ''-inf'')"
| "show_fixed k NaN = ''NaN''"

section \<open>Bounds\<close>

lemma bits_bounds: "0 < n \<Longrightarrow> 2 ^ (bits n - 1) \<le> n \<and> n < 2 ^ bits n \<and> 0 < bits n"
proof (induction n rule: bits.induct)
  case (1 n)
  show ?case
  proof (cases "n = 1")
    case True
    then show ?thesis by (simp add: bits.simps)
  next
    case False
    then have IH: "2 ^ (bits (n div 2) - 1) \<le> n div 2" "n div 2 < 2 ^ bits (n div 2)" "0 < bits (n div 2)"
      using 1 by simp_all
    have b: "bits n = Suc (bits (n div 2))" using 1(2) by (simp add: bits.simps [of n])
    obtain k where k: "bits (n div 2) = Suc k" using IH(3) gr0_implies_Suc by blast
    show ?thesis using IH unfolding b k by auto
  qed
qed

lemma pow2_pos [simp]: "0 < pow2 k"
  by (simp add: pow2_def)

lemma pow2_powi: "pow2 k = 2 powi k"
  by (simp add: pow2_def power_int_def field_simps)

lemma pow2_add: "pow2 (j + k) = pow2 j * pow2 k"
  by (simp add: pow2_powi power_int_add)

lemma pow2_mono: "j \<le> k \<Longrightarrow> pow2 j \<le> pow2 k"
  by (simp add: pow2_powi power_int_increasing)

lemma exponent_less:
  assumes "0 < q" and "q < pow2 k"
  shows "exponent q < k"
proof -
  obtain a b where ab: "quotient_of q = (a, b)" by fastforce
  define j where "j = int (bits a) - int (bits b)"
  have b: "0 < b" using quotient_of_denom_pos [OF ab] .
  have q: "q = of_int a / of_int b" using quotient_of_div [OF ab] .
  have a: "0 < a" using assms(1) b q by (simp add: zero_less_divide_iff)
  have e: "exponent q = (if pow2 j \<le> q then j else j - 1)" by (simp add: exponent_def ab j_def)
  have "pow2 (exponent q) \<le> q"
  proof (cases "pow2 j \<le> q")
    case False
    have A: "2 ^ (bits a - 1) \<le> a" "0 < bits a" and B: "b < 2 ^ bits b"
      using bits_bounds [of a] bits_bounds [of b] a b by auto
    have "pow2 (j - 1) * pow2 (int (bits b)) = pow2 (int (bits a - 1))"
      using A(2) by (simp add: j_def of_nat_diff flip: pow2_add)
    also have "\<dots> = of_int (2 ^ (bits a - 1))" by (simp add: pow2_def)
    also have "\<dots> \<le> of_int a" using A(1) by (simp only: of_int_le_iff)
    also have "\<dots> = q * of_int b" using b q by simp
    also have "\<dots> \<le> q * pow2 (int (bits b))"
    proof (rule mult_left_mono)
      have "(of_int b :: rat) \<le> of_int (2 ^ bits b)" using B by (simp only: of_int_le_iff)
      then show "of_int b \<le> pow2 (int (bits b))" by (simp add: pow2_def)
    qed (use assms(1) in simp)
    finally have "pow2 (j - 1) \<le> q" by simp
    then show ?thesis using False e by simp
  qed (simp add: e)
  then have "pow2 (exponent q) < pow2 k" using assms(2) by simp
  then show ?thesis using pow2_mono [of k "exponent q"] by (cases "k \<le> exponent q") auto
qed

lemma half_even_le: "q \<le> of_int k \<Longrightarrow> half_even q \<le> k"
proof -
  assume q: "q \<le> of_int k"
  show ?thesis
  proof (cases "q = of_int k")
    case False
    then have "\<lfloor>q\<rfloor> < k" using q by (simp add: floor_less_iff)
    then show ?thesis by (simp add: half_even_def Let_def)
  qed (simp add: half_even_def)
qed

lemma half_even_ge: "of_int k \<le> q \<Longrightarrow> k \<le> half_even q"
  using le_floor_iff [of k q] by (auto simp: half_even_def Let_def)

lemma half_even_int [simp]: "half_even (of_int k) = k"
  by (simp add: half_even_def)

lemma half_even_near: "\<bar>of_int (half_even q) - q\<bar> \<le> 1 / 2"
proof -
  have "of_int \<lfloor>q\<rfloor> \<le> q" "q < of_int \<lfloor>q\<rfloor> + 1" by linarith+
  then show ?thesis unfolding half_even_def Let_def by (auto simp: abs_le_iff)
qed

text \<open>Rounding keeps a number below an integer that a significand can hold, and keeps such integers.\<close>

lemma round_f64_scale:
  assumes "0 < q" and "q \<le> of_nat n" and "n < 2 ^ 53"
  shows "\<exists>m. round_f64 q = Finite (of_int (half_even (q * 2 ^ m)) / 2 ^ m)"
proof -
  have "q < pow2 53" using assms(2,3) of_nat_less_iff [of n "2 ^ 53", where ?'a = rat] by (simp add: pow2_def)
  then have e: "exponent q < 53" by (rule exponent_less [OF assms(1)])
  define s where "s = max (exponent q - 52) (- 1074)"
  define m where "m = nat (- s)"
  have s: "s \<le> 0" using e by (simp add: s_def)
  then have pow: "pow2 s = 1 / 2 ^ m" by (simp add: pow2_def m_def)
  have "half_even (q * 2 ^ m) \<le> int n * 2 ^ m"
  proof (rule half_even_le)
    have "q * 2 ^ m \<le> of_nat n * 2 ^ m" using assms(2) by (intro mult_right_mono) auto
    then show "q * 2 ^ m \<le> of_int (int n * 2 ^ m)" by simp
  qed
  then have "(of_int (half_even (q * 2 ^ m)) :: rat) \<le> of_int (int n * 2 ^ m)" by (simp only: of_int_le_iff)
  then have "of_int (half_even (q * 2 ^ m)) / 2 ^ m \<le> (of_nat n :: rat)" by (simp add: field_simps)
  also have "\<dots> < 2 ^ 53" using assms(3) of_nat_less_iff [of n "2 ^ 53", where ?'a = rat] by simp
  also have "\<dots> \<le> 2 ^ 1024" by (rule power_increasing) simp_all
  finally have "of_int (half_even (q * 2 ^ m)) / 2 ^ m < (2 ^ 1024 :: rat)" .
  then have "round_f64 q = Finite (of_int (half_even (q * 2 ^ m)) / 2 ^ m)"
    using assms(1) pow unfolding round_f64_def Let_def abs_of_pos [OF assms(1)] s_def [symmetric] by simp
  then show ?thesis by blast
qed

lemma round_f64_bounds:
  assumes "0 \<le> q" and "q \<le> of_nat n" and "n < 2 ^ 53"
  shows "\<exists>y. round_f64 q = Finite y \<and> 0 \<le> y \<and> y \<le> of_nat n"
proof (cases "q = 0")
  case False
  then have q: "0 < q" using assms(1) by simp
  obtain m where m: "round_f64 q = Finite (of_int (half_even (q * 2 ^ m)) / 2 ^ m)"
    using round_f64_scale [OF q assms(2,3)] by blast
  have "q * 2 ^ m \<le> of_nat n * 2 ^ m" using assms(2) by (intro mult_right_mono) auto
  then have "half_even (q * 2 ^ m) \<le> int n * 2 ^ m" by (intro half_even_le) simp
  then have "(of_int (half_even (q * 2 ^ m)) :: rat) \<le> of_int (int n * 2 ^ m)" by (simp only: of_int_le_iff)
  moreover have "0 \<le> half_even (q * 2 ^ m)" using q by (intro half_even_ge) simp
  ultimately have "0 \<le> of_int (half_even (q * 2 ^ m)) / (2 ^ m :: rat)" "of_int (half_even (q * 2 ^ m)) / 2 ^ m \<le> (of_nat n :: rat)"
    by (simp_all add: divide_le_eq)
  then show ?thesis using m by blast
qed (simp add: round_f64_def)

lemma round_f64_int: "n < 2 ^ 53 \<Longrightarrow> round_f64 (of_nat n) = Finite (of_nat n)"
proof (cases "n = 0")
  case False
  assume n: "n < 2 ^ 53"
  obtain m where m: "round_f64 (of_nat n) = Finite (of_int (half_even (of_nat n * 2 ^ m)) / 2 ^ m)"
    using round_f64_scale [of "of_nat n" n] False n by auto
  have "(of_nat n * 2 ^ m :: rat) = of_int (int n * 2 ^ m)" by simp
  then have "half_even (of_nat n * 2 ^ m) = int n * 2 ^ m" by (simp only: half_even_int)
  then show ?thesis using m by simp
qed (simp add: round_f64_def)

end
