(* ===== verification/Report.thy ===== *)
theory Report
  imports Floats Workload Clusters
begin

text \<open>
  The benchmark report of \<open>src/src/bin/bench_report.rs\<close> and the demo of \<open>src/src/main.rs\<close>.  Text is a
  list of Unicode code points, since Rust pads by characters; what is printed is a list of lines,
  with the panic that ended it if there was one.  The measured times and the entropy of each run
  are arguments.
\<close>

section \<open>Text\<close>

type_synonym utext = "nat list"

definition lit :: "string \<Rightarrow> utext" where
  "lit s = map of_char s"

definition pad_right :: "nat \<Rightarrow> utext \<Rightarrow> utext" where
  "pad_right w t = t @ replicate (w - length t) 32"

definition pad_left :: "nat \<Rightarrow> utext \<Rightarrow> utext" where
  "pad_left w t = replicate (w - length t) 32 @ t"

definition num_text :: "nat \<Rightarrow> utext" where
  "num_text n = lit (show_nat n)"

definition fixed_text :: "nat \<Rightarrow> f64 \<Rightarrow> utext" where
  "fixed_text k x = lit (show_fixed k x)"

text \<open>The box-drawing characters, \<open>mu\<close>, the superscript two and the long dash.\<close>

definition mu_s :: utext where "mu_s = [956] @ lit ''s''"
definition rule_of :: "nat \<Rightarrow> utext" where "rule_of n = replicate n 9472"
definition double_rule :: "nat \<Rightarrow> utext" where "double_rule n = replicate n 9552"
definition bar_edge :: utext where "bar_edge = [9474]"

text \<open>Lines printed one after the other, until one of them panics.\<close>

type_synonym printed = "utext list \<times> panic option"

definition say :: "utext list \<Rightarrow> printed" where
  "say ls = (ls, None)"

definition then_say :: "printed \<Rightarrow> printed \<Rightarrow> printed" where
  "then_say p q = (if snd p = None then (fst p @ fst q, snd q) else p)"

fun say_all :: "printed list \<Rightarrow> printed" where
  "say_all [] = ([], None)"
| "say_all (p # ps) = then_say p (say_all ps)"

definition say_res :: "utext res \<Rightarrow> printed" where
  "say_res r = (case r of Inl e \<Rightarrow> ([], Some e) | Inr l \<Rightarrow> ([l], None))"

section \<open>Results\<close>

record bench_result =
  br_total_ms :: f64
  br_per_op_us :: f64
  br_total_messages :: u64
  br_messages_tampered :: u64

record run_result =
  rr_protocol :: string
  rr_nodes :: usize
  rr_byzantine :: bool
  rr_bench :: bench_result

definition NUM_PROPOSALS :: usize where "NUM_PROPOSALS = 500"
definition WARMUP_PROPOSALS :: usize where "WARMUP_PROPOSALS = 10"
definition BAR_WIDTH :: usize where "BAR_WIDTH = 40"

text \<open>\<open>std::time::Duration\<close> with the two conversions the report uses.\<close>

record duration =
  du_secs :: u64
  du_nanos :: nat

definition as_secs_f64 :: "duration \<Rightarrow> f64" where
  "as_secs_f64 d = f64_add (f64_of_nat (unat (du_secs d))) (f64_div (f64_of_nat (du_nanos d)) (f64_of_nat 1000000000))"

definition as_micros :: "duration \<Rightarrow> nat" where
  "as_micros d = unat (du_secs d) * 1000000 + du_nanos d div 1000"

definition bench_result_of :: "duration \<Rightarrow> ('n, 'rng) cluster \<Rightarrow> bench_result" where
  "bench_result_of elapsed c =
     \<lparr>br_total_ms = f64_mul (as_secs_f64 elapsed) (Finite 1000),
      br_per_op_us = f64_div (f64_of_nat (as_micros elapsed)) (f64_of_nat NUM_PROPOSALS),
      br_total_messages = cs_messages_sent (cl_stats c),
      br_messages_tampered = cs_messages_tampered (cl_stats c)\<rparr>"

section \<open>Runners\<close>

text \<open>\<open>Payload::new(format!("warmup-{i}").into_bytes())\<close>.\<close>

definition numbered_payloads :: "string \<Rightarrow> usize \<Rightarrow> payload list" where
  "numbered_payloads label n = map (\<lambda>i. Payload (map of_char (label @ show_nat i))) [0..<n]"

text \<open>
  A runner warms up on one cluster and measures on another; \<open>entropy\<close> and \<open>entropy'\<close> are what the two
  fault configurations draw.
\<close>

definition run_pbft_bench :: "'rng extern \<Rightarrow> 'rng \<Rightarrow> 'rng \<Rightarrow> duration \<Rightarrow> usize \<Rightarrow> bench_result res" where
  "run_pbft_bench X entropy entropy' elapsed n =
     rbind (warmup_loop X (pbft_vtable (sha256 X)) 30 (new_pbft entropy n)
              (numbered_payloads ''warmup-'' WARMUP_PROPOSALS)) (\<lambda>warm.
     rbind (bench_loop X (pbft_vtable (sha256 X)) 30 (new_pbft entropy' n)
              (numbered_payloads ''pbft-'' NUM_PROPOSALS)) (\<lambda>c.
     Inr (bench_result_of elapsed c)))"

definition run_hotstuff_bench :: "'rng extern \<Rightarrow> 'rng \<Rightarrow> 'rng \<Rightarrow> duration \<Rightarrow> usize \<Rightarrow> bench_result res" where
  "run_hotstuff_bench X entropy entropy' elapsed n =
     rbind (warmup_loop X (hs_vtable (sha256 X)) 50 (new_hotstuff entropy n)
              (numbered_payloads ''warmup-'' WARMUP_PROPOSALS)) (\<lambda>warm.
     rbind (bench_loop X (hs_vtable (sha256 X)) 50 (new_hotstuff entropy' n)
              (numbered_payloads ''hotstuff-'' NUM_PROPOSALS)) (\<lambda>c.
     Inr (bench_result_of elapsed c)))"

definition run_raft_bench ::
  "'rng extern \<Rightarrow> 'rng \<Rightarrow> 'rng \<Rightarrow> (node_id \<Rightarrow> 'rng) \<Rightarrow> (node_id \<Rightarrow> 'rng) \<Rightarrow> duration \<Rightarrow> usize \<Rightarrow> bench_result res" where
  "run_raft_bench X entropy entropy' node_entropy node_entropy' elapsed n =
     rbind (new_raft_with_leader X entropy node_entropy n) (\<lambda>c0.
     rbind (warmup_loop X (raft_vtable X) 30 c0 (numbered_payloads ''warmup-'' WARMUP_PROPOSALS)) (\<lambda>warm.
     rbind (new_raft_with_leader X entropy' node_entropy' n) (\<lambda>c1.
     rbind (bench_loop X (raft_vtable X) 30 c1 (numbered_payloads ''raft-'' NUM_PROPOSALS)) (\<lambda>c.
     Inr (bench_result_of elapsed c)))))"

definition byz_faults ::
  "'rng extern \<Rightarrow> u64 \<Rightarrow> (node_id \<times> byzantine_behavior list) list \<Rightarrow> 'rng fault_config" where
  "byz_faults X seed behaviors =
     fold (\<lambda>(node, beh) faults. with_byzantine faults node beh) behaviors (fault_with_seed X seed)"

definition run_pbft_byzantine_bench ::
  "'rng extern \<Rightarrow> duration \<Rightarrow> usize \<Rightarrow> u64 \<Rightarrow> (node_id \<times> byzantine_behavior list) list \<Rightarrow> bench_result res" where
  "run_pbft_byzantine_bench X elapsed n seed behaviors =
     rbind (warmup_loop X (pbft_vtable (sha256 X)) 50
              (set_faults (new_pbft_seeded X n seed) (byz_faults X seed behaviors))
              (numbered_payloads ''warmup-'' WARMUP_PROPOSALS)) (\<lambda>warm.
     rbind (bench_loop X (pbft_vtable (sha256 X)) 50
              (set_faults (new_pbft_seeded X n seed) (byz_faults X seed behaviors))
              (numbered_payloads ''byz-'' NUM_PROPOSALS)) (\<lambda>c.
     Inr (bench_result_of elapsed c)))"

definition run_hotstuff_byzantine_bench ::
  "'rng extern \<Rightarrow> duration \<Rightarrow> usize \<Rightarrow> u64 \<Rightarrow> (node_id \<times> byzantine_behavior list) list \<Rightarrow> bench_result res" where
  "run_hotstuff_byzantine_bench X elapsed n seed behaviors =
     rbind (warmup_loop X (hs_vtable (sha256 X)) 50
              (set_faults (new_hotstuff_seeded X n seed) (byz_faults X seed behaviors))
              (numbered_payloads ''warmup-'' WARMUP_PROPOSALS)) (\<lambda>warm.
     rbind (bench_loop X (hs_vtable (sha256 X)) 50
              (set_faults (new_hotstuff_seeded X n seed) (byz_faults X seed behaviors))
              (numbered_payloads ''byz-'' NUM_PROPOSALS)) (\<lambda>c.
     Inr (bench_result_of elapsed c)))"

section \<open>The runs of a report\<close>

text \<open>What the runs of one report meet: run \<open>k\<close> takes a time, and draws entropy for its two clusters.\<close>

record 'rng bench_env =
  be_extern :: "'rng extern"
  be_elapsed :: "nat \<Rightarrow> duration"
  be_entropy :: "nat \<Rightarrow> 'rng"
  be_node_entropy :: "nat \<Rightarrow> node_id \<Rightarrow> 'rng"

definition labelled :: "string \<Rightarrow> usize \<Rightarrow> bool \<Rightarrow> bench_result res \<Rightarrow> run_result res" where
  "labelled protocol n byzantine r =
     rbind r (\<lambda>b. Inr \<lparr>rr_protocol = protocol, rr_nodes = n, rr_byzantine = byzantine, rr_bench = b\<rparr>)"

definition pbft_row :: "'rng bench_env \<Rightarrow> nat \<Rightarrow> usize \<Rightarrow> run_result res" where
  "pbft_row E k n = labelled ''PBFT'' n False
     (run_pbft_bench (be_extern E) (be_entropy E (2 * k)) (be_entropy E (2 * k + 1)) (be_elapsed E k) n)"

definition hotstuff_row :: "'rng bench_env \<Rightarrow> nat \<Rightarrow> usize \<Rightarrow> run_result res" where
  "hotstuff_row E k n = labelled ''HotStuff'' n False
     (run_hotstuff_bench (be_extern E) (be_entropy E (2 * k)) (be_entropy E (2 * k + 1)) (be_elapsed E k) n)"

definition raft_row :: "'rng bench_env \<Rightarrow> nat \<Rightarrow> usize \<Rightarrow> run_result res" where
  "raft_row E k n = labelled ''Raft'' n False
     (run_raft_bench (be_extern E) (be_entropy E (2 * k)) (be_entropy E (2 * k + 1))
        (be_node_entropy E (2 * k)) (be_node_entropy E (2 * k + 1)) (be_elapsed E k) n)"

definition pbft_byz_row ::
  "'rng bench_env \<Rightarrow> nat \<Rightarrow> usize \<Rightarrow> u64 \<Rightarrow> (node_id \<times> byzantine_behavior list) list \<Rightarrow> run_result res" where
  "pbft_byz_row E k n seed behaviors = labelled ''PBFT'' n True
     (run_pbft_byzantine_bench (be_extern E) (be_elapsed E k) n seed behaviors)"

definition hotstuff_byz_row ::
  "'rng bench_env \<Rightarrow> nat \<Rightarrow> usize \<Rightarrow> u64 \<Rightarrow> (node_id \<times> byzantine_behavior list) list \<Rightarrow> run_result res" where
  "hotstuff_byz_row E k n seed behaviors = labelled ''HotStuff'' n True
     (run_hotstuff_byzantine_bench (be_extern E) (be_elapsed E k) n seed behaviors)"

text \<open>The runs happen one after the other; the first panic ends the program.\<close>

fun in_order :: "run_result res list \<Rightarrow> run_result list res" where
  "in_order [] = Inr []"
| "in_order (r # rs) = rbind r (\<lambda>x. rbind (in_order rs) (\<lambda>xs. Inr (x # xs)))"

definition clean_runs :: "'rng bench_env \<Rightarrow> run_result list res" where
  "clean_runs E = in_order (concat (map (\<lambda>(k, n). [pbft_row E (3 * k) n, hotstuff_row E (3 * k + 1) n, raft_row E (3 * k + 2) n])
     [(0, 3), (1, 5), (2, 7)]))"

definition byzantine_runs :: "'rng bench_env \<Rightarrow> run_result list res" where
  "byzantine_runs E = in_order
     [pbft_row E 9 4,
      pbft_byz_row E 10 4 42 [(NodeId 3, [Equivocate])],
      hotstuff_row E 11 4,
      hotstuff_byz_row E 12 4 42 [(NodeId 3, [Equivocate])],
      hotstuff_row E 13 7,
      hotstuff_byz_row E 14 7 99 [(NodeId 5, [CorruptDigest]), (NodeId 6, [CorruptDigest])],
      pbft_row E 15 7,
      pbft_byz_row E 16 7 99 [(NodeId 5, [CorruptDigest]), (NodeId 6, [CorruptDigest])]]"

section \<open>The table\<close>

text \<open>\<open>(r.nodes - 1) / 3\<close> for the Byzantine protocols, \<open>(r.nodes - 1) / 2\<close> otherwise.\<close>

definition tolerance :: "run_result \<Rightarrow> usize res" where
  "tolerance r =
     rbind (sub_usize (rr_nodes r) 1) (\<lambda>k.
     Inr (if rr_protocol r = ''PBFT'' \<or> rr_protocol r = ''HotStuff'' then k div 3 else k div 2))"

definition table_row :: "run_result \<Rightarrow> utext res" where
  "table_row r =
     rbind (tolerance r) (\<lambda>f.
     Inr (pad_right 12 (lit (rr_protocol r)) @ lit '' '' @ pad_right 8 (num_text (rr_nodes r)) @ lit '' '' @
          pad_right 12 (lit ''f<'' @ num_text f) @ lit '' '' @
          pad_right 14 (fixed_text 2 (br_total_ms (rr_bench r))) @ lit '' '' @
          pad_right 14 (fixed_text 1 (br_per_op_us (rr_bench r))) @ lit '' '' @
          pad_right 10 (num_text (unat (br_total_messages (rr_bench r))))))"

definition print_table :: "run_result list \<Rightarrow> printed" where
  "print_table results =
     then_say
       (say [pad_right 12 (lit ''Protocol'') @ lit '' '' @ pad_right 8 (lit ''Nodes'') @ lit '' '' @
             pad_right 12 (lit ''Fault Tol.'') @ lit '' '' @ pad_right 14 (lit ''Total (ms)'') @ lit '' '' @
             pad_right 14 (lit ''Per-Op ('' @ mu_s @ lit '')'') @ lit '' '' @ pad_right 10 (lit ''Msgs''),
             rule_of 70])
       (say_all (map (\<lambda>(i, r). then_say (say_res (table_row r)) (say (if i mod 3 = 2 then [rule_of 70] else [])))
          (enumerate 0 results)))"

section \<open>Bars\<close>

text \<open>\<open>fold(0.0, f64::max)\<close> over the times per operation; the length of a bar.\<close>

definition max_us :: "run_result list \<Rightarrow> f64" where
  "max_us results = fold (\<lambda>r m. f64_max m (br_per_op_us (rr_bench r))) results (Finite 0)"

definition bar_len :: "f64 \<Rightarrow> f64 \<Rightarrow> usize" where
  "bar_len x m = f64_to_usize (f64_mul (f64_div x m) (f64_of_nat BAR_WIDTH))"

definition throughput_line :: "f64 \<Rightarrow> run_result \<Rightarrow> utext" where
  "throughput_line m r =
     lit ''  '' @ pad_right 4 (lit (rr_protocol r)) @ lit '' n='' @ num_text (rr_nodes r) @ lit '' '' @ bar_edge @
     pad_right BAR_WIDTH (replicate (bar_len (br_per_op_us (rr_bench r)) m) 9608) @ bar_edge @ lit '' '' @
     fixed_text 1 (br_per_op_us (rr_bench r)) @ lit '' '' @ mu_s"

definition print_throughput_chart :: "run_result list \<Rightarrow> printed" where
  "print_throughput_chart results =
     say ([lit ''Throughput ('' @ mu_s @ lit '' per operation, lower is better)'', double_rule 59] @
          map (throughput_line (max_us results)) results)"

definition max_msgs :: "run_result list \<Rightarrow> u64" where
  "max_msgs results =
     (case map (\<lambda>r. br_total_messages (rr_bench r)) results of [] \<Rightarrow> 1 | m # ms \<Rightarrow> fold max ms m)"

definition message_line :: "u64 \<Rightarrow> run_result \<Rightarrow> utext" where
  "message_line m r =
     lit ''  '' @ pad_right 4 (lit (rr_protocol r)) @ lit '' n='' @ num_text (rr_nodes r) @ lit '' '' @ bar_edge @
     pad_right BAR_WIDTH
       (replicate (bar_len (f64_of_nat (unat (br_total_messages (rr_bench r)))) (f64_of_nat (unat m))) 9619) @
     bar_edge @ lit '' '' @ pad_left 6 (num_text (unat (br_total_messages (rr_bench r))))"

definition print_message_chart :: "run_result list \<Rightarrow> printed" where
  "print_message_chart results =
     say ([lit ''Message count ('' @ num_text NUM_PROPOSALS @ lit '' proposals, lower is better)'', double_rule 59] @
          map (message_line (max_msgs results)) results)"

section \<open>Scaling\<close>

definition of_protocol :: "string \<Rightarrow> run_result list \<Rightarrow> run_result list" where
  "of_protocol protocol results = filter (\<lambda>r. rr_protocol r = protocol) results"

definition total_f64 :: "run_result \<Rightarrow> f64" where
  "total_f64 r = f64_of_nat (unat (br_total_messages (rr_bench r)))"

definition msgs_per_op :: "run_result \<Rightarrow> utext" where
  "msgs_per_op r = fixed_text 1 (f64_div (total_f64 r) (f64_of_nat NUM_PROPOSALS))"

text \<open>A line of the chart indexes the first three results of its protocol.\<close>

definition scaling_line :: "run_result list \<Rightarrow> string \<Rightarrow> utext res" where
  "scaling_line results protocol =
     (let vals = map msgs_per_op (of_protocol protocol results)
      in if length vals < 3 then Inl IndexOutOfRange
         else Inr (lit ''  '' @ pad_right 10 (lit protocol) @ lit '' '' @ pad_left 6 (vals ! 0) @ lit '' '' @
                   pad_left 6 (vals ! 1) @ lit '' '' @ pad_left 6 (vals ! 2)))"

definition ratio_line :: "run_result \<times> run_result \<Rightarrow> utext" where
  "ratio_line pr =
     lit ''    n='' @ num_text (rr_nodes (fst pr)) @ lit '': '' @
     fixed_text 1 (f64_div (total_f64 (fst pr)) (total_f64 (snd pr))) @ lit ''x more messages in PBFT''"

definition print_scaling_chart :: "run_result list \<Rightarrow> printed" where
  "print_scaling_chart results =
     (let pbft_results = of_protocol ''PBFT'' results;
          hs_results = of_protocol ''HotStuff'' results;
          raft_results = of_protocol ''Raft'' results
      in then_say
           (say [lit ''Message scaling: PBFT O(n'' @ [178] @ lit '') vs HotStuff O(n) vs Raft O(n)'', double_rule 59])
           (if length pbft_results < 2 \<or> length raft_results < 2 then say []
            else then_say
              (say [lit ''  Messages per proposal:'',
                    lit ''  '' @ pad_right 10 (lit ''Protocol'') @ lit '' '' @ pad_left 6 (lit ''n=3'') @ lit '' '' @
                    pad_left 6 (lit ''n=5'') @ lit '' '' @ pad_left 6 (lit ''n=7''),
                    lit ''  '' @ rule_of 34])
              (then_say
                (say_all (map (\<lambda>protocol. say_res (scaling_line results protocol)) [''PBFT'', ''HotStuff'', ''Raft'']))
                (say ([[], lit ''  PBFT/Raft message ratio:''] @ map ratio_line (zip pbft_results raft_results) @
                      (if hs_results \<noteq> []
                       then [[], lit ''  PBFT/HotStuff message ratio:''] @ map ratio_line (zip pbft_results hs_results)
                       else []))))))"

section \<open>Byzantine overhead\<close>

text \<open>\<open>chunks(2)\<close>, the last chunk skipped when it has one element.\<close>

fun pairs_of :: "'a list \<Rightarrow> ('a \<times> 'a) list" where
  "pairs_of (x # y # zs) = (x, y) # pairs_of zs"
| "pairs_of zs = []"

definition overhead_pct :: "run_result \<Rightarrow> run_result \<Rightarrow> f64" where
  "overhead_pct clean byz =
     (let c = br_per_op_us (rr_bench clean); b = br_per_op_us (rr_bench byz)
      in if f64_less (Finite 0) c then f64_mul (f64_div (f64_sub b c) c) (Finite 100) else Finite 0)"

definition overhead_row :: "utext \<Rightarrow> run_result \<Rightarrow> utext \<Rightarrow> utext \<Rightarrow> utext" where
  "overhead_row scenario r tampered overhead =
     lit ''  '' @ pad_right 10 scenario @ lit '' '' @ pad_right 8 (num_text (rr_nodes r)) @ lit '' '' @
     pad_right 14 (fixed_text 1 (br_per_op_us (rr_bench r))) @ lit '' '' @
     pad_right 14 (num_text (unat (br_total_messages (rr_bench r)))) @ lit '' '' @
     pad_right 10 tampered @ lit '' '' @ pad_right 10 overhead"

definition overhead_rows :: "run_result \<times> run_result \<Rightarrow> utext list" where
  "overhead_rows pr =
     (case pr of (clean, byz) \<Rightarrow>
        [overhead_row (lit ''clean'') clean (lit ''-'') (lit ''-''),
         overhead_row (lit ''byzantine'') byz (num_text (unat (br_messages_tampered (rr_bench byz))))
           (lit ''+'' @ fixed_text 1 (overhead_pct clean byz) @ lit ''%''),
         lit ''  '' @ rule_of 66])"

definition latency_line :: "f64 \<Rightarrow> run_result \<Rightarrow> utext" where
  "latency_line m r =
     lit ''    n='' @ num_text (rr_nodes r) @ lit '' '' @
     pad_right 5 (lit (if rr_byzantine r then ''byz'' else ''clean'')) @ lit '' '' @ bar_edge @
     pad_right BAR_WIDTH
       (replicate (bar_len (br_per_op_us (rr_bench r)) m) (if rr_byzantine r then 9617 else 9608)) @
     bar_edge @ lit '' '' @ fixed_text 1 (br_per_op_us (rr_bench r)) @ lit '' '' @ mu_s"

definition print_byzantine_overhead :: "run_result list \<Rightarrow> printed" where
  "print_byzantine_overhead byz_results =
     say ([lit ''Byzantine fault overhead (PBFT with active faults)'', double_rule 59,
           lit ''  '' @ pad_right 10 (lit ''Scenario'') @ lit '' '' @ pad_right 8 (lit ''Nodes'') @ lit '' '' @
           pad_right 14 (lit ''Per-Op ('' @ mu_s @ lit '')'') @ lit '' '' @ pad_right 14 (lit ''Messages'') @ lit '' '' @
           pad_right 10 (lit ''Tampered'') @ lit '' '' @ pad_right 10 (lit ''Overhead''),
           lit ''  '' @ rule_of 66] @
          concat (map overhead_rows (pairs_of byz_results)) @
          [[], lit ''  Latency comparison ('' @ mu_s @ lit '' per operation):''] @
          map (latency_line (max_us byz_results)) byz_results)"

section \<open>Comma-separated values\<close>

definition csv_fields :: "run_result \<Rightarrow> usize \<Rightarrow> string list" where
  "csv_fields r f =
     [rr_protocol r, show_nat (rr_nodes r), show_nat f, show_fixed 2 (br_total_ms (rr_bench r)),
      show_fixed 1 (br_per_op_us (rr_bench r)), show_nat (unat (br_total_messages (rr_bench r))),
      show_fixed 1 (f64_div (total_f64 r) (f64_of_nat NUM_PROPOSALS)),
      (if rr_byzantine r then ''true'' else ''false''), show_nat (unat (br_messages_tampered (rr_bench r)))]"

fun join_commas :: "string list \<Rightarrow> string" where
  "join_commas [] = ''''"
| "join_commas [s] = s"
| "join_commas (s # ss) = s @ '','' @ join_commas ss"

definition csv_row :: "run_result \<Rightarrow> utext res" where
  "csv_row r = rbind (tolerance r) (\<lambda>f. Inr (lit (join_commas (csv_fields r f))))"

definition csv_header :: string where
  "csv_header = ''protocol,nodes,fault_tolerance,total_ms,per_op_us,total_messages,msgs_per_op,byzantine,messages_tampered''"

definition print_csv :: "run_result list \<Rightarrow> run_result list \<Rightarrow> printed" where
  "print_csv results byz_results =
     then_say (say [lit csv_header]) (say_all (map (\<lambda>r. say_res (csv_row r)) (results @ byz_results)))"

section \<open>The program\<close>

definition banner :: "utext list" where
  "banner =
     [[9556] @ double_rule 62 @ [9559],
      [9553] @ lit ''      BFT Consensus Benchmark '' @ [8212] @ lit '' PBFT vs HotStuff vs Raft   '' @ [9553],
      [9568] @ double_rule 62 @ [9571],
      [9553] @ lit ''  Workload: '' @ num_text NUM_PROPOSALS @ lit '' proposals per run                           '' @ [9553],
      [9553] @ lit ''  Metric:   time to commit all proposals (single-threaded)  '' @ [9553],
      [9562] @ double_rule 62 @ [9565],
      []]"

definition closing_notes :: "utext list" where
  "closing_notes =
     [lit ''Notes:'',
      lit ''  - PBFT tolerates Byzantine (arbitrary) faults: f < n/3, O(n'' @ [178] @ lit '') messages'',
      lit ''  - HotStuff tolerates Byzantine faults: f < n/3, O(n) messages (star topology)'',
      lit ''  - Raft tolerates crash (fail-stop) faults: f < n/2, O(n) messages'',
      [],
      lit ''Export CSV: cargo run --release --bin bench_report -- --csv'']"

definition csv_flag :: "string list \<Rightarrow> bool" where
  "csv_flag args \<longleftrightarrow> ''--csv'' \<in> set args"

definition report_main :: "'rng bench_env \<Rightarrow> string list \<Rightarrow> printed" where
  "report_main E args =
     (let csv_mode = csv_flag args in
      then_say (say (if csv_mode then [] else banner))
        (case rbind (clean_runs E) (\<lambda>results. rbind (byzantine_runs E) (\<lambda>byz_results. Inr (results, byz_results))) of
           Inl e \<Rightarrow> ([], Some e)
         | Inr (results, byz_results) \<Rightarrow>
             if csv_mode then print_csv results byz_results
             else say_all
               [print_table results, say [[]], print_throughput_chart results, say [[]],
                print_message_chart results, say [[]], print_scaling_chart results, say [[]],
                print_byzantine_overhead byz_results, say ([[]] @ closing_notes)]))"

section \<open>The demo\<close>

definition demo_line :: "'rng extern \<Rightarrow> 'rng \<Rightarrow> usize \<Rightarrow> utext res" where
  "demo_line X entropy n =
     rbind (pbft_fault_tolerance (pbft_new (NodeId 0) n)) (\<lambda>p.
     rbind (hs_fault_tolerance (hs_new (NodeId 0) n)) (\<lambda>h.
     rbind (raft_fault_tolerance (raft_new_seeded X (NodeId 0) n entropy)) (\<lambda>r.
     Inr (lit ''  n='' @ num_text n @ lit '':  PBFT f'' @ [8804] @ num_text p @ lit '' | HotStuff f'' @ [8804] @ num_text h @
          lit '' | Raft f'' @ [8804] @ num_text r @ lit '' crash''))))"

definition demo_main :: "'rng extern \<Rightarrow> (nat \<Rightarrow> 'rng) \<Rightarrow> string \<Rightarrow> printed" where
  "demo_main X entropy version =
     then_say
       (say [lit ''bft-consensus-bench v'' @ lit version, [],
             lit ''Protocols:'',
             lit ''  PBFT     '' @ [8212] @ lit '' Byzantine fault tolerant, O(n'' @ [178] @ lit '') messages (f < n/3)'',
             lit ''  HotStuff '' @ [8212] @ lit '' Byzantine fault tolerant, O(n) messages  (f < n/3)'',
             lit ''  Raft     '' @ [8212] @ lit '' Crash fault tolerant, O(n) messages      (f < n/2)'',
             []])
       (then_say
         (say_all (map (\<lambda>n. say_res (demo_line X (entropy n) n)) [3, 5, 7]))
         (say [[],
               lit ''Byzantine simulation:'',
               lit ''  Fault types: digest corruption, equivocation, selective message drop'',
               lit ''  Configurable per-node via FaultConfig::with_byzantine()'',
               [],
               lit ''Run benchmarks:        cargo bench'',
               lit ''Run tests:             cargo test'',
               lit ''Run cluster sim:       cargo test -- --nocapture cluster'',
               lit ''Run Byzantine tests:   cargo test -- byzantine'',
               lit ''Run HotStuff tests:    cargo test -- hotstuff'',
               lit ''Byzantine overhead:    cargo run --release --bin bench_report'']))"

end
