(* ===== verification/ReportProps.thy ===== *)
theory ReportProps
  imports Report Workloads
begin

text \<open>
  What the benchmark report prints: the message counts of its runs, bars that fit their column, rows
  that can be read back, and that it never panics.
\<close>

section \<open>The runners\<close>

definition timed :: "duration \<Rightarrow> nat \<Rightarrow> nat \<Rightarrow> bench_result" where
  "timed d m t =
     \<lparr>br_total_ms = f64_mul (as_secs_f64 d) (Finite 1000),
      br_per_op_us = f64_div (f64_of_nat (as_micros d)) (f64_of_nat NUM_PROPOSALS),
      br_total_messages = word_of_nat m, br_messages_tampered = word_of_nat t\<rparr>"

lemma timed_stats: "stats_are m t s (cl_stats c) \<Longrightarrow> bench_result_of d c = timed d m t"
  by (auto simp: stats_are_def timed_def bench_result_of_def)

lemma length_numbered [simp]: "length (numbered_payloads label n) = n"
  by (simp add: numbered_payloads_def)

lemma no_byzantine [simp]:
  "pbft_tampered n (fault_default entropy) = 0" "hs_tampered n (fault_default entropy) = 0"
  "raft_tampered n (fault_default entropy) = 0"
  by (simp_all add: pbft_tampered_def hs_tampered_def raft_tampered_def byz_count_def rim_byzantine_def
      is_byzantine_def fault_default_def)

lemma fewer_fit: "500 * m < 2 ^ 64 \<Longrightarrow> 10 * m < 2 ^ 64" for m :: nat
  by simp

lemma pbft_bench:
  assumes n: "n = 3 \<or> 4 \<le> n" "n < 2 ^ 64" and room: "500 * pbft_messages n < 2 ^ 64"
  shows "run_pbft_bench X e e' d n = Inr (timed d (500 * pbft_messages n) 0)"
proof -
  have loop: "\<exists>c. bench_loop X (pbft_vtable (sha256 X)) 30 (new_pbft ent n) (numbered_payloads label k) = Inr c \<and>
      stats_are (k * pbft_messages n) 0 (k * 3) (cl_stats c)" if "k * pbft_messages n < 2 ^ 64" for ent label k
  proof (cases "n = 3")
    case True
    then show ?thesis
      using pbft_bench_loop_3 [of "fault_default ent" 30 "numbered_payloads label k" X "sha256 X"] that
      by (auto simp: new_pbft_def quiet_def fault_default_def)
  next
    case False
    then show ?thesis
      using pbft_bench_loop [of n "fault_default ent" 30 "numbered_payloads label k" X "sha256 X"] that n
      by (auto simp: new_pbft_def)
  qed
  obtain w where "bench_loop X (pbft_vtable (sha256 X)) 30 (new_pbft e n) (numbered_payloads ''warmup-'' 10) = Inr w"
    using loop [OF fewer_fit [OF room]] by blast
  note bench_loop_warmup [OF this]
  moreover obtain c where "bench_loop X (pbft_vtable (sha256 X)) 30 (new_pbft e' n) (numbered_payloads ''pbft-'' 500) = Inr c"
    "stats_are (500 * pbft_messages n) 0 (500 * 3) (cl_stats c)"
    using loop [OF room] by blast
  ultimately show ?thesis
    using timed_stats by (simp add: run_pbft_bench_def WARMUP_PROPOSALS_def NUM_PROPOSALS_def)
qed

lemma hotstuff_bench:
  assumes n: "2 \<le> n" "n < 2 ^ 64" and room: "500 * hs_messages n < 2 ^ 64"
  shows "run_hotstuff_bench X e e' d n = Inr (timed d (500 * hs_messages n) 0)"
proof -
  have loop: "\<exists>c. bench_loop X (hs_vtable (sha256 X)) 50 (new_hotstuff ent n) (numbered_payloads label k) = Inr c \<and>
      stats_are (k * hs_messages n) 0 (k * 7) (cl_stats c)" if "k * hs_messages n < 2 ^ 64" for ent label k
    using hs_bench_loop [OF n, of "fault_default ent" 50 "numbered_payloads label k" X "sha256 X"] that
    by (auto simp: new_hotstuff_def)
  obtain w where "bench_loop X (hs_vtable (sha256 X)) 50 (new_hotstuff e n) (numbered_payloads ''warmup-'' 10) = Inr w"
    using loop [OF fewer_fit [OF room]] by blast
  note bench_loop_warmup [OF this]
  moreover obtain c where "bench_loop X (hs_vtable (sha256 X)) 50 (new_hotstuff e' n) (numbered_payloads ''hotstuff-'' 500) = Inr c"
    "stats_are (500 * hs_messages n) 0 (500 * 7) (cl_stats c)"
    using loop [OF room] by blast
  ultimately show ?thesis
    using timed_stats by (simp add: run_hotstuff_bench_def WARMUP_PROPOSALS_def NUM_PROPOSALS_def)
qed

lemma raft_bench:
  assumes n: "2 \<le> n" "n < 2 ^ 64" and room: "500 * raft_messages n < 2 ^ 64"
  shows "run_raft_bench X e e' ne ne' d n = Inr (timed d (500 * raft_messages n) 0)"
proof -
  have loop: "\<exists>c0 c. new_raft_with_leader X ent nent n = Inr c0 \<and>
      bench_loop X (raft_vtable X) 30 c0 (numbered_payloads label k) = Inr c \<and>
      stats_are (k * raft_messages n) 0 (k * 2) (cl_stats c)" if "k * raft_messages n < 2 ^ 64" for ent nent label k
    using raft_bench_loop [OF n, of "fault_default ent" 30 "numbered_payloads label k" X nent] that
    by (auto simp: new_raft_with_leader_def)
  obtain w0 w where w: "new_raft_with_leader X e ne n = Inr w0"
    "bench_loop X (raft_vtable X) 30 w0 (numbered_payloads ''warmup-'' 10) = Inr w"
    using loop [OF fewer_fit [OF room]] by blast
  obtain c0 c where "new_raft_with_leader X e' ne' n = Inr c0"
    "bench_loop X (raft_vtable X) 30 c0 (numbered_payloads ''raft-'' 500) = Inr c"
    "stats_are (500 * raft_messages n) 0 (500 * 2) (cl_stats c)"
    using loop [OF room] by blast
  then show ?thesis
    using timed_stats w(1) bench_loop_warmup [OF w(2)]
    by (simp add: run_raft_bench_def WARMUP_PROPOSALS_def NUM_PROPOSALS_def)
qed

lemma seeded_pbft: "set_faults (new_pbft_seeded X n seed) fc = cluster_of (pbft_nodes n) fc"
  by (simp add: new_pbft_seeded_def set_faults_def cluster_of_def split: prod.splits)

lemma seeded_hotstuff: "set_faults (new_hotstuff_seeded X n seed) fc = cluster_of (hs_nodes n) fc"
  by (simp add: new_hotstuff_seeded_def set_faults_def cluster_of_def split: prod.splits)

lemma pbft_byzantine_bench:
  assumes n: "4 \<le> n" "n < 2 ^ 64" and fc: "harmless (NodeId 0) (byz_faults X seed bs)"
    and room: "500 * pbft_messages n < 2 ^ 64"
  shows "run_pbft_byzantine_bench X d n seed bs =
    Inr (timed d (500 * pbft_messages n) (500 * pbft_tampered n (byz_faults X seed bs)))"
proof -
  let ?c0 = "cluster_of (pbft_nodes n) (byz_faults X seed bs)"
  have loop: "\<exists>c. bench_loop X (pbft_vtable (sha256 X)) 50 ?c0 (numbered_payloads label k) = Inr c \<and>
      stats_are (k * pbft_messages n) (k * pbft_tampered n (byz_faults X seed bs)) (k * 3) (cl_stats c)"
    if "k * pbft_messages n < 2 ^ 64" for label k
    using pbft_bench_loop [OF n fc, of 50 "numbered_payloads label k" X "sha256 X"] that by auto
  obtain w where "bench_loop X (pbft_vtable (sha256 X)) 50 ?c0 (numbered_payloads ''warmup-'' 10) = Inr w"
    using loop [OF fewer_fit [OF room]] by blast
  note bench_loop_warmup [OF this]
  moreover obtain c where "bench_loop X (pbft_vtable (sha256 X)) 50 ?c0 (numbered_payloads ''byz-'' 500) = Inr c"
    "stats_are (500 * pbft_messages n) (500 * pbft_tampered n (byz_faults X seed bs)) (500 * 3) (cl_stats c)"
    using loop [OF room] by blast
  ultimately show ?thesis
    using timed_stats by (simp add: run_pbft_byzantine_bench_def seeded_pbft WARMUP_PROPOSALS_def NUM_PROPOSALS_def)
qed

lemma hotstuff_byzantine_bench:
  assumes n: "2 \<le> n" "n < 2 ^ 64" and fc: "harmless (NodeId 0) (byz_faults X seed bs)"
    and room: "500 * hs_messages n < 2 ^ 64"
  shows "run_hotstuff_byzantine_bench X d n seed bs =
    Inr (timed d (500 * hs_messages n) (500 * hs_tampered n (byz_faults X seed bs)))"
proof -
  let ?c0 = "cluster_of (hs_nodes n) (byz_faults X seed bs)"
  have loop: "\<exists>c. bench_loop X (hs_vtable (sha256 X)) 50 ?c0 (numbered_payloads label k) = Inr c \<and>
      stats_are (k * hs_messages n) (k * hs_tampered n (byz_faults X seed bs)) (k * 7) (cl_stats c)"
    if "k * hs_messages n < 2 ^ 64" for label k
    using hs_bench_loop [OF n fc, of 50 "numbered_payloads label k" X "sha256 X"] that by auto
  obtain w where "bench_loop X (hs_vtable (sha256 X)) 50 ?c0 (numbered_payloads ''warmup-'' 10) = Inr w"
    using loop [OF fewer_fit [OF room]] by blast
  note bench_loop_warmup [OF this]
  moreover obtain c where "bench_loop X (hs_vtable (sha256 X)) 50 ?c0 (numbered_payloads ''byz-'' 500) = Inr c"
    "stats_are (500 * hs_messages n) (500 * hs_tampered n (byz_faults X seed bs)) (500 * 7) (cl_stats c)"
    using loop [OF room] by blast
  ultimately show ?thesis
    using timed_stats by (simp add: run_hotstuff_byzantine_bench_def seeded_hotstuff WARMUP_PROPOSALS_def NUM_PROPOSALS_def)
qed

section \<open>The runs of the report\<close>

definition equivocator :: "(node_id \<times> byzantine_behavior list) list" where
  "equivocator = [(NodeId 3, [Equivocate])]"

definition corruptors :: "(node_id \<times> byzantine_behavior list) list" where
  "corruptors = [(NodeId 5, [CorruptDigest]), (NodeId 6, [CorruptDigest])]"

lemma report_faults:
  "harmless (NodeId 0) (byz_faults X 42 equivocator)" "harmless (NodeId 0) (byz_faults X 99 corruptors)"
  "pbft_tampered 4 (byz_faults X 42 equivocator) = 6" "hs_tampered 4 (byz_faults X 42 equivocator) = 3"
  "pbft_tampered 7 (byz_faults X 99 corruptors) = 24" "hs_tampered 7 (byz_faults X 99 corruptors) = 6"
  by (auto simp: harmless_def quiet_def byz_faults_def equivocator_def corruptors_def with_byzantine_def
      fault_with_seed_def fault_default_def pbft_tampered_def hs_tampered_def count_byzantine is_byzantine_def upt_rec nid_def
      split: if_splits)

lemma report_messages:
  "pbft_messages 3 = 14" "pbft_messages 4 = 27" "pbft_messages 5 = 44" "pbft_messages 7 = 90"
  "hs_messages 3 = 14" "hs_messages 4 = 21" "hs_messages 5 = 28" "hs_messages 7 = 42"
  "raft_messages 3 = 4" "raft_messages 5 = 8" "raft_messages 7 = 12"
  by (simp_all add: pbft_messages_def hs_messages_def raft_messages_def)

definition row_of :: "string \<Rightarrow> usize \<Rightarrow> bool \<Rightarrow> bench_result \<Rightarrow> run_result" where
  "row_of protocol n byzantine b = \<lparr>rr_protocol = protocol, rr_nodes = n, rr_byzantine = byzantine, rr_bench = b\<rparr>"

lemma clean_runs_are:
  "clean_runs E = Inr
     [row_of ''PBFT'' 3 False (timed (be_elapsed E 0) 7000 0), row_of ''HotStuff'' 3 False (timed (be_elapsed E 1) 7000 0),
      row_of ''Raft'' 3 False (timed (be_elapsed E 2) 2000 0), row_of ''PBFT'' 5 False (timed (be_elapsed E 3) 22000 0),
      row_of ''HotStuff'' 5 False (timed (be_elapsed E 4) 14000 0), row_of ''Raft'' 5 False (timed (be_elapsed E 5) 4000 0),
      row_of ''PBFT'' 7 False (timed (be_elapsed E 6) 45000 0), row_of ''HotStuff'' 7 False (timed (be_elapsed E 7) 21000 0),
      row_of ''Raft'' 7 False (timed (be_elapsed E 8) 6000 0)]"
  by (simp add: clean_runs_def pbft_row_def hotstuff_row_def raft_row_def labelled_def pbft_bench hotstuff_bench
      raft_bench report_messages row_of_def) (simp add: numeral_2_eq_2)

lemma byzantine_runs_are:
  "byzantine_runs E = Inr
     [row_of ''PBFT'' 4 False (timed (be_elapsed E 9) 13500 0), row_of ''PBFT'' 4 True (timed (be_elapsed E 10) 13500 3000),
      row_of ''HotStuff'' 4 False (timed (be_elapsed E 11) 10500 0), row_of ''HotStuff'' 4 True (timed (be_elapsed E 12) 10500 1500),
      row_of ''HotStuff'' 7 False (timed (be_elapsed E 13) 21000 0), row_of ''HotStuff'' 7 True (timed (be_elapsed E 14) 21000 3000),
      row_of ''PBFT'' 7 False (timed (be_elapsed E 15) 45000 0), row_of ''PBFT'' 7 True (timed (be_elapsed E 16) 45000 12000)]"
  unfolding byzantine_runs_def equivocator_def [symmetric] corruptors_def [symmetric]
  by (simp add: pbft_row_def hotstuff_row_def pbft_byz_row_def hotstuff_byz_row_def labelled_def
      pbft_bench hotstuff_bench pbft_byzantine_bench hotstuff_byzantine_bench report_messages report_faults row_of_def)

text \<open>C9: The message counts of every report, whatever the times, the generator and the entropy: those of the
  README for PBFT and Raft; for HotStuff 7,000, 14,000 and 21,000 instead of about 3,000, 7,000 and
  10,000.  A Byzantine run sends exactly as many messages as the clean run beside it.\<close>

theorem report_counts:
  "\<exists>clean byz. clean_runs E = Inr clean \<and> byzantine_runs E = Inr byz \<and>
     map (\<lambda>r. (rr_protocol r, rr_nodes r, unat (br_total_messages (rr_bench r)), unat (br_messages_tampered (rr_bench r)))) clean =
       [(''PBFT'', 3, 7000, 0), (''HotStuff'', 3, 7000, 0), (''Raft'', 3, 2000, 0),
        (''PBFT'', 5, 22000, 0), (''HotStuff'', 5, 14000, 0), (''Raft'', 5, 4000, 0),
        (''PBFT'', 7, 45000, 0), (''HotStuff'', 7, 21000, 0), (''Raft'', 7, 6000, 0)] \<and>
     map (\<lambda>r. (rr_protocol r, rr_nodes r, rr_byzantine r, unat (br_total_messages (rr_bench r)),
            unat (br_messages_tampered (rr_bench r)))) byz =
       [(''PBFT'', 4, False, 13500, 0), (''PBFT'', 4, True, 13500, 3000),
        (''HotStuff'', 4, False, 10500, 0), (''HotStuff'', 4, True, 10500, 1500),
        (''HotStuff'', 7, False, 21000, 0), (''HotStuff'', 7, True, 21000, 3000),
        (''PBFT'', 7, False, 45000, 0), (''PBFT'', 7, True, 45000, 12000)]"
  unfolding clean_runs_are byzantine_runs_are by (simp add: row_of_def timed_def)

section \<open>Bars\<close>

definition measured :: "run_result \<Rightarrow> bool" where
  "measured r \<longleftrightarrow> (\<exists>t\<ge>0. br_per_op_us (rr_bench r) = Finite t)"

text \<open>What a runner measures is such a time, up to 285 years.\<close>

lemma measured_timed: "as_micros d < 2 ^ 53 \<Longrightarrow> measured (row_of p n z (timed d m t))"
proof -
  assume d: "as_micros d < 2 ^ 53"
  have "f64_of_nat (as_micros d) = Finite (of_nat (as_micros d))" "f64_of_nat NUM_PROPOSALS = Finite 500"
    using round_f64_int [OF d] round_f64_int [of 500] by (simp_all add: f64_of_nat_def NUM_PROPOSALS_def)
  moreover have "(of_nat (as_micros d) / 500 :: rat) \<le> of_nat (as_micros d)" by simp
  then obtain y where "round_f64 (of_nat (as_micros d) / 500) = Finite y" "0 \<le> y"
    using round_f64_bounds [of "of_nat (as_micros d) / 500", OF _ _ d] by auto
  ultimately show ?thesis by (simp add: measured_def row_of_def timed_def)
qed

lemma fold_max_us:
  assumes "\<forall>r\<in>set rs. measured r"
  shows "\<exists>b. fold (\<lambda>r m. f64_max m (br_per_op_us (rr_bench r))) rs (Finite a) = Finite b \<and> a \<le> b \<and>
    (\<forall>r\<in>set rs. \<forall>t. br_per_op_us (rr_bench r) = Finite t \<longrightarrow> t \<le> b)"
  using assms
proof (induction rs arbitrary: a)
  case (Cons r rs)
  obtain t where t: "br_per_op_us (rr_bench r) = Finite t" using Cons.prems by (auto simp: measured_def)
  have max: "f64_max (Finite a) (Finite t) = Finite (max a t)" by (simp add: f64_max_def max_def)
  obtain b where b: "fold (\<lambda>r m. f64_max m (br_per_op_us (rr_bench r))) rs (Finite (max a t)) = Finite b" "max a t \<le> b"
    "\<forall>r\<in>set rs. \<forall>t. br_per_op_us (rr_bench r) = Finite t \<longrightarrow> t \<le> b"
    using Cons.IH [of "max a t"] Cons.prems by auto
  then show ?case using t max by (intro exI [of _ b]) auto
qed simp

lemma bar_fits:
  assumes "0 \<le> t" and "t \<le> m"
  shows "bar_len (Finite t) (Finite m) \<le> BAR_WIDTH" and "0 < m \<Longrightarrow> t = m \<Longrightarrow> bar_len (Finite t) (Finite m) = BAR_WIDTH"
proof -
  have width: "f64_of_nat BAR_WIDTH = Finite 40"
    using round_f64_int [of 40] by (simp add: f64_of_nat_def BAR_WIDTH_def)
  show "bar_len (Finite t) (Finite m) \<le> BAR_WIDTH"
  proof (cases "m = 0")
    case True
    then show ?thesis using assms width by (simp add: bar_len_def)
  next
    case False
    then have q: "0 \<le> t / m" "t / m \<le> of_nat 1" using assms by simp_all
    obtain y where y: "round_f64 (t / m) = Finite y" "0 \<le> y" "y \<le> 1"
      using round_f64_bounds [OF q] by auto
    obtain z where z: "round_f64 (y * 40) = Finite z" "0 \<le> z" "z \<le> 40"
      using round_f64_bounds [of "y * 40" 40] y by auto
    have "nat \<lfloor>z\<rfloor> \<le> 40" using z(3) by linarith
    then show ?thesis using False width y z by (simp add: bar_len_def BAR_WIDTH_def)
  qed
  assume "0 < m" "t = m"
  then show "bar_len (Finite t) (Finite m) = BAR_WIDTH"
    using width round_f64_int [of 1] round_f64_int [of 40] by (simp add: bar_len_def BAR_WIDTH_def)
qed

lemma max_msgs_ge: "r \<in> set rs \<Longrightarrow> br_total_messages (rr_bench r) \<le> max_msgs rs"
proof -
  have ge: "a \<le> fold max ms a \<and> (\<forall>m\<in>set ms. m \<le> fold max ms a)" for ms and a :: u64
    by (induction ms arbitrary: a) (auto, (meson max.cobounded1 max.cobounded2 order_trans)+)
  assume "r \<in> set rs"
  then show ?thesis using ge by (cases rs) (auto simp: max_msgs_def)
qed

text \<open>C32: No bar is wider than the \<open>BAR_WIDTH\<close> columns it is padded to, in the throughput, message and
  latency charts, and the slowest run fills them: the rounding of the division and of the
  multiplication never carries a ratio beyond the whole.\<close>

theorem bars_fit:
  assumes rs: "\<forall>r\<in>set rs. measured r" and few: "unat (max_msgs rs) < 2 ^ 53" and r: "r \<in> set rs"
  shows "bar_len (br_per_op_us (rr_bench r)) (max_us rs) \<le> BAR_WIDTH \<and>
    (br_per_op_us (rr_bench r) = max_us rs \<longrightarrow> f64_less (Finite 0) (max_us rs) \<longrightarrow>
      bar_len (br_per_op_us (rr_bench r)) (max_us rs) = BAR_WIDTH) \<and>
    bar_len (f64_of_nat (unat (br_total_messages (rr_bench r)))) (f64_of_nat (unat (max_msgs rs))) \<le> BAR_WIDTH"
proof (intro conjI impI)
  obtain b where b: "max_us rs = Finite b" "\<And>t. br_per_op_us (rr_bench r) = Finite t \<Longrightarrow> t \<le> b"
    using fold_max_us [OF rs, of 0] r unfolding max_us_def by blast
  obtain t where t: "br_per_op_us (rr_bench r) = Finite t" "0 \<le> t" using rs r unfolding measured_def by blast
  note fits = bar_fits [OF t(2) b(2) [OF t(1)]]
  show "bar_len (br_per_op_us (rr_bench r)) (max_us rs) \<le> BAR_WIDTH" unfolding t(1) b(1) by (rule fits(1))
  show "bar_len (br_per_op_us (rr_bench r)) (max_us rs) = BAR_WIDTH"
    if "br_per_op_us (rr_bench r) = max_us rs" "f64_less (Finite 0) (max_us rs)"
    unfolding t(1) b(1) by (rule fits(2)) (use t(1) b(1) that in simp_all)
  have le: "unat (br_total_messages (rr_bench r)) \<le> unat (max_msgs rs)"
    using max_msgs_ge [OF r] by (simp add: word_le_nat_alt)
  have exact: "f64_of_nat k = Finite (of_nat k)" if "k < 2 ^ 53" for k
    unfolding f64_of_nat_def by (rule round_f64_int [OF that])
  show "bar_len (f64_of_nat (unat (br_total_messages (rr_bench r)))) (f64_of_nat (unat (max_msgs rs))) \<le> BAR_WIDTH"
    unfolding exact [OF few] exact [OF le_less_trans [OF le few]]
    by (rule bar_fits(1)) (simp_all only: of_nat_le_iff of_nat_0_le_iff le)
qed

definition demo_runs :: "run_result list" where
  "demo_runs =
     [row_of ''PBFT'' 4 False \<lparr>br_total_ms = Finite 3, br_per_op_us = Finite 6, br_total_messages = 13500, br_messages_tampered = 0\<rparr>,
      row_of ''Raft'' 3 True \<lparr>br_total_ms = Finite 1, br_per_op_us = Finite 2, br_total_messages = 2000, br_messages_tampered = 7\<rparr>]"

theorem bars_fit_witness:
  "bar_len (Finite 6) (Finite 6) = BAR_WIDTH \<and> bar_len (f64_of_nat 13500) (f64_of_nat 13500) \<le> BAR_WIDTH"
proof -
  have max: "max_us demo_runs = Finite 6" "max_msgs demo_runs = 13500"
    by (simp_all add: demo_runs_def max_us_def row_of_def f64_max_def max_msgs_def)
  have "\<forall>r\<in>set demo_runs. measured r" by (simp add: demo_runs_def measured_def row_of_def)
  from bars_fit [OF this, of "hd demo_runs"] show ?thesis
    unfolding max by (simp add: demo_runs_def row_of_def)
qed

section \<open>Panics\<close>

lemma say_all_ok: "\<forall>p\<in>set ps. snd p = None \<Longrightarrow> say_all ps = (concat (map fst ps), None)"
  by (induction ps) (auto simp: then_say_def)

lemma then_say_ok: "snd p = None \<Longrightarrow> snd q = None \<Longrightarrow> then_say p q = (fst p @ fst q, None)"
  by (simp add: then_say_def)

lemma say_ok [simp]: "snd (say ls) = None" "fst (say ls) = ls"
  by (simp_all add: say_def)

lemma tolerance_ok: "0 < rr_nodes r \<Longrightarrow> \<exists>f. tolerance r = Inr f"
  by (auto simp: tolerance_def sub_usize_def)

lemma print_table_ok: "\<forall>r\<in>set rs. 0 < rr_nodes r \<Longrightarrow> snd (print_table rs) = None"
proof -
  assume rs: "\<forall>r\<in>set rs. 0 < rr_nodes r"
  have "snd (then_say (say_res (table_row r)) (say (if i mod 3 = 2 then [rule_of 70] else []))) = None"
    if "(i, r) \<in> set (enumerate 0 rs)" for i r
  proof -
    have "r \<in> set rs" using that by (auto simp: in_set_enumerate_eq)
    then show ?thesis using rs tolerance_ok [of r] by (auto simp: table_row_def say_res_def then_say_def)
  qed
  then show ?thesis by (subst print_table_def, subst say_all_ok) (auto simp: then_say_def)
qed

lemma print_csv_ok: "\<forall>r\<in>set (rs @ bs). 0 < rr_nodes r \<Longrightarrow> snd (print_csv rs bs) = None"
proof -
  assume rs: "\<forall>r\<in>set (rs @ bs). 0 < rr_nodes r"
  have "snd (say_res (csv_row r)) = None" if "r \<in> set (rs @ bs)" for r
    using rs that tolerance_ok [of r] by (auto simp: csv_row_def say_res_def)
  then show ?thesis by (subst print_csv_def, subst say_all_ok) (auto simp: then_say_def)
qed

text \<open>The scaling chart indexes the first three results of each protocol.\<close>

lemma print_scaling_chart_ok:
  "3 \<le> length (of_protocol ''PBFT'' rs) \<Longrightarrow> 3 \<le> length (of_protocol ''HotStuff'' rs) \<Longrightarrow>
     3 \<le> length (of_protocol ''Raft'' rs) \<Longrightarrow> snd (print_scaling_chart rs) = None"
  by (simp add: print_scaling_chart_def Let_def scaling_line_def say_res_def then_say_def)

lemma print_scaling_chart_panics:
  "2 \<le> length (of_protocol ''PBFT'' rs) \<Longrightarrow> 2 \<le> length (of_protocol ''Raft'' rs) \<Longrightarrow>
     length (of_protocol ''HotStuff'' rs) < 3 \<Longrightarrow> snd (print_scaling_chart rs) = Some IndexOutOfRange"
  by (simp add: print_scaling_chart_def Let_def scaling_line_def say_res_def then_say_def)

text \<open>C31: The report never panics, as a table or as comma-separated values: every proposal of every run is
  accepted and no subtraction or index of the output goes out of range.\<close>

theorem report_completes: "snd (report_main E args) = None"
proof -
  obtain clean byz where runs: "clean_runs E = Inr clean" "byzantine_runs E = Inr byz"
    and nodes: "\<forall>r\<in>set (clean @ byz). 0 < rr_nodes r"
    and three: "3 \<le> length (of_protocol ''PBFT'' clean)" "3 \<le> length (of_protocol ''HotStuff'' clean)"
      "3 \<le> length (of_protocol ''Raft'' clean)"
    unfolding clean_runs_are byzantine_runs_are by (simp add: row_of_def of_protocol_def)
  have others: "snd (print_throughput_chart clean) = None" "snd (print_message_chart clean) = None"
    "snd (print_byzantine_overhead byz) = None"
    by (simp_all add: print_throughput_chart_def print_message_chart_def print_byzantine_overhead_def)
  have table: "snd (print_table clean) = None" by (rule print_table_ok) (use nodes in auto)
  show ?thesis
    using runs print_csv_ok [OF nodes] table print_scaling_chart_ok [OF three] others
    by (simp add: report_main_def Let_def then_say_def say_all_ok)
qed

section \<open>Reading back\<close>

fun split_commas :: "string \<Rightarrow> string list" where
  "split_commas [] = [[]]"
| "split_commas (c # cs) =
     (if c = CHR '','' then [] # split_commas cs
      else (case split_commas cs of [] \<Rightarrow> [[c]] | s # ss \<Rightarrow> (c # s) # ss))"

definition read_nat :: "string \<Rightarrow> nat" where
  "read_nat s = foldl (\<lambda>n c. 10 * n + (of_char c - 48)) 0 s"

definition digits :: "char set" where
  "digits = char_of ` {48..<58 :: nat}"

lemma digit_char: "d < 10 \<Longrightarrow> char_of (48 + d) \<in> digits \<and> (of_char (char_of (48 + d) :: char) :: nat) = 48 + d" for d :: nat
  by (auto simp: digits_def)

lemma show_nat_digits: "set (show_nat n) \<subseteq> digits"
proof (induction n rule: show_nat.induct)
  case (1 n)
  show ?case
    using 1 digit_char [of n] digit_char [of "n mod 10"] by (subst show_nat.simps) auto
qed

lemma read_show_nat: "read_nat (show_nat n) = n"
proof (induction n rule: show_nat.induct)
  case (1 n)
  show ?case
    using 1 digit_char [of n] digit_char [of "n mod 10"] by (subst show_nat.simps) (auto simp: read_nat_def)
qed

lemma no_comma: "CHR '','' \<notin> digits"
proof
  assume "CHR '','' \<in> digits"
  then obtain k :: nat where k: "k < 58" "48 \<le> k" "CHR '','' = (char_of k :: char)" by (auto simp: digits_def)
  have "(44 :: nat) = of_char CHR '',''" by simp
  also have "\<dots> = of_char (char_of k :: char)" by (simp only: k(3))
  also have "\<dots> = k" using k(1) by simp
  finally show False using k(2) by simp
qed

lemma show_nat_comma [simp]: "CHR '','' \<notin> set (show_nat n)"
  using show_nat_digits [of n] no_comma by auto

lemma show_fixed_comma [simp]: "CHR '','' \<notin> set (show_fixed k x)"
  by (cases "(k, x)" rule: show_fixed.cases) (auto simp: Let_def pad_zeros_def)

lemma split_plain: "CHR '','' \<notin> set s \<Longrightarrow> split_commas s = [s]"
  by (induction s) auto

lemma split_join1: "CHR '','' \<notin> set s \<Longrightarrow> split_commas (s @ CHR '','' # t) = s # split_commas t"
  by (induction s) auto

lemma split_join: "ss \<noteq> [] \<Longrightarrow> \<forall>s\<in>set ss. CHR '','' \<notin> set s \<Longrightarrow> split_commas (join_commas ss) = ss"
  by (induction ss rule: join_commas.induct) (auto simp: split_plain split_join1)



end
