(* ===== verification/UnitTests.thy ===== *)
theory UnitTests
  imports Concrete "HOL-Library.Multiset"
begin

text \<open>
  The unit tests of the modules, as programs over the model: \<open>cluster/invariant.rs\<close>,
  \<open>cluster/fault.rs\<close> and the three \<open>state.rs\<close>.  A test is a computation that may panic, and passes when
  it does not; \<open>assert!\<close>, \<open>assert_eq!\<close> and \<open>panic!\<close> all panic with \<open>AssertionFailed\<close>.  The iteration order of a
  set of honest nodes is an argument, as are the entropy and the functions of other crates.
\<close>

section \<open>Assertions\<close>

definition assert_that :: "bool \<Rightarrow> unit res" where
  "assert_that b = (if b then Inr () else Inl AssertionFailed)"

lemma assert_that_Inr [simp]: "assert_that b = Inr () \<longleftrightarrow> b"
  by (simp add: assert_that_def)

lemma assert_that_True [simp]: "assert_that True = Inr ()"
  by (simp add: assert_that_def)

fun in_turn :: "unit res list \<Rightarrow> unit res" where
  "in_turn [] = Inr ()"
| "in_turn (t # ts) = rbind t (\<lambda>u. in_turn ts)"

lemma in_turn_Inr [simp]: "in_turn ts = Inr () \<longleftrightarrow> (\<forall>t\<in>set ts. t = Inr ())"
  by (induction ts) (auto simp: rbind_eq_Inr)

fun is_fail :: "check_result \<Rightarrow> bool" where
  "is_fail Pass = False"
| "is_fail (Fail m) = True"

definition bytes :: "string \<Rightarrow> payload" where
  "bytes s = Payload (map of_char s)"

definition committed :: "u64 \<Rightarrow> payload \<Rightarrow> committed_entry" where
  "committed sq p = \<lparr>ce_sequence = sq, ce_payload = p\<rparr>"

section \<open>The invariant checks\<close>

definition agreement_passes_when_all_nodes_agree :: "(node_id list \<Rightarrow> node_id list) \<Rightarrow> unit res" where
  "agreement_passes_when_all_nodes_agree iter =
     (let log = commit_log_new;
          payload = bytes ''hello'';
          log = record_proposal log payload;
          log = record_commits log (NodeId 0) [committed 1 payload];
          log = record_commits log (NodeId 1) [committed 1 payload];
          result = check_log log 1 (iter [NodeId 0, NodeId 1])
      in assert_that (ir_agreement result = Pass))"

definition agreement_fails_when_nodes_disagree :: "(node_id list \<Rightarrow> node_id list) \<Rightarrow> unit res" where
  "agreement_fails_when_nodes_disagree iter =
     (let log = commit_log_new;
          p1 = bytes ''hello'';
          p2 = bytes ''world'';
          log = record_proposal log p1;
          log = record_proposal log p2;
          log = record_commits log (NodeId 0) [committed 1 p1];
          log = record_commits log (NodeId 1) [committed 1 p2];
          result = check_log log 1 (iter [NodeId 0, NodeId 1])
      in assert_that (is_fail (ir_agreement result)))"

definition total_order_passes_when_sequences_match :: "(node_id list \<Rightarrow> node_id list) \<Rightarrow> unit res" where
  "total_order_passes_when_sequences_match iter =
     (let log = commit_log_new;
          p1 = bytes ''first'';
          p2 = bytes ''second'';
          log = record_proposal log p1;
          log = record_proposal log p2;
          log = record_commits log (NodeId 0) [committed 1 p1, committed 2 p2];
          log = record_commits log (NodeId 1) [committed 1 p1, committed 2 p2];
          result = check_log log 2 (iter [NodeId 0, NodeId 1])
      in assert_that (ir_total_order result = Pass))"

definition total_order_fails_when_sequences_differ :: "(node_id list \<Rightarrow> node_id list) \<Rightarrow> unit res" where
  "total_order_fails_when_sequences_differ iter =
     (let log = commit_log_new;
          p1 = bytes ''first'';
          p2 = bytes ''second'';
          log = record_proposal log p1;
          log = record_proposal log p2;
          log = record_commits log (NodeId 0) [committed 1 p1, committed 2 p2];
          log = record_commits log (NodeId 1) [committed 2 p2, committed 1 p1];
          result = check_log log 2 (iter [NodeId 0, NodeId 1])
      in assert_that (is_fail (ir_total_order result)))"

definition integrity_detects_duplicate_sequence :: "(node_id list \<Rightarrow> node_id list) \<Rightarrow> unit res" where
  "integrity_detects_duplicate_sequence iter =
     (let log = commit_log_new;
          payload = bytes ''data'';
          log = record_proposal log payload;
          log = record_commits log (NodeId 0) [committed 1 payload, committed 1 payload];
          result = check_log log 2 (iter [NodeId 0])
      in assert_that (is_fail (ir_integrity result)))"

definition termination_fails_when_node_under_commits :: "(node_id list \<Rightarrow> node_id list) \<Rightarrow> unit res" where
  "termination_fails_when_node_under_commits iter =
     (let log = commit_log_new;
          p1 = bytes ''a'';
          p2 = bytes ''b'';
          log = record_proposal log p1;
          log = record_proposal log p2;
          log = record_commits log (NodeId 0) [committed 1 p1, committed 2 p2];
          log = record_commits log (NodeId 1) [committed 1 p1];
          result = check_log log 2 (iter [NodeId 0, NodeId 1])
      in assert_that (is_fail (ir_termination result)))"

definition empty_log_passes_all_checks :: "(node_id list \<Rightarrow> node_id list) \<Rightarrow> unit res" where
  "empty_log_passes_all_checks iter =
     (let log = commit_log_new;
          result = check_log log 0 (iter [NodeId 0, NodeId 1, NodeId 2])
      in in_turn
           [assert_that (ir_agreement result = Pass),
            assert_that (ir_validity result = Pass),
            assert_that (ir_integrity result = Pass),
            assert_that (ir_termination result = Pass),
            assert_that (ir_total_order result = Pass)])"

definition validity_fails_for_uncommitted_payload :: "(node_id list \<Rightarrow> node_id list) \<Rightarrow> unit res" where
  "validity_fails_for_uncommitted_payload iter =
     (let log = commit_log_new;
          proposed = bytes ''proposed'';
          rogue = bytes ''rogue'';
          log = record_proposal log proposed;
          log = record_commits log (NodeId 0) [committed 1 rogue];
          result = check_log log 1 (iter [NodeId 0])
      in assert_that (is_fail (ir_validity result)))"

lemma iterate_two:
  assumes "mset (iter [a, b]) = mset [a, b]"
  shows "iter [a, b] = [a, b] \<or> iter [a, b] = [b, a]"
proof -
  have "length (iter [a, b]) = 2" using arg_cong [OF assms, of size] by simp
  then obtain x y where xy: "iter [a, b] = [x, y]" by (auto simp: numeral_2_eq_2 length_Suc_conv)
  then show ?thesis using assms by (auto simp: add_eq_conv_ex)
qed

lemma iterate_one: "mset (iter [a]) = mset [a] \<Longrightarrow> iter [a] = [a]"
  by simp

lemmas log_eval =
  check_log_def commit_log_new_def record_proposal_def record_commits_def list_at_def committed_def bytes_def
  check_agreement_def agreement_push_def check_validity_def check_integrity_def check_termination_def
  commit_count_def check_total_order_def orderings_def List.map_filter_def

lemma invariant_tests_pass:
  assumes iter: "\<And>xs. mset (iter xs) = mset xs"
  shows "agreement_passes_when_all_nodes_agree iter = Inr ()" "agreement_fails_when_nodes_disagree iter = Inr ()"
    "total_order_passes_when_sequences_match iter = Inr ()" "total_order_fails_when_sequences_differ iter = Inr ()"
    "integrity_detects_duplicate_sequence iter = Inr ()" "termination_fails_when_node_under_commits iter = Inr ()"
    "empty_log_passes_all_checks iter = Inr ()" "validity_fails_for_uncommitted_payload iter = Inr ()"
proof -
  note two = iterate_two [of iter "NodeId 0" "NodeId 1", OF iter]
  note one = iterate_one [of iter "NodeId 0", OF iter]
  show "agreement_passes_when_all_nodes_agree iter = Inr ()"
    using two by (auto simp: agreement_passes_when_all_nodes_agree_def log_eval Let_def)
  show "agreement_fails_when_nodes_disagree iter = Inr ()"
    using two by (auto simp: agreement_fails_when_nodes_disagree_def log_eval Let_def)
  show "total_order_passes_when_sequences_match iter = Inr ()"
    using two by (auto simp: total_order_passes_when_sequences_match_def log_eval Let_def upt_rec)
  show "total_order_fails_when_sequences_differ iter = Inr ()"
    using two by (auto simp: total_order_fails_when_sequences_differ_def log_eval Let_def upt_rec)
  show "integrity_detects_duplicate_sequence iter = Inr ()"
    unfolding integrity_detects_duplicate_sequence_def one by (simp add: log_eval Let_def)
  show "termination_fails_when_node_under_commits iter = Inr ()"
    using two by (auto simp: termination_fails_when_node_under_commits_def log_eval Let_def)
  show "empty_log_passes_all_checks iter = Inr ()"
    by (auto simp: empty_log_passes_all_checks_def log_eval Let_def split: option.splits dest: find_Some_iff [THEN iffD1])
  show "validity_fails_for_uncommitted_payload iter = Inr ()"
    unfolding validity_fails_for_uncommitted_payload_def one by (simp add: log_eval Let_def)
qed

section \<open>Fault injection\<close>

definition pre_prepare_msg :: "(u8 list \<Rightarrow> u8 list) \<Rightarrow> u64 \<Rightarrow> u64 \<Rightarrow> network_message" where
  "pre_prepare_msg sha sender target =
     (let payload = bytes ''data''
      in \<lparr>msg_from = NodeId sender, msg_to = NodeId target,
          msg_payload = Pbft (PrePrepare 0 1 (payload_digest sha payload) payload)\<rparr>)"

definition dummy_msg :: "(u8 list \<Rightarrow> u8 list) \<Rightarrow> u64 \<Rightarrow> u64 \<Rightarrow> network_message" where
  "dummy_msg sha sender target =
     \<lparr>msg_from = NodeId sender, msg_to = NodeId target,
      msg_payload = Pbft (Commit 0 1 (payload_digest sha (bytes ''x'')) (NodeId sender))\<rparr>"

text \<open>\<open>match\<close> on a pre-prepare, which panics on any other message.\<close>

definition pre_prepare_of :: "network_message \<Rightarrow> (digest \<times> payload) res" where
  "pre_prepare_of m =
     (case msg_payload m of Pbft (PrePrepare v sq d p) \<Rightarrow> Inr (d, p) | _ \<Rightarrow> Inl AssertionFailed)"

definition no_faults_delivers_everything :: "'rng extern \<Rightarrow> 'rng \<Rightarrow> unit res" where
  "no_faults_delivers_everything X entropy =
     (let config = fault_default entropy;
          msg = dummy_msg (sha256 X) 0 1
      in assert_that (snd (should_deliver X config msg)))"

definition partition_blocks_both_directions :: "'rng extern \<Rightarrow> 'rng \<Rightarrow> unit res" where
  "partition_blocks_both_directions X entropy =
     (let config = with_partition (fault_default entropy) (NodeId 0) (NodeId 1);
          (config, d01) = should_deliver X config (dummy_msg (sha256 X) 0 1);
          (config, d10) = should_deliver X config (dummy_msg (sha256 X) 1 0);
          (config, d02) = should_deliver X config (dummy_msg (sha256 X) 0 2)
      in in_turn [assert_that (\<not> d01), assert_that (\<not> d10), assert_that d02])"

definition isolated_node_is_unreachable :: "'rng extern \<Rightarrow> 'rng \<Rightarrow> unit res" where
  "isolated_node_is_unreachable X entropy =
     (let config = with_isolated (fault_default entropy) (NodeId 2);
          (config, d02) = should_deliver X config (dummy_msg (sha256 X) 0 2);
          (config, d20) = should_deliver X config (dummy_msg (sha256 X) 2 0);
          (config, d01) = should_deliver X config (dummy_msg (sha256 X) 0 1)
      in in_turn [assert_that (\<not> d02), assert_that (\<not> d20), assert_that d01])"

fun all_dropped :: "'rng extern \<Rightarrow> nat \<Rightarrow> 'rng fault_config \<Rightarrow> network_message \<Rightarrow> unit res" where
  "all_dropped X 0 config msg = Inr ()"
| "all_dropped X (Suc k) config msg =
     (case should_deliver X config msg of
        (config', ok) \<Rightarrow> rbind (assert_that (\<not> ok)) (\<lambda>u. all_dropped X k config' msg))"

definition full_drop_rate_drops_everything :: "'rng extern \<Rightarrow> 'rng \<Rightarrow> unit res" where
  "full_drop_rate_drops_everything X entropy =
     (let config = with_drop_rate (fault_default entropy) (Finite 1);
          msg = dummy_msg (sha256 X) 0 1
      in all_dropped X 100 config msg)"

definition corrupt_digest_flips_first_byte :: "(u8 list \<Rightarrow> u8 list) \<Rightarrow> unit res" where
  "corrupt_digest_flips_first_byte sha =
     (let msg = pre_prepare_msg sha 0 1 in
      rbind (pre_prepare_of msg) (\<lambda>(original_digest, p).
      rbind (pre_prepare_of (corrupt_digest msg)) (\<lambda>(new_digest, p').
      in_turn
        [assert_that (digest_as_bytes new_digest ! 0 = digest_as_bytes original_digest ! 0 XOR 255),
         assert_that (drop 1 (digest_as_bytes new_digest) = drop 1 (digest_as_bytes original_digest))])))"

definition equivocate_splits_by_target_parity :: "'rng extern \<Rightarrow> unit res" where
  "equivocate_splits_by_target_parity X =
     (let config = with_byzantine (fault_with_seed X 42) (NodeId 0) [Equivocate];
          msg_even = pre_prepare_msg (sha256 X) 0 2;
          msg_odd = pre_prepare_msg (sha256 X) 0 1 in
      rbind (pre_prepare_of msg_even) (\<lambda>(d, original_payload).
      let result_even = tamper (sha256 X) config msg_even in
      rbind (assert_that (length result_even = 1)) (\<lambda>u.
      rbind (pre_prepare_of (result_even ! 0)) (\<lambda>(d, payload).
      rbind (assert_that (payload = original_payload)) (\<lambda>u.
      let result_odd = tamper (sha256 X) config msg_odd in
      rbind (assert_that (length result_odd = 1)) (\<lambda>u.
      rbind (pre_prepare_of (result_odd ! 0)) (\<lambda>(d, payload).
      assert_that (payload \<noteq> original_payload))))))))"

definition selective_drop_filters_matching_phases :: "'rng extern \<Rightarrow> unit res" where
  "selective_drop_filters_matching_phases X =
     (let config = with_byzantine (fault_with_seed X 42) (NodeId 0) [SelectiveDrop [PbftCommit]]
      in in_turn
           [assert_that (tamper (sha256 X) config (dummy_msg (sha256 X) 0 1) = []),
            assert_that (length (tamper (sha256 X) config (pre_prepare_msg (sha256 X) 0 1)) = 1)])"

definition non_byzantine_node_passes_through_untampered :: "'rng extern \<Rightarrow> unit res" where
  "non_byzantine_node_passes_through_untampered X =
     (let config = with_byzantine (fault_with_seed X 42) (NodeId 9) [CorruptDigest];
          msg = pre_prepare_msg (sha256 X) 0 1 in
      rbind (pre_prepare_of msg) (\<lambda>(original_digest, p).
      let result = tamper (sha256 X) config msg in
      rbind (assert_that (length result = 1)) (\<lambda>u.
      rbind (pre_prepare_of (result ! 0)) (\<lambda>(digest, p').
      assert_that (digest = original_digest)))))"

text \<open>\<open>gen::<f64>()\<close> is below one.\<close>

definition gen_f64_ok :: "('rng \<Rightarrow> f64 \<times> 'rng) \<Rightarrow> bool" where
  "gen_f64_ok g \<longleftrightarrow> (\<forall>r. f64_less (fst (g r)) (Finite 1))"

lemma all_dropped_ok:
  assumes "gen_f64_ok (gen_f64 X)" and "fc_drop_rate config = Finite 1"
  shows "all_dropped X k config msg = Inr ()"
  using assms(2)
proof (induction k arbitrary: config)
  case (Suc k)
  obtain config' ok where c: "should_deliver X config msg = (config', ok)" by fastforce
  have "\<not> ok" using c assms(1) Suc.prems
    by (auto simp: should_deliver_def gen_f64_ok_def split: if_splits prod.splits) (metis fst_conv)
  then show ?case using c Suc should_deliver_frame [OF c] by simp
qed simp

lemmas fault_eval =
  should_deliver_def dummy_msg_def pre_prepare_msg_def pre_prepare_of_def tamper_def with_byzantine_def
  with_isolated_def with_partition_def fault_with_seed_def fault_default_def corrupt_digest_def equivocate_def
  matches_phase_def bytes_def

lemma fault_tests_pass:
  assumes sha: "sha256_ok (sha256 X)" and gen: "gen_f64_ok (gen_f64 X)"
  shows "no_faults_delivers_everything X e = Inr ()" "partition_blocks_both_directions X e = Inr ()"
    "isolated_node_is_unreachable X e = Inr ()" "full_drop_rate_drops_everything X e = Inr ()"
    "corrupt_digest_flips_first_byte (sha256 X) = Inr ()" "equivocate_splits_by_target_parity X = Inr ()"
    "selective_drop_filters_matching_phases X = Inr ()" "non_byzantine_node_passes_through_untampered X = Inr ()"
proof -
  obtain b bs where "sha256 X (map of_char ''data'') = b # bs"
    using sha by (metis sha256_ok_def length_0_conv neq_Nil_conv zero_neq_numeral)
  then show "corrupt_digest_flips_first_byte (sha256 X) = Inr ()"
    by (simp add: corrupt_digest_flips_first_byte_def fault_eval)
  show "full_drop_rate_drops_everything X e = Inr ()"
    using all_dropped_ok [OF gen]
    by (simp add: full_drop_rate_drops_everything_def with_drop_rate_def f64_clamp_def Let_def)
qed (simp_all add: no_faults_delivers_everything_def partition_blocks_both_directions_def
    isolated_node_is_unreachable_def equivocate_splits_by_target_parity_def
    selective_drop_filters_matching_phases_def non_byzantine_node_passes_through_untampered_def fault_eval)

section \<open>PBFT\<close>

definition pbft_primary_accepts_and_broadcasts_pre_prepare :: "(u8 list \<Rightarrow> u8 list) \<Rightarrow> unit res" where
  "pbft_primary_accepts_and_broadcasts_pre_prepare sha =
     (let node = pbft_new (NodeId 0) 4 in
      rbind (pbft_propose sha node (bytes ''hello'')) (\<lambda>(node, result, outgoing).
      in_turn [assert_that (result = Accepted), assert_that (length outgoing = 6)]))"

definition pbft_non_primary_rejects_proposal :: "(u8 list \<Rightarrow> u8 list) \<Rightarrow> unit res" where
  "pbft_non_primary_rejects_proposal sha =
     (let node = pbft_new (NodeId 1) 4 in
      rbind (pbft_propose sha node (bytes ''hello'')) (\<lambda>(node, result, outgoing).
      in_turn [assert_that (result = NotLeader (Some (NodeId 0))), assert_that (outgoing = [])]))"

definition pbft_replica_responds_with_prepare_on_pre_prepare :: "(u8 list \<Rightarrow> u8 list) \<Rightarrow> unit res" where
  "pbft_replica_responds_with_prepare_on_pre_prepare sha =
     (let node = pbft_new (NodeId 1) 4;
          payload = bytes ''hello'';
          msg = \<lparr>msg_from = NodeId 0, msg_to = NodeId 1,
                 msg_payload = Pbft (PrePrepare 0 1 (payload_digest sha payload) payload)\<rparr> in
      rbind (pbft_handle_message node msg) (\<lambda>(node, outgoing).
      assert_that (length outgoing = 3)))"

definition pbft_quorum_size_is_correct :: "unit res" where
  "pbft_quorum_size_is_correct =
     (let node4 = pbft_new (NodeId 0) 4; node7 = pbft_new (NodeId 0) 7
      in in_turn
           [rbind (pbft_quorum node4) (\<lambda>q. assert_that (q = 3)),
            rbind (pbft_fault_tolerance node4) (\<lambda>f. assert_that (f = 1)),
            rbind (pbft_quorum node7) (\<lambda>q. assert_that (q = 5)),
            rbind (pbft_fault_tolerance node7) (\<lambda>f. assert_that (f = 2))])"

text \<open>\<open>for _ in 0..=VIEW_CHANGE_TIMEOUT\<close>: the messages of that many calls of \<open>tick\<close>.\<close>

fun tick_times :: "('n \<Rightarrow> ('n \<times> network_message list) res) \<Rightarrow> nat \<Rightarrow> 'n \<Rightarrow> network_message list res" where
  "tick_times tick 0 node = Inr []"
| "tick_times tick (Suc k) node =
     rbind (tick node) (\<lambda>(node', out).
     rbind (tick_times tick k node') (\<lambda>later. Inr (out @ later)))"

definition pbft_tick_triggers_view_change_on_timeout :: "unit res" where
  "pbft_tick_triggers_view_change_on_timeout =
     rbind (tick_times pbft_tick (Suc (unat PBFT_VIEW_CHANGE_TIMEOUT)) (pbft_new (NodeId 1) 4)) (\<lambda>total_outgoing.
     assert_that (length total_outgoing = 3))"

section \<open>HotStuff\<close>

definition hs_leader_accepts_and_broadcasts_propose :: "(u8 list \<Rightarrow> u8 list) \<Rightarrow> unit res" where
  "hs_leader_accepts_and_broadcasts_propose sha =
     (let node = hs_new (NodeId 0) 4 in
      rbind (hs_propose sha node (bytes ''hello'')) (\<lambda>(node, result, outgoing).
      in_turn [assert_that (result = Accepted), assert_that (length outgoing = 3)]))"

definition hs_non_leader_rejects_proposal :: "(u8 list \<Rightarrow> u8 list) \<Rightarrow> unit res" where
  "hs_non_leader_rejects_proposal sha =
     (let node = hs_new (NodeId 1) 4 in
      rbind (hs_propose sha node (bytes ''hello'')) (\<lambda>(node, result, outgoing).
      in_turn [assert_that (result = NotLeader (Some (NodeId 0))), assert_that (outgoing = [])]))"

definition hs_replica_responds_with_vote_on_propose :: "(u8 list \<Rightarrow> u8 list) \<Rightarrow> unit res" where
  "hs_replica_responds_with_vote_on_propose sha =
     (let node = hs_new (NodeId 1) 4;
          payload = bytes ''hello'';
          msg = \<lparr>msg_from = NodeId 0, msg_to = NodeId 1,
                 msg_payload = HotStuff (Propose 0 1 (payload_digest sha payload) payload 0 TagPrepare)\<rparr> in
      rbind (hs_handle_message node msg) (\<lambda>(node, outgoing).
      in_turn [assert_that (length outgoing = 1), assert_that (msg_to (outgoing ! 0) = NodeId 0)]))"

definition hs_quorum_size_is_correct :: "unit res" where
  "hs_quorum_size_is_correct =
     (let node4 = hs_new (NodeId 0) 4; node7 = hs_new (NodeId 0) 7
      in in_turn
           [rbind (hs_quorum node4) (\<lambda>q. assert_that (q = 3)),
            rbind (hs_fault_tolerance node4) (\<lambda>f. assert_that (f = 1)),
            rbind (hs_quorum node7) (\<lambda>q. assert_that (q = 5)),
            rbind (hs_fault_tolerance node7) (\<lambda>f. assert_that (f = 2))])"

definition hs_tick_triggers_view_change_on_timeout :: "unit res" where
  "hs_tick_triggers_view_change_on_timeout =
     rbind (tick_times hs_tick (Suc (unat HS_VIEW_CHANGE_TIMEOUT)) (hs_new (NodeId 1) 4)) (\<lambda>total_outgoing.
     assert_that (length total_outgoing = 1))"

definition hs_leader_forms_qc_at_quorum :: "(u8 list \<Rightarrow> u8 list) \<Rightarrow> unit res" where
  "hs_leader_forms_qc_at_quorum sha =
     (let leader = hs_new (NodeId 0) 4;
          payload = bytes ''test'';
          digest = payload_digest sha payload;
          vote = (\<lambda>voter. \<lparr>msg_from = voter, msg_to = NodeId 0,
                          msg_payload = HotStuff (Vote 0 1 digest TagPrepare voter)\<rparr>) in
      rbind (hs_propose sha leader payload) (\<lambda>(leader, result, outgoing).
      rbind (assert_that (result = Accepted)) (\<lambda>u.
      rbind (hs_handle_message leader (vote (NodeId 1))) (\<lambda>(leader, out1).
      rbind (assert_that (out1 = [])) (\<lambda>u.
      rbind (hs_handle_message leader (vote (NodeId 2))) (\<lambda>(leader, out2).
      assert_that (length out2 = 3)))))))"

section \<open>Raft\<close>

definition raft_leader_accepts_and_broadcasts :: "'rng extern \<Rightarrow> 'rng \<Rightarrow> unit res" where
  "raft_leader_accepts_and_broadcasts X entropy =
     rbind (raft_force_leader (raft_new_seeded X (NodeId 0) 3 entropy)) (\<lambda>node.
     rbind (raft_propose node (bytes ''test'')) (\<lambda>(node, result, outgoing).
     in_turn [assert_that (result = Accepted), assert_that (length outgoing = 2)]))"

definition raft_follower_rejects_proposal :: "'rng extern \<Rightarrow> 'rng \<Rightarrow> unit res" where
  "raft_follower_rejects_proposal X entropy =
     rbind (raft_propose (raft_new_seeded X (NodeId 1) 3 entropy) (bytes ''test'')) (\<lambda>(node, result, outgoing).
     in_turn [assert_that (case result of NotLeader l \<Rightarrow> True | _ \<Rightarrow> False), assert_that (outgoing = [])])"

definition raft_fault_tolerance_is_correct :: "'rng extern \<Rightarrow> 'rng \<Rightarrow> unit res" where
  "raft_fault_tolerance_is_correct X entropy =
     in_turn
       [rbind (raft_fault_tolerance (raft_new_seeded X (NodeId 0) 3 entropy)) (\<lambda>f. assert_that (f = 1)),
        rbind (raft_fault_tolerance (raft_new_seeded X (NodeId 0) 5 entropy)) (\<lambda>f. assert_that (f = 2))]"

section \<open>All of them\<close>

lemmas node_eval =
  pbft_eval pbft_fault_tolerance_def
  hs_new_def hs_propose_def hs_handle_message_def hs_on_propose_def hs_on_vote_def hs_count_vote_def hs_take_pending_def
  hs_leader_for_view_def hs_quorum_def hs_fault_tolerance_def hs_slot_new_def broadcast_hotstuff_def
  raft_new_seeded_def raft_force_leader_def raft_propose_def raft_fault_tolerance_def append_entries_to_peers_def
  build_append_entries_def log_len_def peers_of_def node_ids_def upt_rec bytes_def

lemma pbft_tests_pass:
  "pbft_primary_accepts_and_broadcasts_pre_prepare sha = Inr ()" "pbft_non_primary_rejects_proposal sha = Inr ()"
  "pbft_replica_responds_with_prepare_on_pre_prepare sha = Inr ()" "pbft_quorum_size_is_correct = Inr ()"
  "pbft_tick_triggers_view_change_on_timeout = Inr ()"
proof -
  show "pbft_tick_triggers_view_change_on_timeout = Inr ()" by code_simp
qed (simp_all add: pbft_primary_accepts_and_broadcasts_pre_prepare_def pbft_non_primary_rejects_proposal_def
    pbft_replica_responds_with_prepare_on_pre_prepare_def pbft_quorum_size_is_correct_def node_eval)

lemma hs_tests_pass:
  "hs_leader_accepts_and_broadcasts_propose sha = Inr ()" "hs_non_leader_rejects_proposal sha = Inr ()"
  "hs_replica_responds_with_vote_on_propose sha = Inr ()" "hs_quorum_size_is_correct = Inr ()"
  "hs_tick_triggers_view_change_on_timeout = Inr ()" "hs_leader_forms_qc_at_quorum sha = Inr ()"
proof -
  show "hs_tick_triggers_view_change_on_timeout = Inr ()" by code_simp
qed (simp_all add: hs_leader_accepts_and_broadcasts_propose_def hs_non_leader_rejects_proposal_def
    hs_replica_responds_with_vote_on_propose_def hs_quorum_size_is_correct_def hs_leader_forms_qc_at_quorum_def node_eval)

lemma raft_tests_pass:
  "raft_leader_accepts_and_broadcasts X e = Inr ()" "raft_follower_rejects_proposal X e = Inr ()"
  "raft_fault_tolerance_is_correct X e = Inr ()"
  by (simp_all add: raft_leader_accepts_and_broadcasts_def raft_follower_rejects_proposal_def
      raft_fault_tolerance_is_correct_def node_eval split: prod.splits)

definition unit_tests :: "'rng extern \<Rightarrow> 'rng \<Rightarrow> (node_id list \<Rightarrow> node_id list) \<Rightarrow> (string \<times> unit res) list" where
  "unit_tests X entropy iter =
     [(''agreement_passes_when_all_nodes_agree'', agreement_passes_when_all_nodes_agree iter),
      (''agreement_fails_when_nodes_disagree'', agreement_fails_when_nodes_disagree iter),
      (''total_order_passes_when_sequences_match'', total_order_passes_when_sequences_match iter),
      (''total_order_fails_when_sequences_differ'', total_order_fails_when_sequences_differ iter),
      (''integrity_detects_duplicate_sequence'', integrity_detects_duplicate_sequence iter),
      (''termination_fails_when_node_under_commits'', termination_fails_when_node_under_commits iter),
      (''empty_log_passes_all_checks'', empty_log_passes_all_checks iter),
      (''validity_fails_for_uncommitted_payload'', validity_fails_for_uncommitted_payload iter),
      (''no_faults_delivers_everything'', no_faults_delivers_everything X entropy),
      (''partition_blocks_both_directions'', partition_blocks_both_directions X entropy),
      (''isolated_node_is_unreachable'', isolated_node_is_unreachable X entropy),
      (''full_drop_rate_drops_everything'', full_drop_rate_drops_everything X entropy),
      (''corrupt_digest_flips_first_byte'', corrupt_digest_flips_first_byte (sha256 X)),
      (''equivocate_splits_by_target_parity'', equivocate_splits_by_target_parity X),
      (''selective_drop_filters_matching_phases'', selective_drop_filters_matching_phases X),
      (''non_byzantine_node_passes_through_untampered'', non_byzantine_node_passes_through_untampered X),
      (''pbft_primary_accepts_and_broadcasts_pre_prepare'', pbft_primary_accepts_and_broadcasts_pre_prepare (sha256 X)),
      (''pbft_non_primary_rejects_proposal'', pbft_non_primary_rejects_proposal (sha256 X)),
      (''pbft_replica_responds_with_prepare_on_pre_prepare'', pbft_replica_responds_with_prepare_on_pre_prepare (sha256 X)),
      (''pbft_quorum_size_is_correct'', pbft_quorum_size_is_correct),
      (''pbft_tick_triggers_view_change_on_timeout'', pbft_tick_triggers_view_change_on_timeout),
      (''hs_leader_accepts_and_broadcasts_propose'', hs_leader_accepts_and_broadcasts_propose (sha256 X)),
      (''hs_non_leader_rejects_proposal'', hs_non_leader_rejects_proposal (sha256 X)),
      (''hs_replica_responds_with_vote_on_propose'', hs_replica_responds_with_vote_on_propose (sha256 X)),
      (''hs_quorum_size_is_correct'', hs_quorum_size_is_correct),
      (''hs_tick_triggers_view_change_on_timeout'', hs_tick_triggers_view_change_on_timeout),
      (''hs_leader_forms_qc_at_quorum'', hs_leader_forms_qc_at_quorum (sha256 X)),
      (''raft_leader_accepts_and_broadcasts'', raft_leader_accepts_and_broadcasts X entropy),
      (''raft_follower_rejects_proposal'', raft_follower_rejects_proposal X entropy),
      (''raft_fault_tolerance_is_correct'', raft_fault_tolerance_is_correct X entropy)]"

text \<open>C30: Every unit test of the modules passes: for every iteration order of the sets, every generator whose
  numbers are below one, every entropy, and every digest function of 32 bytes.\<close>

theorem unit_tests_pass:
  assumes "sha256_ok (sha256 X)" and "gen_f64_ok (gen_f64 X)" and "\<And>xs. mset (iter xs) = mset xs"
  shows "list_all (\<lambda>(name, outcome). outcome = Inr ()) (unit_tests X entropy iter)"
  by (simp add: unit_tests_def invariant_tests_pass [OF assms(3)] fault_tests_pass [OF assms(1,2)] pbft_tests_pass
      hs_tests_pass raft_tests_pass)

theorem unit_tests_pass_witness:
  "list_all (\<lambda>(name, outcome). outcome = Inr ()) (unit_tests demo_extern 7 rev)"
  by (rule unit_tests_pass [OF demo_sha_ok]) (simp_all add: gen_f64_ok_def demo_extern_def)

end
