(* ===== verification/Spec2Isabelle.thy ===== *)
theory Spec2Isabelle
  imports PbftProps HsProps RaftProps Quorums ClusterProps Divergence Workloads ReportProps UnitTests
begin

text \<open>
  A model of bft-consensus-bench: three consensus protocols behind one trait, driven by a
  step-based cluster simulator with fault injection and a safety checker.

  \<^bold>\<open>The program.\<close>  \<open>src/src/types\<close> and \<open>src/src/network\<close> hold the data: node identifiers, payloads,
  digests, and the messages of the three protocols in one envelope.  \<open>src/src/consensus/mod.rs\<close>
  declares the trait \<open>ConsensusNode\<close>; \<open>pbft\<close>, \<open>hotstuff\<close> and \<open>raft\<close> below it implement it, each as a
  node with a state under a mutex, so that a call of a method is one atomic step.
  \<open>src/src/cluster/mod.rs\<close> owns a list of nodes and a queue of messages: \<open>propose\<close> looks for a node that
  accepts a payload, \<open>step\<close> delivers everything that is pending, \<open>tick\<close> lets time pass, and
  \<open>collect_and_record_commits\<close> drains what the nodes committed into the commit log of
  \<open>cluster/invariant.rs\<close>, whose five checks are the program's own notion of correctness.
  \<open>cluster/fault.rs\<close> decides which messages are delivered and how those of Byzantine nodes are
  tampered with.  Two programs use the library: \<open>bin/bench_report.rs\<close> runs workloads on new clusters, clean
  and with Byzantine replicas, and prints the times and message counts as tables, charts or
  comma-separated values; \<open>main.rs\<close> prints a summary.

  \<^bold>\<open>The model\<close>, in the order of the imports.
  \<^item> \<open>Prelude\<close>: machine integers (\<open>u64\<close> words with checked addition, \<open>usize\<close> as \<open>nat\<close>), panics as values
    (\<open>res\<close>), association lists.  \<open>Types\<close>, \<open>Network\<close>: the data.  SHA-256, the generator of \<open>rand\<close> and
    the entropy of the system are arguments (\<open>extern\<close>).
  \<^item> \<open>Consensus\<close>: the trait as a record of operations (\<open>vtable\<close>), runs of one node (\<open>node_run\<close>) and the
    locale \<open>consensus_node\<close>, the contract the simulator relies on: identities and signatures are
    kept, a rejected proposal changes nothing, committed entries are only appended and drained.
  \<^item> \<open>PbftNode\<close>, \<open>HotStuffNode\<close>, \<open>RaftNode\<close>: one definition per method and per arm of
    \<open>handle_message\<close>.  A \<open>HashMap\<close> that is only looked up is a map; one that is iterated is an association
    list, in the order of the iteration.  The atomics that mirror the view or the leader for the
    synchronous \<open>leader()\<close> are fields of their own.
  \<^item> \<open>Fault\<close>, \<open>CommitLog\<close>, \<open>Cluster\<close>, \<open>Clusters\<close>: fault injection, the checker, the simulator over any method
    table, and the constructors.
  \<^item> \<open>AsyncNet\<close>: the abstract system, an inductive step relation in which any message ever sent may be
    delivered at any time, any number of times or never, digests may be corrupted, and timers may
    fire at any time.  Ghost components record decisions with their view, and proposals.
  \<^item> \<open>Floats\<close>, \<open>Workload\<close> (its first section), \<open>Report\<close>: doubles as exact rationals with IEEE rounding; the
    loops of the runners; every function of the benchmark report and the demo, with text as lists of
    code points and printing as a list of lines that a panic may end.  Times and entropy are arguments.
  \<^item> \<open>UnitTests\<close>: the \<open>#[test]\<close> functions inside the modules, as computations that panic or pass.

  \<^bold>\<open>The lemmas.\<close>
  \<^item> \<open>PbftInv\<close>, \<open>HsInv\<close>, \<open>RaftInv\<close>: the well-formedness invariant of each node and the proof that each
    method keeps it; the interpretations \<open>pb\<close>, \<open>hb\<close> and \<open>rb\<close> of \<open>consensus_node\<close>.
  \<^item> \<open>Sequenced\<close> (locale \<open>sequenced_protocol\<close>): a leader binds each number of its view once and replicas
    commit only what is bound.  \<open>PbftSafety\<close> and \<open>HsSafety\<close> interpret it (\<open>pbs\<close>, \<open>hbs\<close>): agreement within a
    view and validity in every reachable state of \<open>AsyncNet\<close>.
  \<^item> \<open>Evidence\<close> (locale \<open>evidence_protocol\<close>): what the set of all messages sent proves.  \<open>PbftQuorum\<close> and
    \<open>HsQuorum\<close> interpret it (\<open>pbe\<close>, \<open>hbe\<close>): commits and certificates are backed by quorums of votes.
  \<^item> \<open>Quorums\<close> (locale \<open>quorum_system\<close>): when quorums intersect; interpreted on the three protocols.
  \<^item> \<open>PbftLive\<close>, \<open>HsLive\<close>, \<open>RaftLog\<close>: whole exchanges of one node, its timers, the calls that can panic, the
    merge of log entries against a reference, vote and commit rules.
  \<^item> \<open>RaftSafety\<close>, \<open>RaftCluster\<close>: with one leader made by \<open>force_leader\<close> and no timers, all logs are prefixes
    of one append-only log; this abstract log is what the cluster's commit log records.
  \<^item> \<open>ClusterNet\<close>: every sequence of calls on a cluster is a run of \<open>AsyncNet\<close> while no node equivocates
    (\<open>cluster_rel\<close> is the refinement relation); \<open>CheckSpec\<close>: each check passes exactly when its sentence
    about the log holds; \<open>ClusterSafety\<close> joins the two.  \<open>ClusterLemmas\<close>: counters, termination, isolation.
  \<^item> \<open>Rounds\<close>, \<open>Stars\<close>: a step of a cluster whose queue is one message to or from each of the others, and how
    such rounds follow each other.  \<open>PbftRound\<close>, \<open>PbftThree\<close>, \<open>HsRound\<close>, \<open>RaftRound\<close>: what one proposal does to a
    calm cluster: PBFT takes 3 steps, HotStuff 7 steps of \<open>n - 1\<close> messages, Raft 2.  Three nodes are a case of
    their own for PBFT, whose quorum is then one node.
  \<^item> \<open>Workload\<close> (locale \<open>round_protocol\<close>): whole workloads from such rounds, and what the checks say then;
    \<open>Workloads\<close> interprets it (\<open>pw\<close>, \<open>pw3\<close>, \<open>hw\<close>, \<open>rw\<close>).  \<open>ReportProps\<close>: the message counts of every report,
    bars that fit, rows that can be read back, no panic.
  \<^item> \<open>PbftProps\<close>, \<open>HsProps\<close>, \<open>RaftProps\<close>, \<open>Quorums\<close>, \<open>ClusterProps\<close> and the three above: the properties, each after a text with its
    claim number and followed by a run that shows its hypotheses can hold.  \<open>Divergence\<close>: runs evaluated
    from the model in which a check fails; they mark where the guarantees end: an equivocating
    leader, a change of views, a Raft election.  The agreement theorems are therefore stated per
    view, or for clusters whose timers do not run.

  \<^bold>\<open>Bounds and fuel.\<close>  No definition takes fuel of its own: the loops of the source are structural over the
  queue, the node indices, the log or the limit the source itself passes (\<open>max_steps\<close>, \<open>max_ticks\<close>).
  Counters and sequence numbers are 64-bit and panic on overflow as a debug build does; theorems
  about clusters assume fewer than \<open>2 ^ 64\<close> nodes, so that identifiers are distinct.

  Workload theorems assume that the message counter does not overflow, and the step limit of a
  runner (30 or 50) exceeds the steps of a round.

  \<^bold>\<open>Not modelled.\<close>  The criterion benches and the integration tests under \<open>tests/\<close> call the library and print or
  compare; the workload theorems cover the runs without lost messages, for clusters of any size.  Tracing
  output and serialisation derives are left out.  Futures are: every \<open>await\<close> of the simulator is on a
  mutex nobody else holds, so the calls run to their end one after the other.  Output that fails
  (a closed pipe) and the sign of a floating-point zero, which the report never prints, are not in
  the model.  The workload theorem for PBFT covers honest clusters of three nodes and clusters of four
  or more whose Byzantine replicas corrupt digests or equivocate but drop nothing; two nodes are left out.
\<close>

end
